(* ===== verification/Prelude.thy ===== *)
theory Prelude
  imports Main
begin

text \<open>
  Shared vocabulary of the development: the fact collections the component theories feed,
  Go's \<^verbatim>\<open>error\<close> values, the decimal and boolean renderings of \<^verbatim>\<open>fmt\<close>, and the generic
  lemmas on lists and maps that several components use.

  A Go string is a byte sequence, and a HOL character is an 8-bit value, so \<^typ>\<open>string\<close> is
  Go's \<^verbatim>\<open>string\<close> (and \<^verbatim>\<open>[]byte\<close>) as it is. An instant of \<^verbatim>\<open>time.Time\<close> is the number of
  nanoseconds since the Unix epoch.
\<close>

named_theorems claim_simps \<open>behaviour of the claim operations on each branch\<close>
named_theorems store_simps \<open>behaviour of the record stores on each branch\<close>
named_theorems str_simps \<open>renderings of the string constants\<close>

section \<open>Go values\<close>

type_synonym time = int

text \<open>The zero \<^verbatim>\<open>time.Time\<close> (January 1, year 1, 00:00:00 UTC), tested by \<^verbatim>\<open>IsZero\<close>.\<close>

definition zero_time :: time where
  "zero_time = - 62135596800 * 1000000000"

definition IsZero :: "time \<Rightarrow> bool" where
  "IsZero t \<longleftrightarrow> t = zero_time"

text \<open>
  An \<^verbatim>\<open>error\<close> value: the sentinel that \<^verbatim>\<open>errors.Is\<close> finds along its chain (if any), the
  text of \<^verbatim>\<open>Error()\<close>, and, for a Temporal application error, its type and whether it is
  non-retryable.
\<close>

datatype sentinel =
    ErrClaimHeld | ErrClaimNotHeld | ErrClaimNotFound
  | ErrInvalidDecisionRecord | ErrDecisionConflict | ErrDecisionNotFound
  | NonRetryableInfraError | ErrRootCoreMutation | ErrAuthHandshakeFailed | ErrAuditPersistFailed
  | ErrIngressDecisionNotFound | ErrIngressWrongStage | ErrIngressNotAllowed
  | ErrIngressAgentMismatch | ErrIngressHashMismatch | ErrIngressIdentityMismatch
  | NoSentinel

record go_error =
  err_is :: sentinel
  err_text :: string
  err_type :: string
  err_nonretryable :: bool

text \<open>\<^verbatim>\<open>errors.New(msg)\<close> with no sentinel of its own.\<close>

definition errors_New :: "string \<Rightarrow> go_error" where
  "errors_New msg = \<lparr>err_is = NoSentinel, err_text = msg, err_type = '''', err_nonretryable = False\<rparr>"

text \<open>A package-level sentinel variable, returned as it is.\<close>

definition sentinel_error :: "sentinel \<Rightarrow> string \<Rightarrow> go_error" where
  "sentinel_error k msg = \<lparr>err_is = k, err_text = msg, err_type = '''', err_nonretryable = False\<rparr>"

text \<open>\<^verbatim>\<open>fmt.Errorf\<close> with one \<^verbatim>\<open>%w\<close> verb: the chain is kept, the text is the new one.\<close>

definition wrap_error :: "go_error \<Rightarrow> string \<Rightarrow> go_error" where
  "wrap_error e msg = \<lparr>err_is = err_is e, err_text = msg, err_type = err_type e,
     err_nonretryable = err_nonretryable e\<rparr>"

text \<open>
  \<^verbatim>\<open>temporal.NewNonRetryableApplicationError(msg, typ, cause)\<close>; the chain is the cause's. The text is the
  message; what the package adds to it in print (type and cause) is left out.
\<close>

definition app_error :: "string \<Rightarrow> string \<Rightarrow> go_error option \<Rightarrow> go_error" where
  "app_error msg typ cause =
     \<lparr>err_is = (case cause of None \<Rightarrow> NoSentinel | Some e \<Rightarrow> err_is e), err_text = msg,
      err_type = typ, err_nonretryable = True\<rparr>"

lemma err_is_simps [simp]:
  "err_is (errors_New m) = NoSentinel"
  "err_is (sentinel_error k m) = k"
  "err_is (wrap_error e m) = err_is e"
  "err_is (app_error m t None) = NoSentinel"
  "err_is (app_error m t (Some e)) = err_is e"
  by (simp_all add: errors_New_def sentinel_error_def wrap_error_def app_error_def)

lemma err_type_simps [simp]:
  "err_type (errors_New m) = ''''"
  "err_type (sentinel_error k m) = ''''"
  "err_type (wrap_error e m) = err_type e"
  "err_type (app_error m t c) = t"
  "err_nonretryable (app_error m t c)"
  "\<not> err_nonretryable (sentinel_error k m)"
  "\<not> err_nonretryable (errors_New m)"
  by (simp_all add: errors_New_def sentinel_error_def wrap_error_def app_error_def)

section \<open>Rendering\<close>

text \<open>\<^verbatim>\<open>%d\<close> of a non-negative integer and \<^verbatim>\<open>%t\<close> of a boolean.\<close>

fun fmt_d :: "nat \<Rightarrow> string" where
  "fmt_d n = (if n < 10 then [char_of (48 + n)] else fmt_d (n div 10) @ [char_of (48 + n mod 10)])"

declare fmt_d.simps [simp del]

definition fmt_t :: "bool \<Rightarrow> string" where
  "fmt_t b = (if b then ''true'' else ''false'')"

definition hex_digit :: "nat \<Rightarrow> char" where
  "hex_digit n = ''0123456789abcdef'' ! n"

text \<open>
  \<^verbatim>\<open>%q\<close> (\<^verbatim>\<open>strconv.Quote\<close>): exact on ASCII text. Bytes from 0x80 on are passed through,
  which is what Go does with printable Unicode; identifiers and messages of the gate are ASCII.
\<close>

definition quote_byte :: "char \<Rightarrow> string" where
  "quote_byte c = (let n = of_char c :: nat; bs = char_of (92 :: nat) in
     if n = 34 \<or> n = 92 then [bs, c]
     else if n = 7 then bs # ''a'' else if n = 8 then bs # ''b'' else if n = 9 then bs # ''t''
     else if n = 10 then bs # ''n'' else if n = 11 then bs # ''v'' else if n = 12 then bs # ''f''
     else if n = 13 then bs # ''r''
     else if n < 32 \<or> n = 127 then bs # CHR ''x'' # [hex_digit (n div 16), hex_digit (n mod 16)]
     else [c])"

definition fmt_q :: "string \<Rightarrow> string" where
  "fmt_q s = char_of (34 :: nat) # concat (map quote_byte s) @ [char_of (34 :: nat)]"

text \<open>\<^verbatim>\<open>strings.Join\<close>.\<close>

fun strings_Join :: "string list \<Rightarrow> string \<Rightarrow> string" where
  "strings_Join [] sep = []"
| "strings_Join [x] sep = x"
| "strings_Join (x # y # xs) sep = x @ sep @ strings_Join (y # xs) sep"

section \<open>Generic lemmas\<close>

lemma char_of_digit_inj:
  assumes "a < 10" and "b < 10" and "(char_of (48 + a) :: char) = char_of (48 + b)"
  shows "a = (b :: nat)"
proof -
  have "(of_char (char_of (48 + a) :: char) :: nat) = of_char (char_of (48 + b) :: char)"
    using assms(3) by simp
  then show ?thesis using assms(1,2) by simp
qed

lemma fmt_d_inj: "fmt_d m = fmt_d n \<Longrightarrow> m = n"
proof (induction m arbitrary: n rule: fmt_d.induct)
  case (1 m)
  have ne: "fmt_d k \<noteq> []" for k by (subst fmt_d.simps) simp
  show ?case
  proof (cases "m < 10"; cases "n < 10")
    assume "m < 10" "n < 10"
    then show ?thesis using "1.prems" by (auto simp: fmt_d.simps [of m] fmt_d.simps [of n]
          intro: char_of_digit_inj)
  next
    assume "m < 10" "\<not> n < 10"
    then show ?thesis using "1.prems" ne [of "n div 10"]
      by (auto simp: fmt_d.simps [of m] fmt_d.simps [of n])
  next
    assume "\<not> m < 10" "n < 10"
    then show ?thesis using "1.prems" ne [of "m div 10"]
      by (auto simp: fmt_d.simps [of m] fmt_d.simps [of n])
  next
    assume big: "\<not> m < 10" "\<not> n < 10"
    with "1.prems" have "fmt_d (m div 10) = fmt_d (n div 10)"
      and last: "(char_of (48 + m mod 10) :: char) = char_of (48 + n mod 10)"
      by (auto simp: fmt_d.simps [of m] fmt_d.simps [of n])
    with "1.IH" big have "m div 10 = n div 10" by blast
    moreover have "m mod 10 = n mod 10" by (rule char_of_digit_inj [OF _ _ last]) simp_all
    ultimately show ?thesis by (metis div_mult_mod_eq)
  qed
qed

lemma nth_append_snoc [simp]: "(xs @ [x]) ! length xs = x"
  by simp

lemma map_of_SomeD_in: "map_of xs k = Some v \<Longrightarrow> (k, v) \<in> set xs"
  by (rule map_of_SomeD)

text \<open>An early return on error: the rest ran, and succeeded, exactly if there was no error.\<close>

lemma case_error_Inr_iff:
  "(case x of Inl e \<Rightarrow> Inl (g e) | Inr a \<Rightarrow> f a) = Inr m \<longleftrightarrow> (\<exists>a. x = Inr a \<and> f a = Inr m)"
  by (cases x) auto

lemma if_error_Inr_iff: "(if c then Inl e else x) = Inr m \<longleftrightarrow> \<not> c \<and> x = Inr m"
  by simp

text \<open>Rows of a table with a unique key.\<close>

lemma find_None_key: "find (\<lambda>x. f x = k) xs = None \<longleftrightarrow> k \<notin> f ` set xs"
  by (auto simp: find_None_iff)

lemma find_Some_key: "find (\<lambda>x. f x = k) xs = Some x \<Longrightarrow> x \<in> set xs \<and> f x = k"
  by (auto simp: find_Some_iff)

lemma find_append:
  "find P (xs @ ys) = (case find P xs of Some x \<Rightarrow> Some x | None \<Rightarrow> find P ys)"
  by (induction xs) auto

lemma filter_key:
  assumes "distinct (map f xs)"
  shows "filter (\<lambda>x. f x = k \<and> Q x) xs =
    (case find (\<lambda>x. f x = k) xs of Some x \<Rightarrow> if Q x then [x] else [] | None \<Rightarrow> [])"
  using assms
proof (induction xs)
  case (Cons a xs)
  have "filter (\<lambda>x. f x = f a \<and> Q x) xs = []" using Cons.prems by (auto simp: filter_empty_conv) (metis image_eqI)
  then show ?case using Cons by auto
qed simp

lemma find_key_mem: "distinct (map f xs) \<Longrightarrow> x \<in> set xs \<Longrightarrow> find (\<lambda>y. f y = f x) xs = Some x"
  by (induction xs) auto

lemma find_map_key:
  assumes "\<And>x. f (u x) = f x"
  shows "find (\<lambda>x. f x = k) (map u xs) = map_option u (find (\<lambda>x. f x = k) xs)"
  by (induction xs) (auto simp: assms)

text \<open>Evaluation of \<^const>\<open>fmt_d\<close> on literals.\<close>

lemma char_of_digits [simp]:
  "char_of (48 :: nat) = CHR ''0''" "char_of (49 :: nat) = CHR ''1''" "char_of (50 :: nat) = CHR ''2''"
  "char_of (51 :: nat) = CHR ''3''" "char_of (52 :: nat) = CHR ''4''" "char_of (53 :: nat) = CHR ''5''"
  "char_of (54 :: nat) = CHR ''6''" "char_of (55 :: nat) = CHR ''7''" "char_of (56 :: nat) = CHR ''8''"
  "char_of (57 :: nat) = CHR ''9''"
  by code_simp+

lemma fmt_d_eval:
  "fmt_d 0 = ''0''" "fmt_d (Suc 0) = ''1''"
  "fmt_d (numeral k) = (if (numeral k :: nat) < 10 then [char_of (48 + numeral k :: nat)]
     else fmt_d (numeral k div 10) @ [char_of (48 + numeral k mod 10 :: nat)])"
  by (simp_all add: fmt_d.simps [of 0] fmt_d.simps [of "Suc 0"] fmt_d.simps [of "numeral k"])

end
