(* ===== verification/Time_Text.thy ===== *)
theory Time_Text
  imports Prelude
begin

text \<open>
  \<^verbatim>\<open>formatTime\<close> of \<^verbatim>\<open>internal/audit/sqlite.go\<close>: an instant as the RFC 3339 text (layout
  \<^verbatim>\<open>time.RFC3339Nano\<close>, UTC) that the timestamp columns hold. The fraction of a second is
  written without trailing zeros and left out when it is zero, so the texts of two instants do
  not compare like the instants.
\<close>

section \<open>Calendar\<close>

text \<open>Year, month and day of a day number (days since 1970-01-01, proleptic Gregorian).\<close>

definition civil_of_days :: "int \<Rightarrow> int \<times> int \<times> int" where
  "civil_of_days days =
     (let z = days + 719468;
          era = z div 146097;
          doe = z mod 146097;
          yoe = (doe - doe div 1460 + doe div 36524 - doe div 146096) div 365;
          doy = doe - (365 * yoe + yoe div 4 - yoe div 100);
          mp = (5 * doy + 2) div 153;
          d = doy - (153 * mp + 2) div 5 + 1;
          m = (if mp < 10 then mp + 3 else mp - 9);
          y = yoe + era * 400 + (if m \<le> 2 then 1 else 0)
      in (y, m, d))"

section \<open>Text\<close>

text \<open>Go's \<^verbatim>\<open>appendInt\<close>: decimal, zero-padded to \<open>w\<close> digits.\<close>

definition append_int :: "nat \<Rightarrow> int \<Rightarrow> string" where
  "append_int w n = (let s = fmt_d (nat \<bar>n\<bar>) in
     (if n < 0 then ''-'' else '''') @ replicate (w - length s) (CHR ''0'') @ s)"

definition trim_zeros :: "string \<Rightarrow> string" where
  "trim_zeros s = rev (dropWhile (\<lambda>c. c = CHR ''0'') (rev s))"

definition fraction :: "int \<Rightarrow> string" where
  "fraction ns = (if ns = 0 then '''' else ''.'' @ trim_zeros (append_int 9 ns))"

definition formatTime :: "time \<Rightarrow> string" where
  "formatTime t =
     (let secs = t div 1000000000; ns = t mod 1000000000;
          (y, mo, d) = civil_of_days (secs div 86400);
          s = secs mod 86400
      in append_int 4 y @ ''-'' @ append_int 2 mo @ ''-'' @ append_int 2 d @ ''T''
         @ append_int 2 (s div 3600) @ '':'' @ append_int 2 (s mod 3600 div 60) @ '':''
         @ append_int 2 (s mod 60) @ fraction ns @ ''Z'')"

end
