(* ===== verification/Time_Parse.thy ===== *)
theory Time_Parse
  imports Time_Text
begin

text \<open>
  \<^verbatim>\<open>parseTime\<close> of \<^verbatim>\<open>internal/audit/sqlite.go\<close>: \<^verbatim>\<open>time.Parse\<close> for the layout \<^verbatim>\<open>time.RFC3339Nano\<close>, chunk by
  chunk of the layout. (The library tries a faster routine first, which accepts less and agrees
  where it accepts.) What \<^verbatim>\<open>formatTime\<close> writes for a year of four digits is read back as the same instant;
  the main step is that the calendar computation has an inverse.
\<close>

section \<open>Reading numbers\<close>

definition dval :: "char \<Rightarrow> nat" where
  "dval c = of_char c - 48"

definition isDigit :: "char \<Rightarrow> bool" where
  "isDigit c \<longleftrightarrow> 48 \<le> (of_char c :: nat) \<and> (of_char c :: nat) \<le> 57"

text \<open>\<^verbatim>\<open>atoi\<close> on a text of digits, and \<^verbatim>\<open>getnum\<close>: two digits, or one where the layout allows it.\<close>

definition digits_value :: "string \<Rightarrow> nat" where
  "digits_value s = foldl (\<lambda>n c. n * 10 + dval c) 0 s"

definition getnum :: "bool \<Rightarrow> string \<Rightarrow> (nat \<times> string) option" where
  "getnum fixed s = (case s of
       c # cs \<Rightarrow>
         if \<not> isDigit c then None
         else (case cs of
             d # ds \<Rightarrow> if isDigit d then Some (dval c * 10 + dval d, ds)
                       else if fixed then None else Some (dval c, cs)
           | [] \<Rightarrow> if fixed then None else Some (dval c, []))
     | [] \<Rightarrow> None)"

definition skip :: "char \<Rightarrow> string \<Rightarrow> string option" where
  "skip c s = (case s of d # ds \<Rightarrow> if d = c then Some ds else None | [] \<Rightarrow> None)"

definition year4 :: "string \<Rightarrow> (nat \<times> string) option" where
  "year4 s = (if 4 \<le> length s \<and> list_all isDigit (take 4 s) then Some (digits_value (take 4 s), drop 4 s) else None)"

text \<open>The fraction of a second, with a period or a comma; digits beyond the ninth are dropped.\<close>

definition nanoseconds :: "string \<Rightarrow> int \<times> string" where
  "nanoseconds s = (case s of
       c # ds \<Rightarrow>
         if c \<in> {CHR ''.'', CHR '',''} \<and> takeWhile isDigit ds \<noteq> [] then
           let f = take 9 (takeWhile isDigit ds)
           in (int (digits_value f * 10 ^ (9 - length f)), dropWhile isDigit ds)
         else (0, s)
     | [] \<Rightarrow> (0, s))"

text \<open>The zone: \<^verbatim>\<open>Z\<close>, or an offset in hours and minutes; the result is in seconds.\<close>

definition zone :: "string \<Rightarrow> (int \<times> string) option" where
  "zone s = (case s of
       c # ds \<Rightarrow>
         if c = CHR ''Z'' then Some (0, ds)
         else if 6 \<le> length s \<and> s ! 3 = CHR '':'' then
           (case (getnum True (take 2 ds), getnum True (take 2 (drop 3 ds))) of
              (Some (hr, _), Some (mm, _)) \<Rightarrow>
                if 24 < hr \<or> 60 < mm then None
                else if c = CHR ''+'' then Some (int (hr * 60 + mm) * 60, drop 6 s)
                else if c = CHR ''-'' then Some (- (int (hr * 60 + mm) * 60), drop 6 s)
                else None
            | _ \<Rightarrow> None)
         else None
     | [] \<Rightarrow> None)"

section \<open>Calendar\<close>

definition is_leap :: "int \<Rightarrow> bool" where
  "is_leap y \<longleftrightarrow> y mod 4 = 0 \<and> (y mod 100 \<noteq> 0 \<or> y mod 400 = 0)"

definition daysIn :: "int \<Rightarrow> int \<Rightarrow> int" where
  "daysIn m y = (if m = 2 then (if is_leap y then 29 else 28) else if m \<in> {4, 6, 9, 11} then 30 else 31)"

definition days_of_civil :: "int \<times> int \<times> int \<Rightarrow> int" where
  "days_of_civil = (\<lambda>(y, m, d).
     let y' = (if m \<le> 2 then y - 1 else y);
         yoe = y' mod 400;
         mp = (if m > 2 then m - 3 else m + 9);
         doy = (153 * mp + 2) div 5 + d - 1
     in y' div 400 * 146097 + (yoe * 365 + yoe div 4 - yoe div 100 + doy) - 719468)"

definition parseTime :: "string \<Rightarrow> go_error + time" where
  "parseTime s =
     (case Option.bind (year4 s) (\<lambda>(y, s).
        Option.bind (Option.bind (skip (CHR ''-'') s) (getnum True)) (\<lambda>(mo, s).
        Option.bind (Option.bind (skip (CHR ''-'') s) (getnum True)) (\<lambda>(d, s).
        Option.bind (Option.bind (skip (CHR ''T'') s) (getnum False)) (\<lambda>(h, s).
        Option.bind (Option.bind (skip (CHR '':'') s) (getnum True)) (\<lambda>(mi, s).
        Option.bind (Option.bind (skip (CHR '':'') s) (getnum True)) (\<lambda>(sec, s).
        let (ns, s) = nanoseconds s in
        Option.bind (zone s) (\<lambda>(off, s).
          if s \<noteq> [] \<or> mo < 1 \<or> 12 < mo \<or> 24 \<le> h \<or> 60 \<le> mi \<or> 60 \<le> sec \<or> d < 1 \<or> daysIn (int mo) (int y) < int d
          then None
          else Some ((days_of_civil (int y, int mo, int d) * 86400 + int h * 3600 + int mi * 60 + int sec - off)
                 * 1000000000 + ns)))))))) of
       None \<Rightarrow> Inl (errors_New ''stored timestamp is not RFC 3339'')
     | Some t \<Rightarrow> Inr t)"

section \<open>The calendar computation has an inverse\<close>

text \<open>Years of a 400-year era counted from March, and the day each begins with.\<close>

definition year_start :: "int \<Rightarrow> int" where
  "year_start y = 365 * y + y div 4 - y div 100 + (if y = 400 then 1 else 0)"

definition year_of :: "int \<Rightarrow> int" where
  "year_of doe = (doe - doe div 1460 + doe div 36524 - doe div 146096) div 365"

lemma era_mono_step:
  assumes "0 \<le> d" "d < 146096"
  shows "d - d div 1460 + d div 36524 - d div 146096 \<le>
    (d + 1) - (d + 1) div 1460 + (d + 1) div 36524 - (d + 1) div (146096 :: int)"
proof -
  have a: "(d + 1) div 1460 \<le> d div 1460 + 1" by linarith
  have b: "d div 36524 \<le> (d + 1) div 36524" by linarith
  show ?thesis
  proof (cases "d + 1 = 146096")
    case True
    then have "d = 146095" by simp
    then show ?thesis by simp
  next
    case False
    then have "d div 146096 = 0" "(d + 1) div 146096 = 0" using assms by simp_all
    with a b show ?thesis by linarith
  qed
qed

lemma year_bounds:
  "\<forall>y \<in> set [0..399]. year_of (year_start y) = y \<and> year_of (year_start (y + 1) - 1) = y \<and>
     year_start (y + 1) - year_start y = (if is_leap (y + 1) then 366 else 365)"
  by code_simp

definition era_days :: "int \<Rightarrow> int" where
  "era_days d = d - d div 1460 + d div 36524 - d div 146096"

lemma era_mono: "0 \<le> d \<Longrightarrow> d + int k \<le> 146096 \<Longrightarrow> era_days d \<le> era_days (d + int k)"
proof (induction k)
  case (Suc k)
  then have "era_days d \<le> era_days (d + int k)" by simp
  also have "\<dots> \<le> era_days (d + int k + 1)" unfolding era_days_def by (rule era_mono_step) (use Suc.prems in simp_all)
  finally show ?case by (simp add: algebra_simps)
qed simp

lemma year_of_mono:
  assumes "0 \<le> d" "d \<le> d'" "d' \<le> 146096"
  shows "year_of d \<le> year_of d'"
proof -
  have "era_days d \<le> era_days (d + int (nat (d' - d)))" by (rule era_mono) (use assms in simp_all)
  then have "era_days d \<le> era_days d'" using assms by simp
  then show ?thesis unfolding year_of_def era_days_def by (rule zdiv_mono1) simp
qed

lemma year_start_step:
  assumes "0 \<le> y" "y < 400"
  shows "year_of (year_start y) = y" "year_of (year_start (y + 1) - 1) = y"
    "year_start (y + 1) - year_start y = (if is_leap (y + 1) then 366 else 365)"
  using bspec [OF year_bounds [unfolded set_upto], of y] assms by simp_all

lemma year_start_nonneg: "0 \<le> y \<Longrightarrow> 0 \<le> year_start y"
  by (auto simp: year_start_def)

lemma year_exists: "n \<le> 400 \<Longrightarrow> 0 \<le> doe \<Longrightarrow> doe < year_start (int n) \<Longrightarrow>
  \<exists>y. 0 \<le> y \<and> y < int n \<and> year_start y \<le> doe \<and> doe < year_start (y + 1)"
proof (induction n)
  case 0
  then show ?case by (simp add: year_start_def)
next
  case (Suc n)
  show ?case
  proof (cases "doe < year_start (int n)")
    case True
    with Suc obtain y where "0 \<le> y" "y < int n" "year_start y \<le> doe" "doe < year_start (y + 1)" by auto
    then show ?thesis by (intro exI [of _ y]) simp
  next
    case False
    with Suc.prems show ?thesis by (intro exI [of _ "int n"]) (simp add: add.commute)
  qed
qed

lemma year_of_doe:
  assumes "0 \<le> doe" "doe < 146097"
  shows "0 \<le> year_of doe" "year_of doe < 400" "year_start (year_of doe) \<le> doe" "doe < year_start (year_of doe + 1)"
proof -
  have "year_start (int 400) = 146097" by (simp add: year_start_def)
  with assms year_exists [of 400 doe] obtain y
    where y: "0 \<le> y" "y < 400" "year_start y \<le> doe" "doe < year_start (y + 1)" by auto
  note s = year_start_step [OF y(1,2)]
  have "year_of (year_start y) \<le> year_of doe"
    by (rule year_of_mono) (use y assms year_start_nonneg [OF y(1)] in simp_all)
  moreover have "year_start (y + 1) - 1 \<le> 146096"
  proof -
    have "year_start (y + 1) \<le> year_start 400" using y(1,2) by (auto simp: year_start_def)
    then show ?thesis by (simp add: year_start_def)
  qed
  then have "year_of doe \<le> year_of (year_start (y + 1) - 1)" by (intro year_of_mono) (use y assms in simp_all)
  ultimately have "year_of doe = y" using s by simp
  with y show "0 \<le> year_of doe" "year_of doe < 400" "year_start (year_of doe) \<le> doe" "doe < year_start (year_of doe + 1)"
    by simp_all
qed

lemma civil_of_days_fields:
  fixes days :: int
  defines "z \<equiv> days + 719468"
  defines "yoe \<equiv> year_of (z mod 146097)"
  defines "doy \<equiv> z mod 146097 - (365 * yoe + yoe div 4 - yoe div 100)"
  defines "mp \<equiv> (5 * doy + 2) div 153"
  shows "civil_of_days days = (yoe + z div 146097 * 400 + (if 10 \<le> mp then 1 else 0),
      (if mp < 10 then mp + 3 else mp - 9), doy - (153 * mp + 2) div 5 + 1)"
    and "0 \<le> yoe" "yoe < 400" "0 \<le> doy" "doy \<le> 365" "doy = 365 \<longrightarrow> is_leap (yoe + 1)" "0 \<le> mp" "mp < 12"
proof -
  have d: "0 \<le> z mod 146097" "z mod 146097 < 146097" by simp_all
  note y = year_of_doe [OF d, folded yoe_def]
  have len: "year_start (yoe + 1) - year_start yoe = (if is_leap (yoe + 1) then 366 else 365)"
    using year_start_step(3) [OF y(1,2)] .
  have doy: "doy = z mod 146097 - year_start yoe" using y(2) by (simp add: doy_def year_start_def)
  show 1: "0 \<le> yoe" "yoe < 400" "0 \<le> doy" using y doy by simp_all
  show 2: "doy \<le> 365" "doy = 365 \<longrightarrow> is_leap (yoe + 1)" using y(4) doy len by (auto split: if_splits)
  show m: "0 \<le> mp" "mp < 12" using 1 2 unfolding mp_def by simp_all
  have "civil_of_days days = (yoe + z div 146097 * 400 + (if (if mp < 10 then mp + 3 else mp - 9) \<le> 2 then 1 else 0),
      (if mp < 10 then mp + 3 else mp - 9), doy - (153 * mp + 2) div 5 + 1)"
    by (simp only: civil_of_days_def Let_def z_def yoe_def doy_def mp_def year_of_def)
  moreover have "(if mp < 10 then mp + 3 else mp - 9) \<le> 2 \<longleftrightarrow> 10 \<le> mp" using m by (cases "mp < 10") simp_all
  ultimately show "civil_of_days days = (yoe + z div 146097 * 400 + (if 10 \<le> mp then 1 else 0),
      (if mp < 10 then mp + 3 else mp - 9), doy - (153 * mp + 2) div 5 + 1)"
    by simp
qed

lemma civil_cases:
  obtains era yoe doy mp where
    "civil_of_days days = (yoe + era * 400 + (if 10 \<le> mp then 1 else 0),
      (if mp < 10 then mp + 3 else mp - 9), doy - (153 * mp + 2) div 5 + 1)"
    "days = era * 146097 + (yoe * 365 + yoe div 4 - yoe div 100 + doy) - 719468" "mp = (5 * doy + 2) div 153"
    "0 \<le> yoe" "yoe < 400" "0 \<le> doy" "doy \<le> 365" "doy = 365 \<longrightarrow> is_leap (yoe + 1)" "0 \<le> mp" "mp < 12"
proof -
  let ?z = "days + 719468"
  have "?z = ?z div 146097 * 146097 + ?z mod 146097" by simp
  then have "days = ?z div 146097 * 146097 + (year_of (?z mod 146097) * 365 + year_of (?z mod 146097) div 4 -
      year_of (?z mod 146097) div 100 + (?z mod 146097 - (365 * year_of (?z mod 146097) + year_of (?z mod 146097) div 4 -
      year_of (?z mod 146097) div 100))) - 719468" by linarith
  from that [OF civil_of_days_fields(1) this refl civil_of_days_fields(2-8)] show thesis .
qed

lemma days_of_civil_of_days: "days_of_civil (civil_of_days days) = days"
proof (rule civil_cases [of days])
  fix era yoe doy mp :: int
  assume c: "civil_of_days days = (yoe + era * 400 + (if 10 \<le> mp then 1 else 0),
      (if mp < 10 then mp + 3 else mp - 9), doy - (153 * mp + 2) div 5 + 1)"
    and d: "days = era * 146097 + (yoe * 365 + yoe div 4 - yoe div 100 + doy) - 719468"
    and b: "0 \<le> yoe" "yoe < 400" "0 \<le> mp" "mp < 12"
  have "(yoe + era * 400) mod 400 = yoe" "(yoe + era * 400) div 400 = era" using b(1,2) by simp_all
  then have "days_of_civil (civil_of_days days) = era * 146097 + (yoe * 365 + yoe div 4 - yoe div 100 + doy) - 719468"
    unfolding c using b by (cases "mp < 10") (simp_all add: days_of_civil_def Let_def)
  then show ?thesis using d by simp
qed

text \<open>The fields are in the ranges that the parser checks.\<close>

lemma is_leap_era: "is_leap (y + e * 400) = is_leap y"
proof -
  have "(y + e * 400) mod 4 = y mod 4" "(y + e * 400) mod 100 = y mod 100" "(y + e * 400) mod 400 = y mod 400"
    by (simp_all add: mod_add_eq [symmetric, of y] mult.assoc [symmetric] flip: mod_mult_right_eq)
  then show ?thesis by (simp add: is_leap_def)
qed

lemma civil_ranges:
  assumes "civil_of_days days = (y, m, d)"
  shows "1 \<le> m \<and> m \<le> 12 \<and> 1 \<le> d \<and> d \<le> daysIn m y"
proof (rule civil_cases [of days])
  fix era yoe doy mp :: int
  assume c: "civil_of_days days = (yoe + era * 400 + (if 10 \<le> mp then 1 else 0),
      (if mp < 10 then mp + 3 else mp - 9), doy - (153 * mp + 2) div 5 + 1)"
    and mp: "mp = (5 * doy + 2) div 153" and b: "0 \<le> doy" "doy \<le> 365" "doy = 365 \<longrightarrow> is_leap (yoe + 1)" "0 \<le> mp" "mp < 12"
  have lo: "153 * mp \<le> 5 * doy + 2" "5 * doy + 2 < 153 * mp + 153" using mp by simp_all
  have e: "y = yoe + era * 400 + (if 10 \<le> mp then 1 else 0)" "m = (if mp < 10 then mp + 3 else mp - 9)"
    "d = doy - (153 * mp + 2) div 5 + 1" using c assms by simp_all
  have leap: "10 \<le> mp \<Longrightarrow> is_leap y = is_leap (yoe + 1)" using is_leap_era [of "yoe + 1" era] e(1) by (simp add: algebra_simps)
  have "mp \<in> {0, 1, 2, 3, 4, 5, 6, 7, 8, 9, 10, 11}" unfolding insert_iff empty_iff using b(4,5) by presburger
  then show ?thesis using lo b(1-3) e(2,3) leap by (elim insertE) (auto simp: daysIn_def)
qed

section \<open>Texts of numbers\<close>

lemma digits_value_append: "digits_value (s @ t) = digits_value s * 10 ^ length t + digits_value t"
proof (induction t rule: rev_induct)
  case (snoc c t)
  then show ?case by (simp add: digits_value_def algebra_simps)
qed (simp add: digits_value_def)

lemma digit_char: "n < 10 \<Longrightarrow> isDigit (char_of (48 + n)) \<and> dval (char_of (48 + n)) = n"
  by (simp add: isDigit_def dval_def of_char_of)

lemma fmt_d_isDigit: "list_all isDigit (fmt_d n) \<and> digits_value (fmt_d n) = n \<and> (\<forall>w. 0 < w \<longrightarrow> n < 10 ^ w \<longrightarrow> length (fmt_d n) \<le> w)"
proof (induction n rule: fmt_d.induct)
  case (1 n)
  show ?case
  proof (cases "n < 10")
    case True
    then have "fmt_d n = [char_of (48 + n)]" by (simp add: fmt_d.simps)
    with True digit_char [of n] show ?thesis by (auto simp: digits_value_def)
  next
    case False
    then have f: "fmt_d n = fmt_d (n div 10) @ [char_of (48 + n mod 10)]" by (simp add: fmt_d.simps)
    note IH = "1.IH" [OF False]
    have "length (fmt_d (n div 10)) + 1 \<le> w" if w: "0 < w" "n < 10 ^ w" for w
    proof -
      obtain v where v: "w = Suc v" using w(1) by (cases w) auto
      then have "n div 10 < 10 ^ v" "0 < v" using w(2) False by (auto simp: less_mult_imp_div_less mult.commute intro: gr0I)
      with IH v show ?thesis by simp
    qed
    then show ?thesis using IH digit_char [of "n mod 10"] by (simp add: f digits_value_append) (simp add: digits_value_def)
  qed
qed

lemma digits_value_zeros: "digits_value (replicate k (CHR ''0'')) = 0"
  by (induction k) (simp_all add: digits_value_def dval_def flip: replicate_append_same)

lemma append_int_digits:
  assumes "0 \<le> n" "n < 10 ^ w" "0 < w"
  shows "length (append_int w n) = w" "list_all isDigit (append_int w n)" "digits_value (append_int w n) = nat n"
proof -
  have "nat n < 10 ^ w" using assms(1,2) by (simp add: nat_less_iff)
  then have l: "length (fmt_d (nat n)) \<le> w" using fmt_d_isDigit [of "nat n"] assms(3) by blast
  have a: "append_int w n = replicate (w - length (fmt_d (nat n))) (CHR ''0'') @ fmt_d (nat n)"
    using assms(1) by (simp add: append_int_def Let_def)
  show "length (append_int w n) = w" using l by (simp add: a)
  show "list_all isDigit (append_int w n)" using fmt_d_isDigit [of "nat n"] by (auto simp: a list_all_iff isDigit_def)
  show "digits_value (append_int w n) = nat n" using fmt_d_isDigit [of "nat n"] by (simp add: a digits_value_append digits_value_zeros)
qed

lemma getnum_append_int:
  assumes "0 \<le> n" "n < 100"
  shows "getnum fixed (append_int 2 n @ s) = Some (nat n, s)"
proof -
  have p: "length (append_int 2 n) = 2" "list_all isDigit (append_int 2 n)" "digits_value (append_int 2 n) = nat n"
    using append_int_digits [of n 2] assms by simp_all
  then obtain c d where cd: "append_int 2 n = [c, d]" by (metis length_Suc_conv length_0_conv numeral_2_eq_2)
  with p show ?thesis by (simp add: getnum_def digits_value_def)
qed

lemma year4_append_int:
  assumes "0 \<le> y" "y < 10000"
  shows "year4 (append_int 4 y @ s) = Some (nat y, s)"
  using append_int_digits [of y 4] assms by (simp add: year4_def)

lemma trim_zeros_split: "\<exists>k. s = trim_zeros s @ replicate k (CHR ''0'')"
proof -
  let ?p = "\<lambda>c. c = CHR ''0''"
  have "takeWhile ?p (rev s) = replicate (length (takeWhile ?p (rev s))) (CHR ''0'')"
    by (rule replicate_eqI) (auto dest: set_takeWhileD)
  moreover have "s = rev (dropWhile ?p (rev s)) @ rev (takeWhile ?p (rev s))"
    by (metis rev_append rev_rev_ident takeWhile_dropWhile_id)
  ultimately show ?thesis unfolding trim_zeros_def by (metis rev_replicate)
qed

lemma nanoseconds_fraction:
  assumes "0 \<le> ns" "ns < 1000000000"
  shows "nanoseconds (fraction ns @ ''Z'' @ t) = (ns, ''Z'' @ t)"
proof (cases "ns = 0")
  case True
  then show ?thesis by (simp add: fraction_def nanoseconds_def)
next
  case False
  let ?s = "append_int 9 ns" and ?r = "trim_zeros (append_int 9 ns)"
  have p: "length ?s = 9" "list_all isDigit ?s" "digits_value ?s = nat ns"
    using append_int_digits [of ns 9] assms by simp_all
  obtain k where k: "?s = ?r @ replicate k (CHR ''0'')" using trim_zeros_split by blast
  have r: "length ?r + k = 9" "list_all isDigit ?r" "digits_value ?r * 10 ^ k = nat ns"
    using p by (metis k length_append length_replicate, metis k list_all_append,
      metis k digits_value_append digits_value_zeros length_replicate add_0_right)
  have "?r \<noteq> []" using r(3) False assms by (auto simp: digits_value_def)
  moreover have "takeWhile isDigit (?r @ ''Z'' @ t) = ?r" "dropWhile isDigit (?r @ ''Z'' @ t) = ''Z'' @ t"
    using r(2) by (simp_all add: list_all_iff takeWhile_append2 dropWhile_append2 isDigit_def)
  moreover have "9 - length ?r = k" "length ?r \<le> 9" using r(1) by simp_all
  moreover have "int (digits_value ?r * 10 ^ k) = ns" using r(3) assms(1) by simp
  ultimately show ?thesis using False by (simp add: fraction_def nanoseconds_def Let_def)
qed

text \<open>What is written for a year of four digits is read back as the instant it was written for.\<close>

definition year_of_time :: "time \<Rightarrow> int" where
  "year_of_time t = fst (civil_of_days (t div 1000000000 div 86400))"

lemma parse_fields:
  assumes "0 \<le> y" "y < 10000" "1 \<le> m" "m \<le> 12" "1 \<le> d" "d \<le> daysIn m y" "0 \<le> h" "h < 24" "0 \<le> mi" "mi < 60"
    "0 \<le> sec" "sec < 60" "0 \<le> ns" "ns < 1000000000"
  shows "parseTime (append_int 4 y @ ''-'' @ append_int 2 m @ ''-'' @ append_int 2 d @ ''T'' @ append_int 2 h @ '':''
      @ append_int 2 mi @ '':'' @ append_int 2 sec @ fraction ns @ ''Z'') =
    Inr ((days_of_civil (y, m, d) * 86400 + h * 3600 + mi * 60 + sec) * 1000000000 + ns)"
proof -
  have "daysIn m y < 100" by (simp add: daysIn_def)
  with assms have d: "0 \<le> d" "d < 100" by simp_all
  have n: "nanoseconds (fraction ns @ ''Z'') = (ns, ''Z'')" using nanoseconds_fraction [of ns "[]"] assms by simp
  have "\<not> (nat m < 1 \<or> 12 < nat m \<or> 24 \<le> nat h \<or> 60 \<le> nat mi \<or> 60 \<le> nat sec \<or> nat d < 1 \<or>
      daysIn (int (nat m)) (int (nat y)) < int (nat d))"
    using assms d by auto
  then show ?thesis
    using assms(1-4,7-12) d n unfolding parseTime_def
    by (simp add: year4_append_int getnum_append_int skip_def zone_def)
qed

lemma parse_format:
  assumes "0 \<le> year_of_time t" "year_of_time t < 10000"
  shows "parseTime (formatTime t) = Inr t"
proof -
  define secs s ns where "secs = t div 1000000000" and "s = secs mod 86400" and "ns = t mod 1000000000"
  obtain y m d where c: "civil_of_days (secs div 86400) = (y, m, d)" by (metis prod_cases3)
  have r: "1 \<le> m" "m \<le> 12" "1 \<le> d" "d \<le> daysIn m y" using civil_ranges [OF c] by simp_all
  have y: "0 \<le> y" "y < 10000" using assms c by (simp_all add: year_of_time_def secs_def)
  have "0 \<le> s" "s < 86400" "0 \<le> ns" "ns < 1000000000" by (simp_all add: s_def ns_def)
  then have h: "0 \<le> s div 3600" "s div 3600 < 24" "0 \<le> s mod 3600 div 60" "s mod 3600 div 60 < 60"
    "0 \<le> s mod 60" "s mod 60 < 60" "0 \<le> ns" "ns < 1000000000"
    by auto
  have "s div 3600 * 3600 + s mod 3600 div 60 * 60 + s mod 60 = s"
  proof -
    have "s mod 3600 div 60 * 60 + s mod 60 = s mod 3600" using div_mult_mod_eq [of "s mod 3600" 60] by (simp add: mod_mod_cancel)
    then show ?thesis using div_mult_mod_eq [of s 3600] by linarith
  qed
  moreover have "days_of_civil (y, m, d) * 86400 + s = secs"
    using days_of_civil_of_days [of "secs div 86400"] c by (simp add: s_def)
  ultimately have "days_of_civil (y, m, d) * 86400 + s div 3600 * 3600 + s mod 3600 div 60 * 60 + s mod 60 = secs" by linarith
  moreover have "secs * 1000000000 + ns = t" by (simp add: secs_def ns_def)
  moreover have "formatTime t = append_int 4 y @ ''-'' @ append_int 2 m @ ''-'' @ append_int 2 d @ ''T'' @ append_int 2 (s div 3600)
      @ '':'' @ append_int 2 (s mod 3600 div 60) @ '':'' @ append_int 2 (s mod 60) @ fraction ns @ ''Z''"
    using c by (simp add: formatTime_def secs_def s_def ns_def Let_def)
  ultimately show ?thesis using parse_fields [OF y r h] by simp
qed

end
