(* ===== verification/Config.thy ===== *)
theory Config
  imports Complex_Main "HOL-Library.Log_Nat" Time_Parse
begin

text \<open>
  \<^verbatim>\<open>internal/config/config.go\<close>: the settings of both processes from the environment, with
  \<^verbatim>\<open>time.ParseDuration\<close> and \<^verbatim>\<open>strconv.Atoi\<close> of the standard library. \<open>getenv\<close> is \<^verbatim>\<open>os.Getenv\<close>, which gives
  the empty text for a variable that is not set. A duration is a number of nanoseconds. The texts of
  the two library functions' errors are dropped, as the code drops them.
\<close>

section \<open>64-bit integers\<close>

definition wrap64 :: "int \<Rightarrow> int" where
  "wrap64 x = (x + 2 ^ 63) mod 2 ^ 64 - 2 ^ 63"

lemma wrap64_id: "- (2 ^ 63) \<le> x \<Longrightarrow> x < 2 ^ 63 \<Longrightarrow> wrap64 x = x"
  by (simp add: wrap64_def)

lemma wrap64_range: "- (2 ^ 63) \<le> wrap64 x" "wrap64 x < 2 ^ 63"
  using pos_mod_bound [of "2 ^ 64" "x + 2 ^ 63"] pos_mod_sign [of "2 ^ 64" "x + 2 ^ 63"] by (simp_all add: wrap64_def)

section \<open>Rounding to float64\<close>

text \<open>
  The double-precision number nearest to a non-negative rational, a tie going to the even
  significand. \<open>binade\<close> is the exponent of the leading bit. The numbers rounded here lie between
  \<open>10 ^ - 19\<close> and \<open>2 ^ 64\<close>, far from the ends of the format's range.
\<close>

definition binade :: "rat \<Rightarrow> int" where
  "binade q = (case quotient_of q of (a, b) \<Rightarrow>
     let e = int (floorlog 2 (nat a)) - int (floorlog 2 (nat b))
     in if q < 2 powi e then e - 1 else e)"

definition round_even :: "rat \<Rightarrow> int" where
  "round_even x = (let n = \<lfloor>x\<rfloor>; r = x - of_int n in
     if r < 1 / 2 then n else if 1 / 2 < r then n + 1 else if even n then n else n + 1)"

definition float64 :: "rat \<Rightarrow> rat" where
  "float64 q = (if q = 0 then 0 else let e = binade q - 52 in of_int (round_even (q / 2 powi e)) * 2 powi e)"

section \<open>time.ParseDuration\<close>

fun leadingInt :: "nat \<Rightarrow> string \<Rightarrow> (nat \<times> string) option" where
  "leadingInt x [] = Some (x, [])"
| "leadingInt x (c # cs) =
     (if \<not> isDigit c then Some (x, c # cs)
      else if 2 ^ 63 div 10 < x then None
      else let x = (x * 10 + dval c) mod 2 ^ 64 in
        if 2 ^ 63 < x then None else leadingInt x cs)"

text \<open>The digits after the period, the power of ten they stand over, and the rest; digits that do not fit are skipped.\<close>

fun leadingFraction :: "nat \<Rightarrow> rat \<Rightarrow> bool \<Rightarrow> string \<Rightarrow> nat \<times> rat \<times> string" where
  "leadingFraction x scale overflow [] = (x, scale, [])"
| "leadingFraction x scale overflow (c # cs) =
     (if \<not> isDigit c then (x, scale, c # cs)
      else if overflow then leadingFraction x scale overflow cs
      else if (2 ^ 63 - 1) div 10 < x then leadingFraction x scale True cs
      else let y = (x * 10 + dval c) mod 2 ^ 64 in
        if 2 ^ 63 < y then leadingFraction x scale True cs
        else leadingFraction y (float64 (scale * 10)) overflow cs)"

definition unitMap :: "string \<rightharpoonup> nat" where
  "unitMap = map_of [(''ns'', 1), (''us'', 1000), ([CHR 0xC2, CHR 0xB5, CHR ''s''], 1000),
     ([CHR 0xCE, CHR 0xBC, CHR ''s''], 1000), (''ms'', 1000000), (''s'', 1000000000),
     (''m'', 60 * 1000000000), (''h'', 3600 * 1000000000)]"

definition fraction_ns :: "nat \<Rightarrow> rat \<Rightarrow> nat \<Rightarrow> nat" where
  "fraction_ns f scale unit = nat \<lfloor>float64 (float64 (of_nat f) * float64 (float64 (of_nat unit) / scale))\<rfloor>"

definition is_unit_char :: "char \<Rightarrow> bool" where
  "is_unit_char c \<longleftrightarrow> c \<noteq> CHR ''.'' \<and> \<not> isDigit c"

text \<open>One round of the loop: a number, its unit, and what follows.\<close>

definition duration_part :: "string \<Rightarrow> (nat \<times> string) option" where
  "duration_part s =
     (if s = [] \<or> \<not> (hd s = CHR ''.'' \<or> isDigit (hd s)) then None
      else case leadingInt 0 s of
        None \<Rightarrow> None
      | Some (v, s1) \<Rightarrow>
        (let pre = length s1 \<noteq> length s;
             (f, scale, s2) = (if s1 \<noteq> [] \<and> hd s1 = CHR ''.'' then leadingFraction 0 1 False (tl s1) else (0, 1, s1));
             post = (s1 \<noteq> [] \<and> hd s1 = CHR ''.'' \<and> length s2 \<noteq> length (tl s1));
             u = takeWhile is_unit_char s2; s3 = dropWhile is_unit_char s2
         in if \<not> pre \<and> \<not> post then None
            else if u = [] then None
            else case unitMap u of
              None \<Rightarrow> None
            | Some unit \<Rightarrow>
              if 2 ^ 63 div unit < v then None
              else let v = (v * unit) mod 2 ^ 64 in
                if 0 < f
                then let v = (v + fraction_ns f scale unit) mod 2 ^ 64 in if 2 ^ 63 < v then None else Some (v, s3)
                else Some (v, s3)))"

lemma leadingInt_rest: "leadingInt x s = Some (v, s') \<Longrightarrow> \<exists>p. s = p @ s'"
proof (induction s arbitrary: x)
  case (Cons c cs)
  then show ?case by (force simp: Let_def split: if_splits)
qed simp

lemma leadingFraction_rest: "leadingFraction x sc ov s = (v, sc', s') \<Longrightarrow> \<exists>p. s = p @ s'"
proof (induction s arbitrary: x sc ov)
  case (Cons c cs)
  then show ?case by (force simp: Let_def split: if_splits)
qed simp

lemma unit_shorter: "takeWhile P s \<noteq> [] \<Longrightarrow> length (dropWhile P s) < length s"
  by (cases s) (auto simp: length_dropWhile_le less_Suc_eq_le split: if_splits)

lemma duration_part_shorter:
  assumes "duration_part s = Some (v, s')"
  shows "length s' < length s"
proof -
  obtain x s1 where i: "leadingInt 0 s = Some (x, s1)"
    using assms by (auto simp: duration_part_def split: if_splits option.splits)
  obtain f scale s2 where f: "(if s1 \<noteq> [] \<and> hd s1 = CHR ''.'' then leadingFraction 0 1 False (tl s1) else (0, 1, s1)) = (f, scale, s2)"
    using prod_cases3 by metis
  have "length s2 \<le> length s1"
    using f leadingFraction_rest [of 0 1 False "tl s1"] by (cases s1) (auto split: if_splits)
  moreover have "length s1 \<le> length s" using leadingInt_rest [OF i] by auto
  moreover have "takeWhile is_unit_char s2 \<noteq> []" "s' = dropWhile is_unit_char s2"
    using assms unfolding duration_part_def i option.case prod.case f Let_def by (auto split: if_splits option.splits)
  ultimately show ?thesis using unit_shorter [of is_unit_char s2] by simp
qed

function duration_loop :: "nat \<Rightarrow> string \<Rightarrow> nat option" where
  "duration_loop d s =
     (if s = [] then Some d
      else case duration_part s of
        None \<Rightarrow> None
      | Some (v, s') \<Rightarrow>
        let d = (d + v) mod 2 ^ 64 in if 2 ^ 63 < d then None else duration_loop d s')"
  by auto
termination
  by (relation "measure (\<lambda>(d, s). length s)") (auto simp: duration_part_shorter)

definition ParseDuration :: "string \<Rightarrow> int option" where
  "ParseDuration s =
     (let signed = s \<noteq> [] \<and> hd s \<in> {CHR ''-'', CHR ''+''};
          neg = (s \<noteq> [] \<and> hd s = CHR ''-'');
          s = (if signed then tl s else s)
      in if s = ''0'' then Some 0
         else if s = [] then None
         else case duration_loop 0 s of
           None \<Rightarrow> None
         | Some d \<Rightarrow>
           if neg then Some (wrap64 (- wrap64 (int d)))
           else if 2 ^ 63 - 1 < d then None
           else Some (wrap64 (int d)))"

section \<open>strconv.Atoi\<close>

definition Atoi :: "string \<Rightarrow> int option" where
  "Atoi s =
     (let signed = s \<noteq> [] \<and> hd s \<in> {CHR ''-'', CHR ''+''};
          neg = (s \<noteq> [] \<and> hd s = CHR ''-'');
          ds = (if signed then tl s else s);
          n = int (digits_value ds)
      in if ds = [] \<or> \<not> list_all isDigit ds then None
         else if neg then (if 2 ^ 63 < n then None else Some (- n))
         else if 2 ^ 63 - 1 < n then None
         else Some n)"

section \<open>The settings\<close>

definition Second :: int where "Second = 1000000000"

definition envOr :: "(string \<Rightarrow> string) \<Rightarrow> string \<Rightarrow> string \<Rightarrow> string" where
  "envOr getenv key fallback = (if getenv key \<noteq> '''' then getenv key else fallback)"

definition durationOr :: "(string \<Rightarrow> string) \<Rightarrow> string \<Rightarrow> int \<Rightarrow> int" where
  "durationOr getenv key fallback =
     (if getenv key = '''' then fallback
      else case ParseDuration (getenv key) of
        Some d \<Rightarrow> d
      | None \<Rightarrow> (case Atoi (getenv key) of Some n \<Rightarrow> wrap64 (n * Second) | None \<Rightarrow> fallback))"

record Config =
  cf_Addr :: string
  cf_AgentKeys :: string
  cf_TemporalHostPort :: string
  cf_TemporalNamespace :: string
  cf_TaskQueue :: string
  cf_PolicyPath :: string
  cf_AuditDBPath :: string
  cf_OTelServiceName :: string
  cf_OTelExporter :: string
  cf_ShutdownTimeout :: int
  cf_PolicyReloadEvery :: int

definition baseFromEnv :: "(string \<Rightarrow> string) \<Rightarrow> Config" where
  "baseFromEnv getenv = \<lparr>cf_Addr = envOr getenv ''SENTRYGATE_ADDR'' '':8080'', cf_AgentKeys = '''',
     cf_TemporalHostPort = envOr getenv ''TEMPORAL_HOST_PORT'' ''localhost:7233'',
     cf_TemporalNamespace = envOr getenv ''TEMPORAL_NAMESPACE'' ''default'',
     cf_TaskQueue = envOr getenv ''TEMPORAL_TASK_QUEUE'' ''sentrygate-saga'',
     cf_PolicyPath = envOr getenv ''SENTRYGATE_POLICY_PATH'' ''policies/default.yaml'',
     cf_AuditDBPath = envOr getenv ''SENTRYGATE_AUDIT_DB'' ''data/audit.db'',
     cf_OTelServiceName = envOr getenv ''OTEL_SERVICE_NAME'' ''sentrygate'',
     cf_OTelExporter = envOr getenv ''OTEL_EXPORTER'' ''stdout'',
     cf_ShutdownTimeout = durationOr getenv ''SENTRYGATE_SHUTDOWN_TIMEOUT'' (10 * Second),
     cf_PolicyReloadEvery = durationOr getenv ''SENTRYGATE_POLICY_RELOAD'' (5 * Second)\<rparr>"

definition LoadFromEnv :: "(string \<Rightarrow> string) \<Rightarrow> go_error + Config" where
  "LoadFromEnv getenv =
     (let cfg = (baseFromEnv getenv)\<lparr>cf_AgentKeys := getenv ''SENTRYGATE_AGENT_KEYS''\<rparr> in
      if cf_AgentKeys cfg = ''''
      then Inl (errors_New ''SENTRYGATE_AGENT_KEYS is required (format: agent-id:key,agent-id:key)'')
      else Inr cfg)"

definition LoadWorkerFromEnv :: "(string \<Rightarrow> string) \<Rightarrow> Config" where
  "LoadWorkerFromEnv getenv = baseFromEnv getenv"

section \<open>Whole numbers with units\<close>

declare duration_loop.simps [simp del]

lemma foldl_digits: "x \<le> foldl (\<lambda>n c. n * 10 + dval c) x ds"
proof (induction ds arbitrary: x)
  case (Cons c ds)
  from Cons.IH [of "x * 10 + dval c"] show ?case by simp
qed simp

lemma leadingInt_digits:
  assumes "list_all isDigit ds" "foldl (\<lambda>n c. n * 10 + dval c) x ds \<le> 2 ^ 63" "s = [] \<or> \<not> isDigit (hd s)"
  shows "leadingInt x (ds @ s) = Some (foldl (\<lambda>n c. n * 10 + dval c) x ds, s)"
  using assms(1,2)
proof (induction ds arbitrary: x)
  case Nil
  then show ?case using assms(3) by (cases s) simp_all
next
  case (Cons c ds)
  have b: "x * 10 + dval c \<le> 2 ^ 63" using Cons.prems(2) foldl_digits [of "x * 10 + dval c" ds] by simp
  then have "\<not> 2 ^ 63 div 10 < x" "(x * 10 + dval c) mod 2 ^ 64 = x * 10 + dval c" by simp_all
  with Cons b show ?case by simp
qed

lemma units_known: "unitMap u = Some unit \<Longrightarrow> u \<noteq> [] \<and> list_all is_unit_char u \<and> 0 < unit"
  by (auto simp: unitMap_def is_unit_char_def isDigit_def of_char_def split: if_splits)

lemma fmt_d_nonempty: "fmt_d n \<noteq> []"
  by (subst fmt_d.simps) simp

lemma part_whole:
  assumes "unitMap u = Some unit" "n * unit \<le> 2 ^ 63" "s = [] \<or> isDigit (hd s)"
  shows "duration_part (fmt_d n @ u @ s) = Some (n * unit, s)"
proof -
  have u: "u \<noteq> []" "list_all is_unit_char u" "0 < unit" using units_known [OF assms(1)] by simp_all
  have d: "list_all isDigit (fmt_d n)" "digits_value (fmt_d n) = n" using fmt_d_isDigit by simp_all
  have "hd u \<noteq> CHR ''.''" "\<not> isDigit (hd u)" using u by (cases u; simp add: is_unit_char_def)+
  moreover have "n \<le> 2 ^ 63" using assms(2) u(3) by (metis mult_le_mono2 nat_mult_1_right order_trans Suc_leI One_nat_def)
  ultimately have i: "leadingInt 0 (fmt_d n @ u @ s) = Some (n, u @ s)"
    using leadingInt_digits [of "fmt_d n" 0 "u @ s"] d u(1) assms(2) by (simp add: digits_value_def)
  have h: "isDigit (hd (fmt_d n))" using d(1) fmt_d_nonempty by (cases "fmt_d n") simp_all
  have t: "takeWhile is_unit_char (u @ s) = u" "dropWhile is_unit_char (u @ s) = s"
    using u(2) assms(3) by (auto simp: list_all_iff takeWhile_eq_Nil_iff is_unit_char_def dropWhile_eq_self_iff)
  have "n \<le> 2 ^ 63 div unit" using assms(2) u(3) by (simp add: less_eq_div_iff_mult_less_eq)
  moreover have "(n * unit) mod 2 ^ 64 = n * unit" using assms(2) by simp
  ultimately show ?thesis
    using \<open>hd u \<noteq> CHR ''.''\<close> h i u(1) assms(1) fmt_d_nonempty [of n]
    by (simp add: duration_part_def t Let_def)
qed

text \<open>A text of whole numbers, each with its unit, and the duration it denotes.\<close>

definition duration_text :: "(nat \<times> string) list \<Rightarrow> string" where
  "duration_text xs = concat (map (\<lambda>(n, u). fmt_d n @ u) xs)"

definition duration_value :: "(nat \<times> string) list \<Rightarrow> nat" where
  "duration_value xs = sum_list (map (\<lambda>(n, u). n * the (unitMap u)) xs)"

lemma duration_text_hd: "xs \<noteq> [] \<Longrightarrow> duration_text xs \<noteq> [] \<and> isDigit (hd (duration_text xs))"
proof (cases xs)
  case (Cons x ys)
  have "list_all isDigit (fmt_d (fst x))" using fmt_d_isDigit by simp
  then show ?thesis
    using Cons fmt_d_nonempty [of "fst x"] by (cases "fmt_d (fst x)") (auto simp: duration_text_def split: prod.split)
qed simp

lemma loop_whole:
  assumes "\<forall>(n, u) \<in> set xs. u \<in> dom unitMap" "d + duration_value xs \<le> 2 ^ 63"
  shows "duration_loop d (duration_text xs) = Some (d + duration_value xs)"
  using assms
proof (induction xs arbitrary: d)
  case Nil
  then show ?case by (simp add: duration_text_def duration_value_def duration_loop.simps)
next
  case (Cons x xs)
  obtain n u where x: "x = (n, u)" by fastforce
  obtain unit where u: "unitMap u = Some unit" using Cons.prems(1) x by auto
  have v: "duration_value (x # xs) = n * unit + duration_value xs" by (simp add: duration_value_def x u)
  have t: "duration_text (x # xs) = fmt_d n @ u @ duration_text xs" by (simp add: duration_text_def x)
  have "duration_text xs = [] \<or> isDigit (hd (duration_text xs))"
    using duration_text_hd [of xs] by (cases xs) (simp_all add: duration_text_def)
  then have p: "duration_part (duration_text (x # xs)) = Some (n * unit, duration_text xs)"
    unfolding t using Cons.prems(2) v by (intro part_whole [OF u]) simp_all
  have "duration_text (x # xs) \<noteq> []" using duration_text_hd [of "x # xs"] by simp
  moreover have "(d + n * unit) mod 2 ^ 64 = d + n * unit" "\<not> 2 ^ 63 < d + n * unit" using Cons.prems(2) v by simp_all
  ultimately show ?case
    using Cons.IH [of "d + n * unit"] Cons.prems v p by (subst duration_loop.simps) (simp add: add.assoc)
qed

lemma digit_no_sign: "isDigit c \<Longrightarrow> c \<notin> {CHR ''-'', CHR ''+''}"
  by (auto simp: isDigit_def of_char_def)

lemma parse_whole:
  assumes "xs \<noteq> []" "\<forall>(n, u) \<in> set xs. u \<in> dom unitMap" "duration_value xs < 2 ^ 63"
  shows "ParseDuration (duration_text xs) = Some (int (duration_value xs))"
proof -
  have h: "duration_text xs \<noteq> []" "hd (duration_text xs) \<notin> {CHR ''-'', CHR ''+''}"
    using duration_text_hd [OF assms(1)] digit_no_sign by blast+
  have l: "duration_loop 0 (duration_text xs) = Some (duration_value xs)" using loop_whole [OF assms(2), of 0] assms(3) by simp
  have "duration_text xs \<noteq> ''0''"
  proof
    assume "duration_text xs = ''0''"
    moreover have "duration_loop 0 ''0'' = None"
      by (subst duration_loop.simps) (simp add: duration_part_def isDigit_def of_char_def dval_def Let_def)
    ultimately show False using l by simp
  qed
  then show ?thesis using h l assms(3) by (simp add: ParseDuration_def wrap64_id Let_def)
qed

lemma part_bare: "duration_part (fmt_d n) = None"
proof -
  have d: "list_all isDigit (fmt_d n)" using fmt_d_isDigit by simp
  have "leadingInt x ds = None \<or> (\<exists>v. leadingInt x ds = Some (v, []))" if "list_all isDigit ds" for x ds
    using that by (induction ds arbitrary: x) (simp_all add: Let_def)
  from this [OF d, of 0] show ?thesis by (auto simp: duration_part_def Let_def)
qed

lemma seconds_plain:
  assumes "0 < n" "n < 2 ^ 63"
  shows "ParseDuration (fmt_d n) = None" "Atoi (fmt_d n) = Some (int n)"
proof -
  have d: "list_all isDigit (fmt_d n)" "digits_value (fmt_d n) = n" using fmt_d_isDigit by simp_all
  have "isDigit (hd (fmt_d n))" using d(1) fmt_d_nonempty by (cases "fmt_d n") simp_all
  then have h: "hd (fmt_d n) \<notin> {CHR ''-'', CHR ''+''}" by (rule digit_no_sign)
  have "digits_value ''0'' = 0" by (simp add: digits_value_def dval_def)
  then have "fmt_d n \<noteq> ''0''" using d(2) assms(1) by auto
  moreover have "duration_loop 0 (fmt_d n) = None" by (subst duration_loop.simps) (simp add: part_bare fmt_d_nonempty)
  ultimately show "ParseDuration (fmt_d n) = None" using h by (simp add: ParseDuration_def Let_def)
  show "Atoi (fmt_d n) = Some (int n)" using d h assms(2) fmt_d_nonempty [of n] by (simp add: Atoi_def Let_def)
qed

section \<open>Properties\<close>

text \<open>
  C31. A setting written as whole numbers with units, in any order and number (\<^verbatim>\<open>1h30m\<close>, \<^verbatim>\<open>500ms\<close>), is read as
  the sum it denotes, to the nanosecond, whenever that sum fits into a \<^verbatim>\<open>time.Duration\<close>. A bare positive
  number is taken as that many seconds, computed in 64 bits: up to 9223372036 it is exactly that, and
  beyond it the product wraps around.
\<close>

theorem config_durations:
  "(\<forall>xs. getenv key = duration_text xs \<and> xs \<noteq> [] \<and> (\<forall>(n, u) \<in> set xs. u \<in> dom unitMap) \<and> duration_value xs < 2 ^ 63 \<longrightarrow>
      durationOr getenv key fallback = int (duration_value xs)) \<and>
   (\<forall>n. getenv key = fmt_d n \<and> 0 < n \<and> n < 2 ^ 63 \<longrightarrow>
      durationOr getenv key fallback = wrap64 (int n * Second) \<and>
      (durationOr getenv key fallback = int n * Second \<longleftrightarrow> n \<le> 9223372036))"
proof (intro conjI allI impI; elim conjE)
  fix xs :: "(nat \<times> string) list"
  assume a: "getenv key = duration_text xs" "xs \<noteq> []" "\<forall>(n, u) \<in> set xs. u \<in> dom unitMap" "duration_value xs < 2 ^ 63"
  then show "durationOr getenv key fallback = int (duration_value xs)"
    using parse_whole [OF a(2-4)] duration_text_hd [OF a(2)] by (simp add: durationOr_def)
next
  fix n
  assume a: "getenv key = fmt_d n" "0 < n" "n < 2 ^ 63"
  show v: "durationOr getenv key fallback = wrap64 (int n * Second)"
    using seconds_plain [OF a(2,3)] a(1) fmt_d_nonempty [of n] by (simp add: durationOr_def)
  show "durationOr getenv key fallback = int n * Second \<longleftrightarrow> n \<le> 9223372036"
  proof (cases "n \<le> 9223372036")
    case True
    then show ?thesis using v by (simp add: wrap64_id Second_def)
  next
    case False
    then have "wrap64 (int n * Second) \<noteq> int n * Second"
      using wrap64_range(2) [of "int n * Second"] by (auto simp: Second_def)
    with v False show ?thesis by simp
  qed
qed

theorem config_durations_witness:
  "durationOr (\<lambda>_. ''1h30m'') ''SENTRYGATE_POLICY_RELOAD'' (5 * Second) = 5400000000000 \<and>
   durationOr (\<lambda>_. ''10000000000'') ''SENTRYGATE_POLICY_RELOAD'' (5 * Second) = - 8446744073709551616"
proof
  have "duration_text [(1, ''h''), (30, ''m'')] = ''1h30m''" "duration_value [(1, ''h''), (30, ''m'')] = 5400000000000"
    by (simp_all add: duration_text_def duration_value_def unitMap_def fmt_d.simps)
  then show "durationOr (\<lambda>_. ''1h30m'') ''SENTRYGATE_POLICY_RELOAD'' (5 * Second) = 5400000000000"
    using config_durations [of "\<lambda>_. ''1h30m''", THEN conjunct1, THEN spec, of "[(1, ''h''), (30, ''m'')]"] by (simp add: unitMap_def)
  have "fmt_d 10000000000 = ''10000000000''" by (simp add: fmt_d.simps)
  then show "durationOr (\<lambda>_. ''10000000000'') ''SENTRYGATE_POLICY_RELOAD'' (5 * Second) = - 8446744073709551616"
    using config_durations [of "\<lambda>_. ''10000000000''", THEN conjunct2, THEN spec, of 10000000000] by (simp add: wrap64_def Second_def)
qed

end
