(* ===== verification/Contracts.thy ===== *)
theory Contracts
  imports Prelude
begin

text \<open>
  \<^verbatim>\<open>shared/contracts\<close>: the wire and record types, their string constants and the small total
  operations on them (\<^verbatim>\<open>DecisionRecord.Validate\<close> and \<^verbatim>\<open>Equal\<close>, \<^verbatim>\<open>ClaimOwner.Valid\<close>,
  \<^verbatim>\<open>DispatchOutcome.Checked\<close>).

  Go's string enumerations are open: any string may be converted to them. Each is a datatype
  with the source's constants and one further constructor, \<open>..._other s\<close>, for a string \<open>s\<close>
  that is none of them; the zero value is the empty string. The \<open>..._str\<close> functions give the
  text of a value.
\<close>

section \<open>Commands and targets\<close>

type_synonym CommandType = string

definition CmdModifyRouting :: CommandType where "CmdModifyRouting = ''MODIFY_ROUTING''"
definition CmdUpdateCert :: CommandType where "CmdUpdateCert = ''UPDATE_CERTIFICATE''"
definition CmdDeletePolicy :: CommandType where "CmdDeletePolicy = ''DELETE_POLICY''"

definition RootCoreEdgeID :: string where "RootCoreEdgeID = ''ROOT_CORE_EDGE''"
definition FailingNodeID :: string where "FailingNodeID = ''FAILING_NODE''"
definition LostResponseNodeID :: string where "LostResponseNodeID = ''LOST_RESPONSE_NODE''"
definition UnreachableNodeID :: string where "UnreachableNodeID = ''UNREACHABLE_NODE''"
definition PartitionedNodeID :: string where "PartitionedNodeID = ''PARTITIONED_NODE''"

section \<open>Proposals and decisions\<close>

record AgentProposal =
  p_ID :: string
  p_Type :: CommandType
  p_TargetID :: string
  p_Payload :: string

datatype Verdict = VerdictAllow | VerdictDeny | VerdictRequireApproval | Verdict_other string

fun Verdict_str :: "Verdict \<Rightarrow> string" where
  "Verdict_str VerdictAllow = ''ALLOW''"
| "Verdict_str VerdictDeny = ''DENY''"
| "Verdict_str VerdictRequireApproval = ''REQUIRE_APPROVAL''"
| "Verdict_str (Verdict_other s) = s"

datatype ReasonCode =
    ReasonAgentUnknown | ReasonCommandUnknown | ReasonCommandNotPermitted
  | ReasonTargetUnregistered | ReasonTargetProtected | ReasonEnvironmentDenied
  | ReasonApprovalRequired | ReasonEnvironmentAllowed | ReasonPolicyUnavailable
  | ReasonRequestHashMismatch
  | ReasonIngressDecisionNotFound | ReasonIngressDecisionWrongStage
  | ReasonIngressDecisionNotAllow | ReasonIngressAgentMismatch | ReasonIngressHashMismatch
  | ReasonIngressIdentityMismatch | ReasonIngressDecisionAlreadyClaimed
  | Reason_other string

fun ReasonCode_str :: "ReasonCode \<Rightarrow> string" where
  "ReasonCode_str ReasonAgentUnknown = ''AGENT_UNKNOWN''"
| "ReasonCode_str ReasonCommandUnknown = ''COMMAND_UNKNOWN''"
| "ReasonCode_str ReasonCommandNotPermitted = ''COMMAND_NOT_PERMITTED_FOR_AGENT''"
| "ReasonCode_str ReasonTargetUnregistered = ''TARGET_UNREGISTERED''"
| "ReasonCode_str ReasonTargetProtected = ''TARGET_PROTECTED''"
| "ReasonCode_str ReasonEnvironmentDenied = ''ENVIRONMENT_DENIED''"
| "ReasonCode_str ReasonApprovalRequired = ''APPROVAL_REQUIRED''"
| "ReasonCode_str ReasonEnvironmentAllowed = ''ENVIRONMENT_ALLOWED''"
| "ReasonCode_str ReasonPolicyUnavailable = ''POLICY_UNAVAILABLE''"
| "ReasonCode_str ReasonRequestHashMismatch = ''REQUEST_HASH_MISMATCH''"
| "ReasonCode_str ReasonIngressDecisionNotFound = ''INGRESS_DECISION_NOT_FOUND''"
| "ReasonCode_str ReasonIngressDecisionWrongStage = ''INGRESS_DECISION_WRONG_STAGE''"
| "ReasonCode_str ReasonIngressDecisionNotAllow = ''INGRESS_DECISION_NOT_ALLOW''"
| "ReasonCode_str ReasonIngressAgentMismatch = ''INGRESS_DECISION_AGENT_MISMATCH''"
| "ReasonCode_str ReasonIngressHashMismatch = ''INGRESS_DECISION_HASH_MISMATCH''"
| "ReasonCode_str ReasonIngressIdentityMismatch = ''INGRESS_DECISION_IDENTITY_MISMATCH''"
| "ReasonCode_str ReasonIngressDecisionAlreadyClaimed = ''INGRESS_DECISION_ALREADY_CLAIMED''"
| "ReasonCode_str (Reason_other s) = s"

datatype DecisionStage = StageIngress | StageWorkflowRevalidation | Stage_other string

fun DecisionStage_str :: "DecisionStage \<Rightarrow> string" where
  "DecisionStage_str StageIngress = ''INGRESS''"
| "DecisionStage_str StageWorkflowRevalidation = ''WORKFLOW_REVALIDATION''"
| "DecisionStage_str (Stage_other s) = s"

record Decision =
  d_Verdict :: Verdict
  d_Reasons :: "ReasonCode list"
  d_Environment :: string
  d_PolicyVersion :: string
  d_PolicyDigest :: string

definition zero_Decision :: Decision where
  "zero_Decision = \<lparr>d_Verdict = Verdict_other '''', d_Reasons = [], d_Environment = '''',
     d_PolicyVersion = '''', d_PolicyDigest = ''''\<rparr>"

record DecisionRecord =
  dr_DecisionID :: string
  dr_Stage :: DecisionStage
  dr_ProposalID :: string
  dr_AgentID :: string
  dr_RequestHash :: string
  dr_Command :: CommandType
  dr_TargetID :: string
  dr_Environment :: string
  dr_Verdict :: Verdict
  dr_Reasons :: "ReasonCode list"
  dr_PolicyVersion :: string
  dr_PolicyDigest :: string
  dr_WorkflowID :: string
  dr_TraceID :: string
  dr_RecordedAt :: time

definition invalid_decision_record :: go_error where
  "invalid_decision_record = sentinel_error ErrInvalidDecisionRecord ''decision record is missing required fields''"

definition decision_conflict :: go_error where
  "decision_conflict = sentinel_error ErrDecisionConflict ''decision record conflicts with an existing record''"

definition decision_not_found :: go_error where
  "decision_not_found = sentinel_error ErrDecisionNotFound ''decision record not found''"

text \<open>\<^verbatim>\<open>DecisionRecord.Validate\<close>: the fields every record must carry are present.\<close>

definition Validate :: "DecisionRecord \<Rightarrow> go_error option" where
  "Validate r =
     (if dr_DecisionID r = '''' \<or> DecisionStage_str (dr_Stage r) = '''' \<or> dr_ProposalID r = ''''
         \<or> Verdict_str (dr_Verdict r) = '''' \<or> dr_RequestHash r = '''' \<or> IsZero (dr_RecordedAt r)
      then Some invalid_decision_record else None)"

text \<open>\<^verbatim>\<open>DecisionRecord.Equal\<close>, field by field.\<close>

definition Equal :: "DecisionRecord \<Rightarrow> DecisionRecord \<Rightarrow> bool" where
  "Equal r u \<longleftrightarrow>
     dr_DecisionID r = dr_DecisionID u \<and> dr_Stage r = dr_Stage u \<and>
     dr_ProposalID r = dr_ProposalID u \<and> dr_AgentID r = dr_AgentID u \<and>
     dr_RequestHash r = dr_RequestHash u \<and> dr_Command r = dr_Command u \<and>
     dr_TargetID r = dr_TargetID u \<and> dr_Environment r = dr_Environment u \<and>
     dr_Verdict r = dr_Verdict u \<and> dr_Reasons r = dr_Reasons u \<and>
     dr_PolicyVersion r = dr_PolicyVersion u \<and> dr_PolicyDigest r = dr_PolicyDigest u \<and>
     dr_WorkflowID r = dr_WorkflowID u \<and> dr_TraceID r = dr_TraceID u \<and>
     dr_RecordedAt r = dr_RecordedAt u"

record ExecutionRequest =
  er_AgentID :: string
  er_Proposal :: AgentProposal
  er_IngressDecisionID :: string
  er_RequestHash :: string

record IngressVerification =
  iv_Valid :: bool
  iv_Reason :: ReasonCode
  iv_Detail :: string

definition RevalidationDeniedErrorType :: string where
  "RevalidationDeniedErrorType = ''REVALIDATION_DENIED''"

definition IngressDecisionInvalidErrorType :: string where
  "IngressDecisionInvalidErrorType = ''INGRESS_DECISION_INVALID''"

section \<open>Execution claims\<close>

datatype ClaimState =
    ClaimStateClaimed | ClaimStateExecuting | ClaimStateReconciliationRequired
  | ClaimStateCompleted | ClaimStateFailed | ClaimStateReleased | ClaimState_other string

fun ClaimState_str :: "ClaimState \<Rightarrow> string" where
  "ClaimState_str ClaimStateClaimed = ''CLAIMED''"
| "ClaimState_str ClaimStateExecuting = ''EXECUTING''"
| "ClaimState_str ClaimStateReconciliationRequired = ''RECONCILIATION_REQUIRED''"
| "ClaimState_str ClaimStateCompleted = ''COMPLETED''"
| "ClaimState_str ClaimStateFailed = ''FAILED''"
| "ClaimState_str ClaimStateReleased = ''RELEASED''"
| "ClaimState_str (ClaimState_other s) = s"

record ClaimOwner =
  o_WorkflowID :: string
  o_RunID :: string
  o_Token :: string

definition Valid :: "ClaimOwner \<Rightarrow> bool" where
  "Valid w \<longleftrightarrow> o_WorkflowID w \<noteq> '''' \<and> o_RunID w \<noteq> '''' \<and> o_Token w \<noteq> ''''"

record ExecutionClaim =
  ec_DecisionID :: string
  ec_Owner :: ClaimOwner
  ec_State :: ClaimState
  ec_ClaimedAt :: time
  ec_UpdatedAt :: time

definition claim_held :: go_error where
  "claim_held = sentinel_error ErrClaimHeld ''ingress decision is already claimed by another execution''"

definition claim_not_held :: go_error where
  "claim_not_held = sentinel_error ErrClaimNotHeld
     ''execution does not hold the claim in a state that permits this transition''"

definition claim_not_found :: go_error where
  "claim_not_found = sentinel_error ErrClaimNotFound ''execution claim not found''"

record ClaimRequest =
  cr_DecisionID :: string
  cr_Token :: string

record ClaimResult =
  cl_Claimed :: bool
  cl_Reason :: ReasonCode
  cl_Detail :: string

record ClaimTransition =
  ct_DecisionID :: string
  ct_Token :: string
  ct_To :: ClaimState

definition ExecutionClaimRejectedErrorType :: string where
  "ExecutionClaimRejectedErrorType = ''EXECUTION_CLAIM_REJECTED''"

definition ExecutionFenceRejectedErrorType :: string where
  "ExecutionFenceRejectedErrorType = ''EXECUTION_FENCE_REJECTED''"

definition ExecutionFenceUnknownErrorType :: string where
  "ExecutionFenceUnknownErrorType = ''EXECUTION_FENCE_UNKNOWN''"

section \<open>Audit records\<close>

datatype AuditPhase =
    AuditPhaseRevalidation | AuditPhaseExecutionFence | AuditPhaseDispatch
  | AuditPhaseReconciliation | AuditPhaseCompensation | AuditPhaseWorkflowComplete
  | AuditPhaseWorkflowFailed | AuditPhase_other string

fun AuditPhase_str :: "AuditPhase \<Rightarrow> string" where
  "AuditPhase_str AuditPhaseRevalidation = ''WORKFLOW_REVALIDATION''"
| "AuditPhase_str AuditPhaseExecutionFence = ''EXECUTION_FENCE''"
| "AuditPhase_str AuditPhaseDispatch = ''DISPATCH_CONFIG''"
| "AuditPhase_str AuditPhaseReconciliation = ''DISPATCH_RECONCILIATION''"
| "AuditPhase_str AuditPhaseCompensation = ''COMPENSATION_ROLLBACK''"
| "AuditPhase_str AuditPhaseWorkflowComplete = ''WORKFLOW_COMPLETE''"
| "AuditPhase_str AuditPhaseWorkflowFailed = ''WORKFLOW_FAILED''"
| "AuditPhase_str (AuditPhase_other s) = s"

datatype AuditVerdict =
  AuditVerdictPass | AuditVerdictFail | AuditVerdictUnknown | AuditVerdict_other string

record AuditRecord =
  ar_RecordID :: string
  ar_ProposalID :: string
  ar_WorkflowID :: string
  ar_RunID :: string
  ar_Phase :: AuditPhase
  ar_Verdict :: AuditVerdict
  ar_TargetID :: string
  ar_Command :: CommandType
  ar_Detail :: string
  ar_RecordedAt :: time

definition audit_persist_failed :: go_error where
  "audit_persist_failed = sentinel_error ErrAuditPersistFailed ''audit trail persistence failed''"

section \<open>Dispatch outcomes\<close>

datatype OutcomeStatus = OutcomeSuccess | OutcomeFailure | OutcomeUnknown | Outcome_other string

fun OutcomeStatus_str :: "OutcomeStatus \<Rightarrow> string" where
  "OutcomeStatus_str OutcomeSuccess = ''SUCCESS''"
| "OutcomeStatus_str OutcomeFailure = ''FAILURE''"
| "OutcomeStatus_str OutcomeUnknown = ''UNKNOWN''"
| "OutcomeStatus_str (Outcome_other s) = s"

record DispatchOutcome =
  oc_Status :: OutcomeStatus
  oc_PartiallyApplied :: bool
  oc_Detail :: string

definition UnknownOutcome :: "string \<Rightarrow> DispatchOutcome" where
  "UnknownOutcome detail = \<lparr>oc_Status = OutcomeUnknown, oc_PartiallyApplied = False, oc_Detail = detail\<rparr>"

text \<open>
  \<^verbatim>\<open>DispatchOutcome.Checked\<close>: an unrecognised or empty status becomes UNKNOWN, and
  \<^verbatim>\<open>PartiallyApplied\<close> survives only with FAILURE.
\<close>

definition Checked :: "DispatchOutcome \<Rightarrow> DispatchOutcome" where
  "Checked d = (case oc_Status d of
       OutcomeSuccess \<Rightarrow> d\<lparr>oc_PartiallyApplied := False\<rparr>
     | OutcomeUnknown \<Rightarrow> d\<lparr>oc_PartiallyApplied := False\<rparr>
     | OutcomeFailure \<Rightarrow> d
     | Outcome_other s \<Rightarrow>
         UnknownOutcome (''adapter reported unrecognised status '' @ s @ '': '' @ oc_Detail d))"

record DispatchRequest =
  dq_IdempotencyKey :: string
  dq_Proposal :: AgentProposal

record FencedDispatch =
  fd_DecisionID :: string
  fd_Token :: string
  fd_Dispatch :: DispatchRequest

definition DispatchFailedErrorType :: string where
  "DispatchFailedErrorType = ''DISPATCH_FAILED''"

definition DispatchOutcomeUnknownErrorType :: string where
  "DispatchOutcomeUnknownErrorType = ''DISPATCH_OUTCOME_UNKNOWN''"

section \<open>Facts on the contracts\<close>

lemmas error_type_defs = RevalidationDeniedErrorType_def IngressDecisionInvalidErrorType_def
  ExecutionClaimRejectedErrorType_def ExecutionFenceRejectedErrorType_def
  ExecutionFenceUnknownErrorType_def DispatchFailedErrorType_def DispatchOutcomeUnknownErrorType_def

lemma error_types_distinct:
  "distinct [RevalidationDeniedErrorType, IngressDecisionInvalidErrorType,
     ExecutionClaimRejectedErrorType, ExecutionFenceRejectedErrorType,
     ExecutionFenceUnknownErrorType, DispatchFailedErrorType, DispatchOutcomeUnknownErrorType]"
  by (simp add: error_type_defs)

lemma fence_types [simp]:
  "ExecutionFenceRejectedErrorType \<noteq> ExecutionFenceUnknownErrorType"
  "ExecutionFenceUnknownErrorType \<noteq> ExecutionFenceRejectedErrorType"
  "ExecutionFenceRejectedErrorType \<noteq> ''''" "ExecutionFenceUnknownErrorType \<noteq> ''''"
  "ExecutionClaimRejectedErrorType \<noteq> ExecutionFenceRejectedErrorType"
  "ExecutionClaimRejectedErrorType \<noteq> ExecutionFenceUnknownErrorType"
  by (simp_all add: error_type_defs)

lemma err_is_sentinels [simp]:
  "err_is claim_held = ErrClaimHeld" "err_is claim_not_held = ErrClaimNotHeld"
  "err_is claim_not_found = ErrClaimNotFound" "err_is decision_not_found = ErrDecisionNotFound"
  "err_is decision_conflict = ErrDecisionConflict"
  "err_is invalid_decision_record = ErrInvalidDecisionRecord"
  "err_is audit_persist_failed = ErrAuditPersistFailed"
  by (simp_all add: claim_held_def claim_not_held_def claim_not_found_def decision_not_found_def
      decision_conflict_def invalid_decision_record_def audit_persist_failed_def)

text \<open>On records, \<^verbatim>\<open>Equal\<close> is equality.\<close>

lemma Equal_iff [simp]: "Equal r u \<longleftrightarrow> r = u"
proof
  show "Equal r u \<Longrightarrow> r = u" by (cases r; cases u) (simp add: Equal_def)
qed (simp add: Equal_def)

lemma Validate_cases:
  obtains "Validate r = None" | "Validate r = Some invalid_decision_record"
  by (cases "Validate r") (auto simp: Validate_def split: if_splits)

lemma Validate_None_iff:
  "Validate r = None \<longleftrightarrow> dr_DecisionID r \<noteq> '''' \<and> DecisionStage_str (dr_Stage r) \<noteq> '''' \<and>
     dr_ProposalID r \<noteq> '''' \<and> Verdict_str (dr_Verdict r) \<noteq> '''' \<and> dr_RequestHash r \<noteq> '''' \<and>
     \<not> IsZero (dr_RecordedAt r)"
  by (auto simp: Validate_def)

lemma Checked_status:
  "oc_Status (Checked d) = OutcomeSuccess \<longleftrightarrow> oc_Status d = OutcomeSuccess"
  "oc_Status (Checked d) = OutcomeFailure \<longleftrightarrow> oc_Status d = OutcomeFailure"
  "oc_Status (Checked d) \<noteq> Outcome_other s"
  by (auto simp: Checked_def UnknownOutcome_def split: OutcomeStatus.splits)

lemma Checked_cases:
  obtains (success) "oc_Status (Checked d) = OutcomeSuccess"
  | (failure) "oc_Status (Checked d) = OutcomeFailure"
  | (unknown) "oc_Status (Checked d) = OutcomeUnknown"
  using Checked_status(3) by (cases "oc_Status (Checked d)") auto

lemma Checked_partial: "oc_PartiallyApplied (Checked d) \<Longrightarrow> oc_Status (Checked d) = OutcomeFailure"
  by (auto simp: Checked_def UnknownOutcome_def split: OutcomeStatus.splits)

lemma UnknownOutcome_simps [simp]:
  "oc_Status (UnknownOutcome d) = OutcomeUnknown" "\<not> oc_PartiallyApplied (UnknownOutcome d)"
  "Checked (UnknownOutcome d) = UnknownOutcome d"
  by (simp_all add: UnknownOutcome_def Checked_def)

lemma Checked_idem [simp]: "Checked (Checked d) = Checked d"
  by (auto simp: Checked_def UnknownOutcome_def split: OutcomeStatus.splits)

section \<open>Samples\<close>

definition sample_record :: DecisionRecord where
  "sample_record = \<lparr>dr_DecisionID = ''d'', dr_Stage = StageIngress, dr_ProposalID = ''p'', dr_AgentID = ''a'',
     dr_RequestHash = ''h'', dr_Command = ''C'', dr_TargetID = ''t'', dr_Environment = ''dev'', dr_Verdict = VerdictAllow,
     dr_Reasons = [ReasonEnvironmentAllowed], dr_PolicyVersion = ''v1'', dr_PolicyDigest = ''x'',
     dr_WorkflowID = ''saga-p'', dr_TraceID = '''', dr_RecordedAt = 0\<rparr>"

definition sample_owner :: "string \<Rightarrow> ClaimOwner" where
  "sample_owner t = \<lparr>o_WorkflowID = ''saga-p'', o_RunID = ''r'', o_Token = t\<rparr>"

lemma sample_record_valid [simp]: "Validate sample_record = None"
  by (simp add: Validate_None_iff sample_record_def IsZero_def zero_time_def)

lemma sample_record_id [simp]: "dr_DecisionID sample_record = ''d''"
  by (simp add: sample_record_def)

lemma sample_owner_valid [simp]: "Valid (sample_owner t) \<longleftrightarrow> t \<noteq> ''''"
  by (simp add: sample_owner_def Valid_def)

lemma sample_owner_inj [simp]: "sample_owner t = sample_owner u \<longleftrightarrow> t = u"
  by (simp add: sample_owner_def)

end
