(* ===== verification/Sha256.thy ===== *)
theory Sha256
  imports Prelude "HOL-Library.Word"
begin

text \<open>
  The parts of Go's standard library the request hash, the policy digest and the keyring use:
  \<^verbatim>\<open>crypto/sha256\<close> on byte strings (32-bit words with wrap-around addition),
  \<^verbatim>\<open>encoding/binary\<close>'s big-endian \<^verbatim>\<open>PutUint64\<close> and \<^verbatim>\<open>encoding/hex\<close>. The hash is the
  real function: \<open>Sha256_Test\<close> evaluates a published test vector.
\<close>

unbundle bit_operations_syntax

type_synonym u32 = "32 word"

section \<open>Big-endian and hexadecimal encodings\<close>

text \<open>\<^verbatim>\<open>binary.BigEndian.PutUint64\<close>; \<^term>\<open>char_of\<close> keeps the low eight bits.\<close>

definition be64 :: "int \<Rightarrow> string" where
  "be64 n = map (\<lambda>k. char_of (n div 2 ^ (8 * k))) [7, 6, 5, 4, 3, 2, 1, 0]"

definition be32 :: "u32 \<Rightarrow> string" where
  "be32 w = map (\<lambda>k. char_of (uint (drop_bit k w))) [24, 16, 8, 0]"

text \<open>\<^verbatim>\<open>hex.EncodeToString\<close>.\<close>

fun EncodeToString :: "string \<Rightarrow> string" where
  "EncodeToString [] = []"
| "EncodeToString (c # cs) =
     hex_digit (of_char c div 16) # hex_digit (of_char c mod 16) # EncodeToString cs"

section \<open>SHA-256\<close>

definition sha_K :: "u32 list" where
  "sha_K = [
     1116352408, 1899447441, 3049323471, 3921009573, 961987163, 1508970993, 2453635748,
     2870763221, 3624381080, 310598401, 607225278, 1426881987, 1925078388, 2162078206,
     2614888103, 3248222580, 3835390401, 4022224774, 264347078, 604807628, 770255983,
     1249150122, 1555081692, 1996064986, 2554220882, 2821834349, 2952996808, 3210313671,
     3336571891, 3584528711, 113926993, 338241895, 666307205, 773529912, 1294757372,
     1396182291, 1695183700, 1986661051, 2177026350, 2456956037, 2730485921, 2820302411,
     3259730800, 3345764771, 3516065817, 3600352804, 4094571909, 275423344, 430227734,
     506948616, 659060556, 883997877, 958139571, 1322822218, 1537002063, 1747873779,
     1955562222, 2024104815, 2227730452, 2361852424, 2428436474, 2756734187, 3204031479,
     3329325298]"

definition sha_H0 :: "u32 list" where
  "sha_H0 = [1779033703, 3144134277, 1013904242, 2773480762,
     1359893119, 2600822924, 528734635, 1541459225]"

fun word32s :: "string \<Rightarrow> u32 list" where
  "word32s (a # b # c # d # r) =
     word_of_int (((of_char a * 256 + of_char b) * 256 + of_char c) * 256 + of_char d) # word32s r"
| "word32s _ = []"

text \<open>One 0x80 byte, zeros up to 56 modulo 64, then the bit length as a big-endian 64-bit value.\<close>

definition sha_pad :: "string \<Rightarrow> string" where
  "sha_pad m = m @ char_of (128 :: int) #
     replicate ((119 - length m mod 64) mod 64) (char_of (0 :: int)) @ be64 (8 * int (length m))"

definition small_sigma0 :: "u32 \<Rightarrow> u32" where
  "small_sigma0 x = word_rotr 7 x XOR word_rotr 18 x XOR drop_bit 3 x"

definition small_sigma1 :: "u32 \<Rightarrow> u32" where
  "small_sigma1 x = word_rotr 17 x XOR word_rotr 19 x XOR drop_bit 10 x"

definition big_sigma0 :: "u32 \<Rightarrow> u32" where
  "big_sigma0 x = word_rotr 2 x XOR word_rotr 13 x XOR word_rotr 22 x"

definition big_sigma1 :: "u32 \<Rightarrow> u32" where
  "big_sigma1 x = word_rotr 6 x XOR word_rotr 11 x XOR word_rotr 25 x"

text \<open>
  The rounds of one block. The second argument is the window of sixteen schedule words that
  starts at the current round's word; each round consumes one and appends the next.
\<close>

fun sha_rounds :: "u32 list \<Rightarrow> u32 list \<Rightarrow> u32 list \<Rightarrow> u32 list" where
  "sha_rounds (k # ks) (w # ws) [a, b, c, d, e, f, g, h] =
     (let t1 = h + big_sigma1 e + ((e AND f) XOR (NOT e AND g)) + k + w;
          t2 = big_sigma0 a + ((a AND b) XOR (a AND c) XOR (b AND c));
          next = small_sigma1 (ws ! 13) + ws ! 8 + small_sigma0 (ws ! 0) + w
      in sha_rounds ks (ws @ [next]) [t1 + t2, a, b, c, d + t1, e, f, g])"
| "sha_rounds _ _ st = st"

fun sha_blocks :: "nat \<Rightarrow> u32 list \<Rightarrow> u32 list \<Rightarrow> u32 list" where
  "sha_blocks 0 ws h = h"
| "sha_blocks (Suc n) ws h =
     sha_blocks n (drop 16 ws) (map2 (+) h (sha_rounds sha_K (take 16 ws) h))"

definition Sum256 :: "string \<Rightarrow> string" where
  "Sum256 m = (let ws = word32s (sha_pad m)
     in concat (map be32 (sha_blocks (length ws div 16) ws sha_H0)))"

section \<open>Facts\<close>

lemma length_be64 [simp]: "length (be64 n) = 8"
  by (simp add: be64_def)

lemma length_be32 [simp]: "length (be32 w) = 4"
  by (simp add: be32_def)

lemma length_sha_rounds: "length st = 8 \<Longrightarrow> length (sha_rounds ks ws st) = 8"
  by (induction ks ws st rule: sha_rounds.induct) (auto simp: Let_def)

lemma length_sha_blocks: "length h = 8 \<Longrightarrow> length (sha_blocks n ws h) = 8"
  by (induction n ws h rule: sha_blocks.induct) (auto simp: length_sha_rounds)

lemma length_Sum256: "length (Sum256 m) = 32"
proof -
  have "length (concat (map be32 xs)) = 4 * length xs" for xs
    by (induction xs) auto
  then show ?thesis by (simp add: Sum256_def Let_def length_sha_blocks sha_H0_def)
qed

lemma length_EncodeToString: "length (EncodeToString s) = 2 * length s"
  by (induction s) auto

text \<open>Hexadecimal encoding loses nothing.\<close>

lemma hex_digit_inj: "m < 16 \<Longrightarrow> n < 16 \<Longrightarrow> hex_digit m = hex_digit n \<Longrightarrow> m = n"
proof -
  assume lt: "m < 16" "n < 16" and eq: "hex_digit m = hex_digit n"
  have "distinct ''0123456789abcdef''" by simp
  from nth_eq_iff_index_eq [OF this, of m n] lt eq show "m = n" by (simp add: hex_digit_def)
qed

lemma EncodeToString_inj: "EncodeToString s = EncodeToString t \<longleftrightarrow> s = t"
proof (induction s arbitrary: t)
  case Nil
  then show ?case by (cases t) auto
next
  case (Cons c cs)
  show ?case
  proof (cases t)
    case (Cons d ds)
    have "hex_digit (of_char c div 16) = hex_digit (of_char d div 16) \<Longrightarrow>
        hex_digit (of_char c mod 16) = hex_digit (of_char d mod 16) \<Longrightarrow> c = d"
    proof -
      assume hi: "hex_digit (of_char c div 16) = hex_digit (of_char d div 16)"
        and lo: "hex_digit (of_char c mod 16) = hex_digit (of_char d mod 16)"
      have b: "(of_char c :: nat) < 256" "(of_char d :: nat) < 256" by simp_all
      have "(of_char c :: nat) div 16 < 16" "(of_char d :: nat) div 16 < 16"
        using b by (simp_all only: less_mult_imp_div_less)
      then have "(of_char c :: nat) div 16 = of_char d div 16"
        using hi by (rule hex_digit_inj)
      moreover have "(of_char c :: nat) mod 16 = of_char d mod 16"
        by (rule hex_digit_inj [OF _ _ lo]) auto
      ultimately have "(of_char c :: nat) = of_char d" by (metis div_mult_mod_eq)
      then show "c = d" by simp
    qed
    with Cons.IH Cons show ?thesis by auto
  qed simp
qed

text \<open>The length prefix determines the length.\<close>

lemma char_of_eq_mod: "(char_of (a :: int) :: char) = char_of b \<longleftrightarrow> a mod 256 = b mod 256"
proof
  assume "(char_of a :: char) = char_of b"
  then have "(of_char (char_of a :: char) :: int) = of_char (char_of b :: char)" by simp
  then show "a mod 256 = b mod 256" by simp
next
  assume "a mod 256 = b mod 256"
  then show "(char_of a :: char) = char_of b" by (metis char_of_mod_256)
qed

lemma mod_pow_step:
  "(n :: int) mod 2 ^ (8 * Suc k) = 2 ^ (8 * k) * (n div 2 ^ (8 * k) mod 256) + n mod 2 ^ (8 * k)"
proof -
  have "(2 :: int) ^ (8 * Suc k) = 2 ^ (8 * k) * 256" by (simp add: power_add)
  then show ?thesis by (simp add: zmod_zmult2_eq)
qed

lemma be64_inj:
  assumes "be64 m = be64 n" "0 \<le> m" "m < 2 ^ 64" "0 \<le> n" "n < 2 ^ 64"
  shows "m = n"
proof -
  have byte: "m div 2 ^ (8 * k) mod 256 = n div 2 ^ (8 * k) mod 256" if "k < 8" for k
  proof -
    have "k \<in> set [7, 6, 5, 4, 3, 2, 1, 0]" using that by auto
    then show ?thesis using assms(1) unfolding be64_def map_eq_conv char_of_eq_mod by blast
  qed
  have "k \<le> 8 \<Longrightarrow> m mod 2 ^ (8 * k) = n mod 2 ^ (8 * k)" for k
  proof (induction k)
    case (Suc k)
    then show ?case using byte [of k] by (simp only: mod_pow_step)
  qed simp
  from this [of 8] assms(2-) show ?thesis by simp
qed

end
