(* ===== verification/Policy.thy ===== *)
theory Policy
  imports Contracts Sha256
begin

text \<open>
  \<^verbatim>\<open>internal/policy\<close>: the policy document and its strict validation (\<^verbatim>\<open>build\<close>, \<^verbatim>\<open>Parse\<close>), the
  immutable \<^verbatim>\<open>Snapshot\<close> with its queries, and the \<^verbatim>\<open>Loader\<close> that re-reads the policy file and
  keeps the last good policy.

  The YAML decoder is a third-party package: it is a parameter (\<open>yaml_decoder\<close>), giving what
  the first \<^verbatim>\<open>Decode\<close> returns and whether the second one reports \<^verbatim>\<open>io.EOF\<close>. A Go map decoded
  from YAML is the association list of its entries in the order the \<^verbatim>\<open>range\<close> loop visits them.
\<close>

section \<open>Patterns\<close>

definition in_range :: "nat \<Rightarrow> nat \<Rightarrow> char \<Rightarrow> bool" where
  "in_range lo hi c \<longleftrightarrow> lo \<le> of_char c \<and> of_char c \<le> hi"

definition is_upper :: "char \<Rightarrow> bool" where "is_upper = in_range 65 90"
definition is_lower :: "char \<Rightarrow> bool" where "is_lower = in_range 97 122"
definition is_digit :: "char \<Rightarrow> bool" where "is_digit = in_range 48 57"

definition is_alnum :: "char \<Rightarrow> bool" where
  "is_alnum c \<longleftrightarrow> is_upper c \<or> is_lower c \<or> is_digit c"

text \<open>\<open>^[class]{lo,hi}$\<close>: Go's \<^verbatim>\<open>$\<close> without the multi-line flag is the end of the text.\<close>

definition class_match :: "(char \<Rightarrow> bool) \<Rightarrow> nat \<Rightarrow> nat \<Rightarrow> string \<Rightarrow> bool" where
  "class_match cls lo hi s \<longleftrightarrow> lo \<le> length s \<and> length s \<le> hi \<and> list_all cls s"

text \<open>\<open>^[first][rest]{0,n}$\<close>.\<close>

definition head_match :: "(char \<Rightarrow> bool) \<Rightarrow> (char \<Rightarrow> bool) \<Rightarrow> nat \<Rightarrow> string \<Rightarrow> bool" where
  "head_match first rest n s \<longleftrightarrow>
     (case s of [] \<Rightarrow> False | c # cs \<Rightarrow> first c \<and> class_match rest 0 n cs)"

definition versionPattern :: "string \<Rightarrow> bool" where
  "versionPattern = class_match (\<lambda>c. is_alnum c \<or> c \<in> set ''._:-'') 1 64"

definition environmentPattern :: "string \<Rightarrow> bool" where
  "environmentPattern = head_match is_lower (\<lambda>c. is_lower c \<or> is_digit c \<or> c \<in> set ''_-'') 31"

definition commandPattern :: "string \<Rightarrow> bool" where
  "commandPattern = head_match is_upper (\<lambda>c. is_upper c \<or> is_digit c \<or> c = CHR ''_'') 63"

definition agentIDPattern :: "string \<Rightarrow> bool" where
  "agentIDPattern = class_match (\<lambda>c. is_alnum c \<or> c \<in> set ''._-'') 1 64"

definition targetIDPattern :: "string \<Rightarrow> bool" where
  "targetIDPattern = class_match (\<lambda>c. is_alnum c \<or> c \<in> set ''._:-'') 1 128"

section \<open>Documents and snapshots\<close>

datatype EnvironmentMode = ModeAllow | ModeRequireApproval | ModeDeny | Mode_other string

definition EnvironmentMode_of :: "string \<Rightarrow> EnvironmentMode" where
  "EnvironmentMode_of s = (if s = ''allow'' then ModeAllow
     else if s = ''require_approval'' then ModeRequireApproval
     else if s = ''deny'' then ModeDeny else Mode_other s)"

definition maxParallelTasksLimit :: int where
  "maxParallelTasksLimit = 10000"

record agentDocument =
  ad_ID :: string
  ad_Commands :: "string list"

record targetDocument =
  td_ID :: string
  td_Environment :: string
  td_Protected :: "bool option"

record document =
  doc_Version :: string
  doc_MaxParallelTasks :: int
  doc_Environments :: "(string \<times> string) list"
  doc_Commands :: "string list"
  doc_Agents :: "agentDocument list"
  doc_Targets :: "targetDocument list"

record Target =
  t_ID :: string
  t_Environment :: string
  t_Protected :: bool

record Snapshot =
  s_version :: string
  s_digest :: string
  s_maxParallelTasks :: int
  s_environments :: "string \<rightharpoonup> EnvironmentMode"
  s_commands :: "CommandType set"
  s_agents :: "string \<rightharpoonup> CommandType set"
  s_targets :: "string \<rightharpoonup> Target"

definition HasCommand :: "Snapshot \<Rightarrow> CommandType \<Rightarrow> bool" where
  "HasCommand s c \<longleftrightarrow> c \<in> s_commands s"

definition HasAgent :: "Snapshot \<Rightarrow> string \<Rightarrow> bool" where
  "HasAgent s a \<longleftrightarrow> s_agents s a \<noteq> None"

definition AgentMayUse :: "Snapshot \<Rightarrow> string \<Rightarrow> CommandType \<Rightarrow> bool" where
  "AgentMayUse s a c = (case s_agents s a of None \<Rightarrow> False | Some cmds \<Rightarrow> c \<in> cmds)"

section \<open>Validation\<close>

fun build_environments ::
  "(string \<times> string) list \<Rightarrow> (string \<rightharpoonup> EnvironmentMode) \<Rightarrow> go_error + (string \<rightharpoonup> EnvironmentMode)" where
  "build_environments [] acc = Inr acc"
| "build_environments ((name, mode) # es) acc =
     (if \<not> environmentPattern name
      then Inl (errors_New (''environment name '' @ fmt_q name @ '' is invalid''))
      else (case EnvironmentMode_of mode of
          Mode_other _ \<Rightarrow> Inl (errors_New (''environment '' @ fmt_q name @ '': mode '' @ fmt_q mode
            @ '' must be allow, require_approval or deny''))
        | m \<Rightarrow> build_environments es (acc(name \<mapsto> m))))"

fun build_commands :: "string list \<Rightarrow> CommandType set \<Rightarrow> go_error + CommandType set" where
  "build_commands [] acc = Inr acc"
| "build_commands (c # cs) acc =
     (if \<not> commandPattern c then Inl (errors_New (''command '' @ fmt_q c @ '' is invalid''))
      else if c \<in> acc then Inl (errors_New (''command '' @ fmt_q c @ '' is declared more than once''))
      else build_commands cs (insert c acc))"

fun build_allowed ::
  "string \<Rightarrow> CommandType set \<Rightarrow> string list \<Rightarrow> CommandType set \<Rightarrow> go_error + CommandType set" where
  "build_allowed aid commands [] allowed = Inr allowed"
| "build_allowed aid commands (c # cs) allowed =
     (if c \<notin> commands
      then Inl (errors_New (''agent '' @ fmt_q aid @ '': command '' @ fmt_q c @ '' is not in the command catalogue''))
      else if c \<in> allowed
      then Inl (errors_New (''agent '' @ fmt_q aid @ '': command '' @ fmt_q c @ '' is listed more than once''))
      else build_allowed aid commands cs (insert c allowed))"

fun build_agents ::
  "CommandType set \<Rightarrow> nat \<Rightarrow> agentDocument list \<Rightarrow> (string \<rightharpoonup> CommandType set) \<Rightarrow>
     go_error + (string \<rightharpoonup> CommandType set)" where
  "build_agents commands i [] acc = Inr acc"
| "build_agents commands i (a # as) acc =
     (if \<not> agentIDPattern (ad_ID a)
      then Inl (errors_New (''agents['' @ fmt_d i @ '']: id '' @ fmt_q (ad_ID a) @ '' is invalid''))
      else if acc (ad_ID a) \<noteq> None
      then Inl (errors_New (''agent '' @ fmt_q (ad_ID a) @ '' is declared more than once''))
      else if ad_Commands a = []
      then Inl (errors_New (''agent '' @ fmt_q (ad_ID a) @ '': commands must not be empty''))
      else (case build_allowed (ad_ID a) commands (ad_Commands a) {} of
          Inl e \<Rightarrow> Inl e
        | Inr allowed \<Rightarrow> build_agents commands (Suc i) as (acc(ad_ID a \<mapsto> allowed))))"

fun build_targets ::
  "(string \<rightharpoonup> EnvironmentMode) \<Rightarrow> nat \<Rightarrow> targetDocument list \<Rightarrow> (string \<rightharpoonup> Target) \<Rightarrow>
     go_error + (string \<rightharpoonup> Target)" where
  "build_targets envs i [] acc = Inr acc"
| "build_targets envs i (t # ts) acc =
     (if \<not> targetIDPattern (td_ID t)
      then Inl (errors_New (''targets['' @ fmt_d i @ '']: id '' @ fmt_q (td_ID t) @ '' is invalid''))
      else if acc (td_ID t) \<noteq> None
      then Inl (errors_New (''target '' @ fmt_q (td_ID t) @ '' is declared more than once''))
      else if envs (td_Environment t) = None
      then Inl (errors_New (''target '' @ fmt_q (td_ID t) @ '': environment '' @ fmt_q (td_Environment t)
        @ '' is not declared''))
      else (case td_Protected t of
          None \<Rightarrow> Inl (errors_New (''target '' @ fmt_q (td_ID t) @ '': protected must be set explicitly''))
        | Some p \<Rightarrow> build_targets envs (Suc i) ts
            (acc(td_ID t \<mapsto> \<lparr>t_ID = td_ID t, t_Environment = td_Environment t, t_Protected = p\<rparr>))))"

text \<open>\<^verbatim>\<open>build\<close>: the checks in the order of the source, the first failure is returned.\<close>

definition build :: "document \<Rightarrow> go_error + Snapshot" where
  "build doc =
     (if doc_Version doc = '''' then Inl (errors_New ''version is required'')
      else if \<not> versionPattern (doc_Version doc)
      then Inl (errors_New (''version '' @ fmt_q (doc_Version doc) @ '' is invalid''))
      else if doc_MaxParallelTasks doc < 1 \<or> doc_MaxParallelTasks doc > maxParallelTasksLimit
      then Inl (errors_New ''max_parallel_tasks must be between 1 and 10000'')
      else if doc_Environments doc = []
      then Inl (errors_New ''environments must declare at least one environment'')
      else case build_environments (doc_Environments doc) Map.empty of Inl e \<Rightarrow> Inl e | Inr envs \<Rightarrow>
        if doc_Commands doc = [] then Inl (errors_New ''commands must declare at least one command'')
        else case build_commands (doc_Commands doc) {} of Inl e \<Rightarrow> Inl e | Inr commands \<Rightarrow>
          if doc_Agents doc = [] then Inl (errors_New ''agents must declare at least one agent'')
          else case build_agents commands 0 (doc_Agents doc) Map.empty of Inl e \<Rightarrow> Inl e | Inr agents \<Rightarrow>
            if doc_Targets doc = [] then Inl (errors_New ''targets must declare at least one target'')
            else case build_targets envs 0 (doc_Targets doc) Map.empty of Inl e \<Rightarrow> Inl e | Inr targets \<Rightarrow>
              Inr \<lparr>s_version = doc_Version doc, s_digest = '''',
                   s_maxParallelTasks = doc_MaxParallelTasks doc, s_environments = envs,
                   s_commands = commands, s_agents = agents, s_targets = targets\<rparr>)"

datatype yaml_result = YamlEOF | YamlError string | YamlDoc document

record yaml_decoder =
  y_first :: "string \<Rightarrow> yaml_result"
  y_second_EOF :: "string \<Rightarrow> bool"

definition rawDigest :: "string \<Rightarrow> string" where
  "rawDigest raw = EncodeToString (Sum256 raw)"

definition Parse :: "yaml_decoder \<Rightarrow> string \<Rightarrow> go_error + Snapshot" where
  "Parse y raw = (case y_first y raw of
       YamlEOF \<Rightarrow> Inl (errors_New ''policy: document is empty'')
     | YamlError e \<Rightarrow> Inl (errors_New (''policy: decode: '' @ e))
     | YamlDoc doc \<Rightarrow>
         if \<not> y_second_EOF y raw
         then Inl (errors_New ''policy: file must contain exactly one YAML document'')
         else (case build doc of
             Inl e \<Rightarrow> Inl (wrap_error e (''policy: '' @ err_text e))
           | Inr s \<Rightarrow> Inr (s\<lparr>s_digest := rawDigest raw\<rparr>)))"

section \<open>The loader\<close>

text \<open>\<^verbatim>\<open>os.ReadFile\<close> gives the contents or an error text.\<close>

type_synonym read_result = "string + string"

datatype policy_log =
    LogReloaded string string
  | LogRejected string
  | LogMaxParallelChanged int

record Loader =
  l_current :: Snapshot
  l_loadedAt :: time
  l_lastErr :: string
  l_lastErrAt :: time
  l_lastBadKey :: string
  l_log :: "policy_log list"

definition Load :: "yaml_decoder \<Rightarrow> read_result \<Rightarrow> go_error + Snapshot" where
  "Load y rd = (case rd of
       Inl e \<Rightarrow> Inl (errors_New (''policy: read: '' @ e))
     | Inr raw \<Rightarrow> Parse y raw)"

definition NewLoader :: "yaml_decoder \<Rightarrow> read_result \<Rightarrow> time \<Rightarrow> go_error + Loader" where
  "NewLoader y rd now = (case Load y rd of
       Inl e \<Rightarrow> Inl e
     | Inr s \<Rightarrow> Inr \<lparr>l_current = s, l_loadedAt = now, l_lastErr = '''', l_lastErrAt = zero_time,
         l_lastBadKey = '''', l_log = []\<rparr>)"

definition clearError :: "Loader \<Rightarrow> Loader" where
  "clearError l = l\<lparr>l_lastErr := '''', l_lastErrAt := zero_time, l_lastBadKey := ''''\<rparr>"

definition recordError :: "string \<Rightarrow> go_error \<Rightarrow> time \<Rightarrow> Loader \<Rightarrow> Loader" where
  "recordError badKey e now l =
     l\<lparr>l_lastErr := err_text e, l_lastErrAt := now, l_lastBadKey := badKey,
       l_log := (if badKey \<noteq> l_lastBadKey l then l_log l @ [LogRejected (err_text e)] else l_log l)\<rparr>"

definition Reload :: "yaml_decoder \<Rightarrow> read_result \<Rightarrow> time \<Rightarrow> Loader \<Rightarrow> go_error option \<times> Loader" where
  "Reload y rd now l = (case rd of
       Inl e \<Rightarrow>
         (let err = errors_New (''policy: read: '' @ e)
          in (Some err, recordError (''read:'' @ err_text err) err now l))
     | Inr raw \<Rightarrow>
         (let cur = l_current l; digest = rawDigest raw in
          if digest = s_digest cur then (None, clearError l)
          else (case Parse y raw of
              Inl err \<Rightarrow> (Some err, recordError digest err now l)
            | Inr next \<Rightarrow>
                (None, (clearError l)\<lparr>l_current := next, l_loadedAt := now,
                   l_log := l_log l @ LogReloaded (s_version next) (s_digest next) #
                     (if s_maxParallelTasks next \<noteq> s_maxParallelTasks cur
                      then [LogMaxParallelChanged (s_maxParallelTasks next)] else [])\<rparr>))))"

text \<open>The reload loop: one \<^verbatim>\<open>Reload\<close> per tick, its error ignored (it is recorded in the status).\<close>

fun loop :: "yaml_decoder \<Rightarrow> (read_result \<times> time) list \<Rightarrow> Loader \<Rightarrow> Loader" where
  "loop y [] l = l"
| "loop y ((rd, now) # ticks) l = loop y ticks (snd (Reload y rd now l))"

record Status =
  st_Version :: string
  st_Digest :: string
  st_LoadedAt :: time
  st_MaxParallelTasks :: int
  st_ReloadStatus :: string
  st_LastReloadError :: string
  st_LastReloadErrorAt :: "time option"

definition Loader_Status :: "Loader \<Rightarrow> Status" where
  "Loader_Status l =
     (let cur = l_current l;
          st = \<lparr>st_Version = s_version cur, st_Digest = s_digest cur, st_LoadedAt = l_loadedAt l,
                st_MaxParallelTasks = s_maxParallelTasks cur, st_ReloadStatus = ''ok'',
                st_LastReloadError = '''', st_LastReloadErrorAt = None\<rparr>
      in if l_lastErr l \<noteq> ''''
         then st\<lparr>st_ReloadStatus := ''error'', st_LastReloadError := l_lastErr l,
                 st_LastReloadErrorAt := Some (l_lastErrAt l)\<rparr>
         else st)"

section \<open>What validation accepts\<close>

text \<open>The declarative reading of the schema, and the snapshot a valid document denotes.\<close>

definition valid_agent :: "document \<Rightarrow> agentDocument \<Rightarrow> bool" where
  "valid_agent doc a \<longleftrightarrow> agentIDPattern (ad_ID a) \<and> ad_Commands a \<noteq> [] \<and>
     distinct (ad_Commands a) \<and> set (ad_Commands a) \<subseteq> set (doc_Commands doc)"

definition valid_target :: "document \<Rightarrow> targetDocument \<Rightarrow> bool" where
  "valid_target doc t \<longleftrightarrow> targetIDPattern (td_ID t) \<and>
     td_Environment t \<in> fst ` set (doc_Environments doc) \<and> td_Protected t \<noteq> None"

definition valid_document :: "document \<Rightarrow> bool" where
  "valid_document doc \<longleftrightarrow>
     versionPattern (doc_Version doc) \<and>
     1 \<le> doc_MaxParallelTasks doc \<and> doc_MaxParallelTasks doc \<le> 10000 \<and>
     doc_Environments doc \<noteq> [] \<and>
     (\<forall>(name, mode) \<in> set (doc_Environments doc).
        environmentPattern name \<and> mode \<in> {''allow'', ''require_approval'', ''deny''}) \<and>
     doc_Commands doc \<noteq> [] \<and> distinct (doc_Commands doc) \<and>
     (\<forall>c \<in> set (doc_Commands doc). commandPattern c) \<and>
     doc_Agents doc \<noteq> [] \<and> distinct (map ad_ID (doc_Agents doc)) \<and>
     (\<forall>a \<in> set (doc_Agents doc). valid_agent doc a) \<and>
     doc_Targets doc \<noteq> [] \<and> distinct (map td_ID (doc_Targets doc)) \<and>
     (\<forall>t \<in> set (doc_Targets doc). valid_target doc t)"

definition target_of :: "targetDocument \<Rightarrow> Target" where
  "target_of t = \<lparr>t_ID = td_ID t, t_Environment = td_Environment t, t_Protected = the (td_Protected t)\<rparr>"

definition document_snapshot :: "document \<Rightarrow> Snapshot" where
  "document_snapshot doc =
     \<lparr>s_version = doc_Version doc, s_digest = '''', s_maxParallelTasks = doc_MaxParallelTasks doc,
      s_environments = map_of (rev (map (\<lambda>(n, m). (n, EnvironmentMode_of m)) (doc_Environments doc))),
      s_commands = set (doc_Commands doc),
      s_agents = map_of (map (\<lambda>a. (ad_ID a, set (ad_Commands a))) (doc_Agents doc)),
      s_targets = map_of (map (\<lambda>t. (td_ID t, target_of t)) (doc_Targets doc))\<rparr>"

definition wf_snapshot :: "Snapshot \<Rightarrow> bool" where
  "wf_snapshot s \<longleftrightarrow>
     versionPattern (s_version s) \<and> 1 \<le> s_maxParallelTasks s \<and> s_maxParallelTasks s \<le> 10000 \<and>
     (\<forall>n m. s_environments s n = Some m \<longrightarrow> m \<in> {ModeAllow, ModeRequireApproval, ModeDeny}) \<and>
     (\<forall>a cs. s_agents s a = Some cs \<longrightarrow> agentIDPattern a \<and> cs \<noteq> {} \<and> cs \<subseteq> s_commands s) \<and>
     (\<forall>i t. s_targets s i = Some t \<longrightarrow> t_ID t = i \<and> s_environments s (t_Environment t) \<noteq> None)"

section \<open>Facts on validation\<close>

lemma build_environments_step:
  "build_environments ((name, mode) # es) acc =
     (if \<not> environmentPattern name
      then Inl (errors_New (''environment name '' @ fmt_q name @ '' is invalid''))
      else if mode \<notin> {''allow'', ''require_approval'', ''deny''}
      then Inl (errors_New (''environment '' @ fmt_q name @ '': mode '' @ fmt_q mode
        @ '' must be allow, require_approval or deny''))
      else build_environments es (acc(name \<mapsto> EnvironmentMode_of mode)))"
  by (simp add: EnvironmentMode_of_def)

lemma build_environments_iff:
  "build_environments es acc = Inr m \<longleftrightarrow>
     (\<forall>(name, mode) \<in> set es. environmentPattern name \<and> mode \<in> {''allow'', ''require_approval'', ''deny''}) \<and>
     m = acc ++ map_of (rev (map (\<lambda>(n, m). (n, EnvironmentMode_of m)) es))"
proof (induction es arbitrary: acc)
  case Nil
  then show ?case by auto
next
  case (Cons e es)
  obtain name mode where e: "e = (name, mode)" by (cases e)
  have upd: "acc(name \<mapsto> x) ++ map_of ys = acc ++ map_of (ys @ [(name, x)])" for x ys
    by (simp add: map_add_assoc [symmetric])
  show ?case
    unfolding e build_environments_step
    by (cases "environmentPattern name"; cases "mode \<in> {''allow'', ''require_approval'', ''deny''}")
      (simp_all del: map_of_append insert_iff singleton_iff fun_upd_apply add: Cons.IH upd)
qed

lemma build_commands_iff:
  "build_commands cs acc = Inr m \<longleftrightarrow>
     (\<forall>c \<in> set cs. commandPattern c) \<and> distinct cs \<and> set cs \<inter> acc = {} \<and> m = acc \<union> set cs"
  by (induction cs arbitrary: acc) auto

lemma build_allowed_iff:
  "build_allowed aid commands cs acc = Inr m \<longleftrightarrow>
     set cs \<subseteq> commands \<and> distinct cs \<and> set cs \<inter> acc = {} \<and> m = acc \<union> set cs"
  by (induction cs arbitrary: acc) auto

text \<open>Storing under a key no later entry has commutes with adding the later entries.\<close>

lemma upd_map_add:
  "k \<notin> dom m \<Longrightarrow> f(k \<mapsto> x) ++ m = f ++ m(k \<mapsto> x)"
  by (rule ext) (auto simp: map_add_def split: option.splits)

lemma build_agents_iff:
  "build_agents commands i as acc = Inr m \<longleftrightarrow>
     (\<forall>a \<in> set as. agentIDPattern (ad_ID a) \<and> ad_Commands a \<noteq> [] \<and> distinct (ad_Commands a) \<and>
        set (ad_Commands a) \<subseteq> commands) \<and>
     distinct (map ad_ID as) \<and> ad_ID ` set as \<inter> dom acc = {} \<and>
     m = acc ++ map_of (map (\<lambda>a. (ad_ID a, set (ad_Commands a))) as)"
proof (induction as arbitrary: acc i)
  case Nil
  then show ?case by auto
next
  case (Cons a as)
  have d: "dom (map_of (map (\<lambda>a. (ad_ID a, set (ad_Commands a))) as)) = ad_ID ` set as"
    by (force simp: dom_map_of_conv_image_fst)
  show ?case
    by (auto simp del: fun_upd_apply simp: Cons.IH build_allowed_iff upd_map_add d case_error_Inr_iff)
qed

lemma build_targets_iff:
  "build_targets envs i ts acc = Inr m \<longleftrightarrow>
     (\<forall>t \<in> set ts. targetIDPattern (td_ID t) \<and> td_Environment t \<in> dom envs \<and> td_Protected t \<noteq> None) \<and>
     distinct (map td_ID ts) \<and> td_ID ` set ts \<inter> dom acc = {} \<and>
     m = acc ++ map_of (map (\<lambda>t. (td_ID t, target_of t)) ts)"
proof (induction ts arbitrary: acc i)
  case Nil
  then show ?case by auto
next
  case (Cons t ts)
  have d: "dom (map_of (map (\<lambda>t. (td_ID t, target_of t)) ts)) = td_ID ` set ts"
    by (force simp: dom_map_of_conv_image_fst)
  show ?case
    by (cases "td_Protected t")
      (auto simp del: fun_upd_apply simp: Cons.IH upd_map_add target_of_def [of t] d)
qed

lemma dom_environments:
  "dom (map_of (rev (map (\<lambda>(n, m). (n, EnvironmentMode_of m)) es))) = fst ` set es"
  by (force simp: dom_map_of_conv_image_fst)

lemma versionPattern_nonempty [simp]: "\<not> versionPattern ''''"
  by (simp add: versionPattern_def class_match_def)

text \<open>The validator is the schema: acceptance and content at once.\<close>

lemma build_iff_valid:
  "build doc = Inr s \<longleftrightarrow> valid_document doc \<and> s = document_snapshot doc"
  unfolding build_def case_error_Inr_iff if_error_Inr_iff
    build_environments_iff build_commands_iff build_agents_iff build_targets_iff
  by (auto simp del: insert_iff simp: valid_document_def valid_agent_def valid_target_def
      document_snapshot_def dom_environments maxParallelTasksLimit_def versionPattern_nonempty)

section \<open>Well-formed snapshots\<close>

lemma document_snapshot_wf:
  assumes "valid_document doc"
  shows "wf_snapshot (document_snapshot doc)"
proof -
  have envs: "dom (s_environments (document_snapshot doc)) = fst ` set (doc_Environments doc)"
    by (simp add: document_snapshot_def dom_environments)
  have modes: "m \<in> {ModeAllow, ModeRequireApproval, ModeDeny}"
    if "s_environments (document_snapshot doc) n = Some m" for n m
    using map_of_SomeD [OF that [unfolded document_snapshot_def Snapshot.simps]] assms
    by (auto simp: valid_document_def EnvironmentMode_of_def)
  have agents: "agentIDPattern a \<and> cs \<noteq> {} \<and> cs \<subseteq> s_commands (document_snapshot doc)"
    if "s_agents (document_snapshot doc) a = Some cs" for a cs
    using map_of_SomeD [OF that [unfolded document_snapshot_def Snapshot.simps]] assms
    by (auto simp: valid_document_def valid_agent_def document_snapshot_def)
  have targets: "t_ID t = i \<and> s_environments (document_snapshot doc) (t_Environment t) \<noteq> None"
    if "s_targets (document_snapshot doc) i = Some t" for i t
  proof -
    from map_of_SomeD [OF that [unfolded document_snapshot_def Snapshot.simps]]
    obtain d where d: "d \<in> set (doc_Targets doc)" "i = td_ID d" "t = target_of d" by auto
    then have "t_Environment t \<in> dom (s_environments (document_snapshot doc))"
      using assms unfolding envs by (auto simp: valid_document_def valid_target_def target_of_def)
    with d show ?thesis by (auto simp: target_of_def)
  qed
  show ?thesis
    unfolding wf_snapshot_def using modes agents targets assms
    by (auto simp: valid_document_def document_snapshot_def)
qed

lemma wf_snapshot_digest [simp]: "wf_snapshot (s\<lparr>s_digest := d\<rparr>) = wf_snapshot s"
  by (simp add: wf_snapshot_def)

lemma Parse_Inr_iff:
  "Parse y raw = Inr s \<longleftrightarrow> (\<exists>doc. y_first y raw = YamlDoc doc \<and> y_second_EOF y raw \<and>
     valid_document doc \<and> s = (document_snapshot doc)\<lparr>s_digest := rawDigest raw\<rparr>)"
  by (cases "y_first y raw") (auto simp: Parse_def case_error_Inr_iff build_iff_valid)

lemma Parse_wf: "Parse y raw = Inr s \<Longrightarrow> wf_snapshot s \<and> s_digest s = rawDigest raw"
  by (auto simp: Parse_Inr_iff document_snapshot_wf)

lemma Parse_error_text: "Parse y raw = Inl e \<Longrightarrow> err_text e \<noteq> ''''"
  by (auto simp: Parse_def errors_New_def wrap_error_def split: yaml_result.splits sum.splits if_splits)

section \<open>The loader keeps the last good policy\<close>

lemma Reload_error:
  "Reload y rd now l = (Some e, l') \<Longrightarrow>
     l_current l' = l_current l \<and> l_loadedAt l' = l_loadedAt l \<and> l_lastErr l' = err_text e \<and>
     err_text e \<noteq> '''' \<and> l_lastErrAt l' = now"
  by (auto simp: Reload_def recordError_def Let_def errors_New_def dest: Parse_error_text
      split: sum.splits if_splits)

lemma Reload_ok:
  "Reload y rd now l = (None, l') \<Longrightarrow>
     \<exists>raw. rd = Inr raw \<and> s_digest (l_current l') = rawDigest raw \<and> l_lastErr l' = '''' \<and>
       (l_current l' = l_current l \<or> Parse y raw = Inr (l_current l'))"
  by (auto simp: Reload_def clearError_def Let_def dest: Parse_wf split: sum.splits if_splits)

lemma Reload_current:
  "l_current (snd (Reload y rd now l)) = l_current l \<or>
     (\<exists>raw. rd = Inr raw \<and> Parse y raw = Inr (l_current (snd (Reload y rd now l))))"
proof (cases "Reload y rd now l")
  case (Pair r l')
  then show ?thesis using Reload_error [of y rd now l _ l'] Reload_ok [of y rd now l l']
    by (cases r) auto
qed

lemma loop_current:
  "l_current (loop y ticks l) = l_current l \<or>
     (\<exists>raw now. (Inr raw, now) \<in> set ticks \<and> Parse y raw = Inr (l_current (loop y ticks l)))"
proof (induction ticks arbitrary: l)
  case (Cons tick ticks)
  obtain rd now where t: "tick = (rd, now)" by (cases tick)
  from Cons.IH [of "snd (Reload y rd now l)"] Reload_current [of y rd now l] show ?case
    unfolding t by fastforce
qed simp

section \<open>A sample policy\<close>

definition sample_doc :: document where
  "sample_doc = \<lparr>doc_Version = ''v1'', doc_MaxParallelTasks = 2, doc_Environments = [(''dev'', ''allow''), (''prod'', ''deny'')],
     doc_Commands = [''C''], doc_Agents = [\<lparr>ad_ID = ''a'', ad_Commands = [''C'']\<rparr>],
     doc_Targets = [\<lparr>td_ID = ''t'', td_Environment = ''dev'', td_Protected = Some False\<rparr>]\<rparr>"

definition sample_yaml :: yaml_decoder where
  "sample_yaml = \<lparr>y_first = (\<lambda>_. YamlDoc sample_doc), y_second_EOF = (\<lambda>_. True)\<rparr>"

lemma sample_doc_valid: "valid_document sample_doc"
  by (simp add: sample_doc_def valid_document_def valid_agent_def valid_target_def versionPattern_def
      environmentPattern_def commandPattern_def agentIDPattern_def targetIDPattern_def class_match_def
      head_match_def is_alnum_def is_upper_def is_lower_def is_digit_def in_range_def of_char_def)

lemma sample_parse:
  "Parse sample_yaml raw = Inr ((document_snapshot sample_doc)\<lparr>s_digest := rawDigest raw\<rparr>)"
  by (simp add: Parse_Inr_iff sample_yaml_def sample_doc_valid)

section \<open>Properties\<close>

text \<open>
  C27. \<^verbatim>\<open>Parse\<close> accepts a policy file exactly if it holds one YAML document which satisfies
  the declarative schema (patterns, bounds, no duplicates, no dangling command or environment,
  protection stated explicitly), and the snapshot is the one that document denotes, under the
  digest of the raw bytes.
\<close>

theorem policy_accepted_iff:
  "Parse y raw = Inr s \<longleftrightarrow> (\<exists>doc. y_first y raw = YamlDoc doc \<and> y_second_EOF y raw \<and>
     valid_document doc \<and> s = (document_snapshot doc)\<lparr>s_digest := rawDigest raw\<rparr>)"
  by (rule Parse_Inr_iff)

text \<open>
  Every snapshot the parser returns is well formed: the task limit is within its bounds,
  every mode is one of the three, every agent is allowed only catalogued commands, and every target
  lies in a declared environment.
\<close>

theorem policy_snapshot_wf:
  assumes "Parse y raw = Inr s"
  shows "wf_snapshot s"
  using Parse_wf [OF assms] by simp

theorem policy_snapshot_wf_witness:
  "wf_snapshot ((document_snapshot sample_doc)\<lparr>s_digest := rawDigest ''raw''\<rparr>)"
  by (rule policy_snapshot_wf [OF sample_parse])

text \<open>
  C28. However often the policy file is re-read, whatever it then holds and whether or not it can be
  read, the policy in force is the one the loader started with or one that a later read parsed
  successfully.
\<close>

theorem policy_last_good:
  "l_current (loop y ticks l) = l_current l \<or>
     (\<exists>raw now. (Inr raw, now) \<in> set ticks \<and> Parse y raw = Inr (l_current (loop y ticks l)))"
  by (rule loop_current)

text \<open>
  A reload that fails changes nothing of the policy in force, and the status reports the
  error, its text and its time; a reload that succeeds clears an earlier error.
\<close>

theorem policy_reload_error:
  "case Reload y rd now l of
     (Some e, l') \<Rightarrow> l_current l' = l_current l \<and> l_loadedAt l' = l_loadedAt l \<and>
       st_ReloadStatus (Loader_Status l') = ''error'' \<and> st_LastReloadError (Loader_Status l') = err_text e \<and>
       st_LastReloadErrorAt (Loader_Status l') = Some now \<and> st_Digest (Loader_Status l') = s_digest (l_current l)
   | (None, l') \<Rightarrow> st_ReloadStatus (Loader_Status l') = ''ok'' \<and> (\<exists>raw. rd = Inr raw \<and>
       st_Digest (Loader_Status l') = rawDigest raw)"
proof (cases "Reload y rd now l")
  case (Pair r l')
  then show ?thesis using Reload_error [of y rd now l _ l'] Reload_ok [of y rd now l l']
    by (cases r) (auto simp: Loader_Status_def Let_def)
qed

end
