(* ===== verification/Auth.thy ===== *)
theory Auth
  imports Policy
begin

text \<open>
  \<^verbatim>\<open>internal/auth/agentkeys.go\<close>: parsing the configured agent keys, resolving a presented key to an
  agent, and the middleware that guards everything under \<^verbatim>\<open>/v1/\<close>. Strings are their bytes, so
  \<^verbatim>\<open>unicode.IsSpace\<close> is the list of the UTF-8 encodings of the white space characters; a lead
  byte never occurs inside another encoding, so scanning for these byte sequences finds the same
  positions as decoding rune by rune.
\<close>

unbundle bit_operations_syntax

section \<open>White space, splitting and cutting\<close>

definition bytes :: "nat list \<Rightarrow> string" where
  "bytes = map char_of"

definition space_seqs :: "string list" where
  "space_seqs = map (\<lambda>b. bytes [b]) [9, 10, 11, 12, 13, 32]
     @ [bytes [194, 133], bytes [194, 160], bytes [225, 154, 128]]
     @ map (\<lambda>b. bytes [226, 128, b]) ([128 ..< 139] @ [168, 169, 175])
     @ [bytes [226, 129, 159], bytes [227, 128, 128]]"

definition starts_with :: "string \<Rightarrow> string \<Rightarrow> bool" where
  "starts_with p s \<longleftrightarrow> take (length p) s = p"

definition strip_prefix :: "string list \<Rightarrow> string \<Rightarrow> string option" where
  "strip_prefix ps s = map_option (\<lambda>p. drop (length p) s) (find (\<lambda>p. p \<noteq> [] \<and> starts_with p s) ps)"

lemma strip_prefix_shorter: "strip_prefix ps s = Some s' \<Longrightarrow> length s' < length s"
  by (cases s) (auto simp: strip_prefix_def starts_with_def find_Some_iff)

function trim_seqs :: "string list \<Rightarrow> string \<Rightarrow> string" where
  "trim_seqs ps s = (case strip_prefix ps s of None \<Rightarrow> s | Some s' \<Rightarrow> trim_seqs ps s')"
  by pat_completeness auto

termination
  by (relation "measure (\<lambda>(ps, s). length s)") (auto intro: strip_prefix_shorter)

declare trim_seqs.simps [simp del]

definition TrimSpace :: "string \<Rightarrow> string" where
  "TrimSpace s = rev (trim_seqs (map rev space_seqs) (rev (trim_seqs space_seqs s)))"

text \<open>\<^verbatim>\<open>strings.IndexFunc(key, unicode.IsSpace) >= 0\<close>.\<close>

fun has_space :: "string \<Rightarrow> bool" where
  "has_space [] = False"
| "has_space (c # s) = (strip_prefix space_seqs (c # s) \<noteq> None \<or> has_space s)"

text \<open>\<^verbatim>\<open>strings.Split\<close> by a one-byte separator, and \<^verbatim>\<open>strings.Cut\<close>.\<close>

fun split_at :: "char \<Rightarrow> string \<Rightarrow> string list" where
  "split_at sep [] = [[]]"
| "split_at sep (c # s) =
     (if c = sep then [] # split_at sep s
      else case split_at sep s of [] \<Rightarrow> [[c]] | p # ps \<Rightarrow> (c # p) # ps)"

fun Cut :: "char \<Rightarrow> string \<Rightarrow> (string \<times> string) option" where
  "Cut sep [] = None"
| "Cut sep (c # s) = (if c = sep then Some ([], s) else map_option (\<lambda>(a, b). (c # a, b)) (Cut sep s))"

section \<open>The keyring\<close>

definition MinKeyLength :: nat where "MinKeyLength = 16"
definition maxKeyLength :: nat where "maxKeyLength = 256"

definition keyAgentIDPattern :: "string \<Rightarrow> bool" where
  "keyAgentIDPattern = class_match (\<lambda>c. is_alnum c \<or> c \<in> set ''._-'') 1 64"

record keyEntry =
  ke_agentID :: string
  ke_digest :: string

record Keyring =
  kr_entries :: "keyEntry list"

definition entry_error :: "nat \<Rightarrow> string \<Rightarrow> go_error" where
  "entry_error pos msg = errors_New (''agent keys: entry '' @ fmt_d pos @ msg)"

text \<open>
  One entry: its checks in the order of the source. \<open>seenIDs\<close> and \<open>seenKeys\<close> are the IDs and
  the digests of the entries accepted so far.
\<close>

definition parse_entry :: "nat \<Rightarrow> string set \<Rightarrow> string set \<Rightarrow> string \<Rightarrow> go_error + keyEntry" where
  "parse_entry pos seenIDs seenKeys part = (case Cut (CHR '':'') part of
       None \<Rightarrow> Inl (entry_error pos '' is not in agent-id:key form'')
     | Some (aid, key) \<Rightarrow>
         if \<not> keyAgentIDPattern aid then Inl (entry_error pos '' has an invalid agent id'')
         else if length key < MinKeyLength
         then Inl (entry_error pos ('' ('' @ aid @ '') key is shorter than '' @ fmt_d MinKeyLength @ '' bytes''))
         else if length key > maxKeyLength
         then Inl (entry_error pos ('' ('' @ aid @ '') key is longer than '' @ fmt_d maxKeyLength @ '' bytes''))
         else if has_space key then Inl (entry_error pos ('' ('' @ aid @ '') key contains whitespace''))
         else if aid \<in> seenIDs then Inl (entry_error pos ('' duplicates agent id '' @ aid))
         else if Sum256 key \<in> seenKeys
         then Inl (entry_error pos ('' ('' @ aid @ '') reuses a key assigned to another agent''))
         else Inr \<lparr>ke_agentID = aid, ke_digest = Sum256 key\<rparr>)"

fun parse_entries ::
  "nat \<Rightarrow> string set \<Rightarrow> string set \<Rightarrow> string list \<Rightarrow> keyEntry list \<Rightarrow> go_error + keyEntry list" where
  "parse_entries pos seenIDs seenKeys [] es = Inr es"
| "parse_entries pos seenIDs seenKeys (part # parts) es =
     (case parse_entry pos seenIDs seenKeys part of
        Inl e \<Rightarrow> Inl e
      | Inr e \<Rightarrow> parse_entries (Suc pos) (insert (ke_agentID e) seenIDs) (insert (ke_digest e) seenKeys) parts (es @ [e]))"

definition ParseAgentKeys :: "string \<Rightarrow> go_error + Keyring" where
  "ParseAgentKeys spec0 =
     (let spec = TrimSpace spec0 in
      if spec = '''' then Inl (errors_New ''agent keys: no entries configured'')
      else case parse_entries 1 {} {} (split_at (CHR '','') spec) [] of
          Inl e \<Rightarrow> Inl e
        | Inr es \<Rightarrow> Inr \<lparr>kr_entries = es\<rparr>)"

text \<open>\<^verbatim>\<open>crypto/subtle\<close>: comparison and selection on 0 and 1.\<close>

definition ConstantTimeCompare :: "string \<Rightarrow> string \<Rightarrow> int" where
  "ConstantTimeCompare x y = (if x = y then 1 else 0)"

definition ConstantTimeSelect :: "int \<Rightarrow> int \<Rightarrow> int \<Rightarrow> int" where
  "ConstantTimeSelect v x y = (if v = 1 then x else y)"

fun resolve_loop :: "string \<Rightarrow> keyEntry list \<Rightarrow> int \<Rightarrow> int \<Rightarrow> int \<Rightarrow> int \<times> int" where
  "resolve_loop digest [] i match found = (match, found)"
| "resolve_loop digest (e # es) i match found =
     (let eq = ConstantTimeCompare digest (ke_digest e)
      in resolve_loop digest es (i + 1) (ConstantTimeSelect eq i match) (found OR eq))"

definition Resolve :: "Keyring \<Rightarrow> string \<Rightarrow> string option" where
  "Resolve k presented =
     (case resolve_loop (Sum256 presented) (kr_entries k) 0 (- 1) 0 of (match, found) \<Rightarrow>
        if found \<noteq> 1 then None else Some (ke_agentID (kr_entries k ! nat match)))"

definition AgentIDs :: "Keyring \<Rightarrow> string list" where
  "AgentIDs k = map ke_agentID (kr_entries k)"

section \<open>The request context and the middleware\<close>

text \<open>The agent ID under its private key of the request context.\<close>

type_synonym request_ctx = "string option"

definition WithAgentID :: "request_ctx \<Rightarrow> string \<Rightarrow> request_ctx" where
  "WithAgentID ctx agentID = Some agentID"

definition AgentIDFromContext :: "request_ctx \<Rightarrow> string option" where
  "AgentIDFromContext ctx = (case ctx of
       None \<Rightarrow> None
     | Some agentID \<Rightarrow> if agentID \<noteq> '''' then Some agentID else None)"

text \<open>\<open>unauthorized\<close> is the 401 response with its fixed body; \<open>next\<close> the guarded handler.\<close>

definition Middleware ::
  "Keyring \<Rightarrow> 'resp \<Rightarrow> (request_ctx \<Rightarrow> 's \<Rightarrow> 'resp \<times> 's) \<Rightarrow> string \<Rightarrow> request_ctx \<Rightarrow> 's \<Rightarrow> 'resp \<times> 's" where
  "Middleware k unauthorized next apiKey ctx s = (case Resolve k apiKey of
       None \<Rightarrow> (unauthorized, s)
     | Some agentID \<Rightarrow> next (WithAgentID ctx agentID) s)"

section \<open>Resolving a key\<close>

lemma resolve_loop_miss: "g \<notin> ke_digest ` set es \<Longrightarrow> resolve_loop g es i m f = (m, f)"
  by (induction es arbitrary: i m f) (auto simp: ConstantTimeCompare_def ConstantTimeSelect_def)

lemma resolve_loop_hit:
  "distinct (map ke_digest es) \<Longrightarrow> j < length es \<Longrightarrow> ke_digest (es ! j) = g \<Longrightarrow>
     resolve_loop g es i m 0 = (i + int j, 1)"
proof (induction es arbitrary: i m j)
  case (Cons e es)
  show ?case
  proof (cases j)
    case 0
    then show ?thesis using Cons.prems
      by (auto simp: ConstantTimeCompare_def ConstantTimeSelect_def resolve_loop_miss)
  next
    case (Suc j')
    then have "ke_digest (es ! j') \<in> ke_digest ` set es" using Cons.prems(2) by simp
    then have "g \<noteq> ke_digest e" using Cons.prems(1,3) Suc by auto
    then show ?thesis using Cons.prems Suc Cons.IH [of j' "i + 1" m]
      by (simp add: ConstantTimeCompare_def ConstantTimeSelect_def)
  qed
qed simp

lemma Resolve_iff:
  assumes "distinct (map ke_digest (kr_entries k))"
  shows "Resolve k key = Some a \<longleftrightarrow> (\<exists>e \<in> set (kr_entries k). ke_agentID e = a \<and> ke_digest e = Sum256 key)"
proof (cases "Sum256 key \<in> ke_digest ` set (kr_entries k)")
  case True
  then obtain j where j: "j < length (kr_entries k)" "ke_digest (kr_entries k ! j) = Sum256 key"
    by (auto simp: in_set_conv_nth)
  then have "Resolve k key = Some (ke_agentID (kr_entries k ! j))"
    using resolve_loop_hit [OF assms j, of 0 "- 1"] by (simp add: Resolve_def)
  moreover have "e = kr_entries k ! j" if "e \<in> set (kr_entries k)" "ke_digest e = Sum256 key" for e
    using that j assms by (metis distinct_map inj_on_eq_iff nth_mem)
  ultimately show ?thesis using j by (metis nth_mem option.inject)
next
  case False
  then have "Resolve k key = None" by (simp add: Resolve_def resolve_loop_miss)
  with False show ?thesis by (metis imageI option.distinct(1))
qed

section \<open>Parsing\<close>

definition valid_pair :: "string \<times> string \<Rightarrow> bool" where
  "valid_pair p \<longleftrightarrow> keyAgentIDPattern (fst p) \<and> MinKeyLength \<le> length (snd p) \<and> length (snd p) \<le> maxKeyLength \<and>
     \<not> has_space (snd p)"

definition entry_of :: "string \<times> string \<Rightarrow> keyEntry" where
  "entry_of p = \<lparr>ke_agentID = fst p, ke_digest = Sum256 (snd p)\<rparr>"

lemma entry_of_simps [simp]: "ke_agentID (entry_of p) = fst p" "ke_digest (entry_of p) = Sum256 (snd p)"
  by (simp_all add: entry_of_def)

lemma parse_entry_iff:
  "parse_entry pos I K part = Inr e \<longleftrightarrow>
     (\<exists>p. Cut (CHR '':'') part = Some p \<and> valid_pair p \<and> fst p \<notin> I \<and> Sum256 (snd p) \<notin> K \<and> e = entry_of p)"
  by (auto simp: parse_entry_def valid_pair_def entry_of_def split: option.splits)

text \<open>The pairs of a specification that parsed.\<close>

definition valid_pairs :: "(string \<times> string) list \<Rightarrow> bool" where
  "valid_pairs ps \<longleftrightarrow> list_all valid_pair ps \<and> distinct (map fst ps) \<and> distinct (map (\<lambda>p. Sum256 (snd p)) ps)"

lemma parse_entries_iff:
  "parse_entries pos I K parts es = Inr out \<longleftrightarrow>
     (\<exists>ps. map (Cut (CHR '':'')) parts = map Some ps \<and> valid_pairs ps \<and> fst ` set ps \<inter> I = {} \<and>
        (\<lambda>p. Sum256 (snd p)) ` set ps \<inter> K = {} \<and> out = es @ map entry_of ps)"
proof (induction parts arbitrary: pos I K es)
  case (Cons part parts)
  let ?cut = "Cut (CHR '':'')" and ?dg = "\<lambda>p. Sum256 (snd p)"
  show ?case
  proof
    assume "parse_entries pos I K (part # parts) es = Inr out"
    then obtain e where e: "parse_entry pos I K part = Inr e"
      and r: "parse_entries (Suc pos) (insert (ke_agentID e) I) (insert (ke_digest e) K) parts (es @ [e]) = Inr out"
      by (cases "parse_entry pos I K part") simp_all
    from e obtain p where p: "?cut part = Some p" "valid_pair p" "fst p \<notin> I" "?dg p \<notin> K" "e = entry_of p"
      unfolding parse_entry_iff by blast
    from r [unfolded Cons.IH p(5) entry_of_simps] obtain ps where ps: "map ?cut parts = map Some ps" "valid_pairs ps"
        "fst ` set ps \<inter> insert (fst p) I = {}" "?dg ` set ps \<inter> insert (?dg p) K = {}"
        "out = (es @ [entry_of p]) @ map entry_of ps" by blast
    show "\<exists>ps. map ?cut (part # parts) = map Some ps \<and> valid_pairs ps \<and> fst ` set ps \<inter> I = {} \<and>
        ?dg ` set ps \<inter> K = {} \<and> out = es @ map entry_of ps"
      by (intro exI [of _ "p # ps"]) (use p ps in \<open>auto simp: valid_pairs_def\<close>)
  next
    assume "\<exists>ps. map ?cut (part # parts) = map Some ps \<and> valid_pairs ps \<and> fst ` set ps \<inter> I = {} \<and>
        ?dg ` set ps \<inter> K = {} \<and> out = es @ map entry_of ps"
    then obtain qs where qs: "map ?cut (part # parts) = map Some qs" "valid_pairs qs" "fst ` set qs \<inter> I = {}"
        "?dg ` set qs \<inter> K = {}" "out = es @ map entry_of qs" by blast
    from qs(1) obtain p ps where q: "qs = p # ps" by (cases qs) simp_all
    have "parse_entry pos I K part = Inr (entry_of p)"
      unfolding parse_entry_iff by (intro exI [of _ p]) (use qs q in \<open>auto simp: valid_pairs_def\<close>)
    moreover have "parse_entries (Suc pos) (insert (fst p) I) (insert (?dg p) K) parts (es @ [entry_of p]) = Inr out"
      unfolding Cons.IH by (intro exI [of _ ps]) (use qs q in \<open>auto simp: valid_pairs_def\<close>)
    ultimately show "parse_entries pos I K (part # parts) es = Inr out" by simp
  qed
qed (auto simp: valid_pairs_def)

lemma ParseAgentKeys_iff:
  "ParseAgentKeys spec = Inr k \<longleftrightarrow> TrimSpace spec \<noteq> '''' \<and>
     (\<exists>ps. map (Cut (CHR '':'')) (split_at (CHR '','') (TrimSpace spec)) = map Some ps \<and> valid_pairs ps \<and>
        k = \<lparr>kr_entries = map entry_of ps\<rparr>)"
proof -
  have "ParseAgentKeys spec = Inr k \<longleftrightarrow> TrimSpace spec \<noteq> '''' \<and>
      (\<exists>es. parse_entries 1 {} {} (split_at (CHR '','') (TrimSpace spec)) [] = Inr es \<and> k = \<lparr>kr_entries = es\<rparr>)"
    by (auto simp: ParseAgentKeys_def Let_def split: sum.splits)
  also have "\<dots> \<longleftrightarrow> TrimSpace spec \<noteq> '''' \<and>
     (\<exists>ps. map (Cut (CHR '':'')) (split_at (CHR '','') (TrimSpace spec)) = map Some ps \<and> valid_pairs ps \<and>
        k = \<lparr>kr_entries = map entry_of ps\<rparr>)"
    unfolding parse_entries_iff by auto
  finally show ?thesis .
qed

section \<open>Printing and parsing\<close>

definition print_keys :: "(string \<times> string) list \<Rightarrow> string" where
  "print_keys ps = strings_Join (map (\<lambda>(i, k). i @ CHR '':'' # k) ps) '',''"

lemma split_at_last: "sep \<notin> set p \<Longrightarrow> split_at sep p = [p]"
  by (induction p) auto

lemma split_at_more: "sep \<notin> set p \<Longrightarrow> split_at sep (p @ sep # s) = p # split_at sep s"
  by (induction p) auto

lemma split_at_join:
  "ps \<noteq> [] \<Longrightarrow> (\<And>p. p \<in> set ps \<Longrightarrow> sep \<notin> set p) \<Longrightarrow> split_at sep (strings_Join ps [sep]) = ps"
proof (induction ps)
  case (Cons p ps)
  then show ?case by (cases ps) (simp_all add: split_at_last split_at_more)
qed simp

lemma Cut_first: "sep \<notin> set a \<Longrightarrow> Cut sep (a @ sep # b) = Some (a, b)"
  by (induction a) auto

lemma char_class_not:
  assumes "list_all (\<lambda>c. is_alnum c \<or> c \<in> set ''._-'') s"
  shows "CHR '':'' \<notin> set s" "CHR '','' \<notin> set s"
  using assms by (auto simp: list_all_iff is_alnum_def is_upper_def is_lower_def is_digit_def in_range_def of_char_def)

lemma keyAgentID_chars:
  assumes "keyAgentIDPattern i"
  shows "CHR '':'' \<notin> set i" "CHR '','' \<notin> set i" "i \<noteq> []"
  using char_class_not [of i] assms by (auto simp: keyAgentIDPattern_def class_match_def)

lemma space_seqs_eq: "space_seqs = map bytes [[9], [10], [11], [12], [13], [32], [194, 133], [194, 160], [225, 154, 128],
    [226, 128, 128], [226, 128, 129], [226, 128, 130], [226, 128, 131], [226, 128, 132], [226, 128, 133], [226, 128, 134],
    [226, 128, 135], [226, 128, 136], [226, 128, 137], [226, 128, 138], [226, 128, 168], [226, 128, 169], [226, 128, 175],
    [226, 129, 159], [227, 128, 128]]"
  by (simp add: space_seqs_def upt_rec)

lemma space_seq_heads: "q \<in> set space_seqs \<Longrightarrow> q \<noteq> [] \<and> length q \<le> 3 \<and>
    (hd q :: char) \<in> char_of ` {9 :: nat, 10, 11, 12, 13, 32, 194, 225, 226, 227}"
  by (auto simp: space_seqs_eq bytes_def)

lemma strip_prefix_None_iff:
  "strip_prefix ps s = None \<longleftrightarrow> (\<forall>p \<in> set ps. p \<noteq> [] \<longrightarrow> \<not> starts_with p s)"
  by (auto simp: strip_prefix_def find_None_iff)

lemma id_char_no_space:
  assumes "is_alnum c \<or> c \<in> set ''._-''"
  shows "c \<notin> char_of ` {9 :: nat, 10, 11, 12, 13, 32, 194, 225, 226, 227}"
proof
  assume "c \<in> char_of ` {9 :: nat, 10, 11, 12, 13, 32, 194, 225, 226, 227}"
  then have n: "(of_char c :: nat) \<in> {9, 10, 11, 12, 13, 32, 194, 225, 226, 227}"
    by (elim imageE) (simp only:, elim insertE emptyE, simp_all)
  have "(of_char c :: nat) \<in> {45, 46, 95} \<or> 48 \<le> (of_char c :: nat) \<and> (of_char c :: nat) \<le> 57 \<or>
      65 \<le> (of_char c :: nat) \<and> (of_char c :: nat) \<le> 90 \<or> 97 \<le> (of_char c :: nat) \<and> (of_char c :: nat) \<le> 122"
    using assms unfolding is_alnum_def is_upper_def is_lower_def is_digit_def in_range_def by (elim disjE) auto
  then show False using n by (elim insertE emptyE disjE) simp_all
qed

lemma trim_left_id:
  assumes "is_alnum c \<or> c \<in> set ''._-''"
  shows "trim_seqs space_seqs (c # s) = c # s"
proof -
  have "strip_prefix space_seqs (c # s) = None"
    unfolding strip_prefix_None_iff
  proof (intro ballI impI notI)
    fix q assume q: "q \<in> set space_seqs" "q \<noteq> []" "starts_with q (c # s)"
    from q(2,3) have "hd q = c" by (cases q) (simp_all add: starts_with_def)
    with space_seq_heads [OF q(1)] id_char_no_space [OF assms] show False by simp
  qed
  then show ?thesis by (simp add: trim_seqs.simps)
qed

lemma has_space_append: "q \<in> set space_seqs \<Longrightarrow> has_space (y @ q)"
proof (induction y)
  case Nil
  have "q \<noteq> []" using space_seq_heads [OF Nil] by (rule conjunct1)
  then obtain c s where q: "q = c # s" by (cases q) simp_all
  with Nil have "strip_prefix space_seqs (c # s) \<noteq> None"
    unfolding strip_prefix_None_iff using q by (auto simp: starts_with_def intro!: bexI [of _ q])
  with q show ?case by simp
qed simp

lemma trim_right_key:
  assumes "\<not> has_space k" "3 \<le> length k"
  shows "trim_seqs (map rev space_seqs) (rev (x @ k)) = rev (x @ k)"
proof -
  have "strip_prefix (map rev space_seqs) (rev (x @ k)) = None"
    unfolding strip_prefix_None_iff
  proof (intro ballI impI notI)
    fix p assume p: "p \<in> set (map rev space_seqs)" "starts_with p (rev (x @ k))"
    then obtain q where q: "q \<in> set space_seqs" "p = rev q" by auto
    have len: "length q \<le> length k" using space_seq_heads [OF q(1)] assms(2) by simp
    from p(2) len have "take (length q) (rev k) = rev q" by (simp add: starts_with_def q(2))
    then have "q = drop (length k - length q) k" by (simp add: take_rev)
    then have "k = take (length k - length q) k @ q" by (metis append_take_drop_id)
    with has_space_append [OF q(1)] assms(1) show False by metis
  qed
  then show ?thesis by (simp add: trim_seqs.simps)
qed

lemma join_last: "\<exists>x. strings_Join (ps @ [p]) sep = x @ p"
proof (induction ps)
  case (Cons q ps)
  then obtain x where "strings_Join (ps @ [p]) sep = x @ p" by blast
  then have "strings_Join ((q # ps) @ [p]) sep = (q @ sep @ x) @ p" by (cases ps) simp_all
  then show ?case by blast
qed simp

lemma TrimSpace_print:
  assumes "ps \<noteq> []" "list_all valid_pair ps"
  shows "TrimSpace (print_keys ps) = print_keys ps" "print_keys ps \<noteq> ''''"
proof -
  let ?f = "\<lambda>(i, k). i @ CHR '':'' # k"
  obtain qs i k where qs: "ps = qs @ [(i, k)]" using assms(1) by (metis prod.exhaust rev_exhaust)
  have k: "\<not> has_space k" "3 \<le> length k" using assms(2) by (simp_all add: qs valid_pair_def MinKeyLength_def)
  obtain x where x: "print_keys ps = x @ i @ CHR '':'' # k"
    using join_last [of "map ?f qs" "i @ CHR '':'' # k" "'',''"] by (auto simp: print_keys_def qs)
  obtain j k' rs where rs: "ps = (j, k') # rs" using assms(1) by (cases ps) auto
  have j: "keyAgentIDPattern j" using assms(2) by (simp add: rs valid_pair_def)
  then obtain c j' where c: "j = c # j'" "is_alnum c \<or> c \<in> set ''._-''"
    by (cases j) (auto simp: keyAgentIDPattern_def class_match_def)
  obtain s where s: "print_keys ps = c # s" by (cases rs) (auto simp: print_keys_def rs c(1))
  have "trim_seqs space_seqs (print_keys ps) = print_keys ps" unfolding s by (rule trim_left_id [OF c(2)])
  moreover have "trim_seqs (map rev space_seqs) (rev (print_keys ps)) = rev (print_keys ps)"
    unfolding x using trim_right_key [OF k, of "x @ i @ [CHR '':'']"] by simp
  ultimately show "TrimSpace (print_keys ps) = print_keys ps" by (simp add: TrimSpace_def)
  show "print_keys ps \<noteq> ''''" by (simp add: s)
qed

lemma parse_print:
  assumes "ps \<noteq> []" "valid_pairs ps" "list_all (\<lambda>p. CHR '','' \<notin> set (snd p)) ps"
  shows "ParseAgentKeys (print_keys ps) = Inr \<lparr>kr_entries = map entry_of ps\<rparr>"
proof -
  let ?f = "\<lambda>(i, k). i @ CHR '':'' # k"
  have v: "list_all valid_pair ps" using assms(2) by (simp add: valid_pairs_def)
  have "split_at (CHR '','') (print_keys ps) = map ?f ps"
    unfolding print_keys_def using assms(1,3) v
    by (intro split_at_join) (auto simp: list_all_iff valid_pair_def dest!: bspec keyAgentID_chars(2))
  moreover have "map (Cut (CHR '':'')) (map ?f ps) = map Some ps"
    using v by (auto simp: list_all_iff valid_pair_def intro!: Cut_first dest!: bspec keyAgentID_chars(1))
  ultimately show ?thesis
    unfolding ParseAgentKeys_iff TrimSpace_print(1) [OF assms(1) v]
    using TrimSpace_print(2) [OF assms(1) v] assms(2) by (intro conjI exI [of _ ps]) simp_all
qed

section \<open>Properties\<close>

text \<open>The pairs of agent ID and key that a specification lists.\<close>

definition configured :: "string \<Rightarrow> (string \<times> string) list" where
  "configured spec = List.map_filter (Cut (CHR '':'')) (split_at (CHR '','') (TrimSpace spec))"

lemma ParseAgentKeys_configured:
  assumes "ParseAgentKeys spec = Inr k"
  shows "k = \<lparr>kr_entries = map entry_of (configured spec)\<rparr>" "valid_pairs (configured spec)"
proof -
  from assms obtain ps where ps: "map (Cut (CHR '':'')) (split_at (CHR '','') (TrimSpace spec)) = map Some ps"
      "valid_pairs ps" "k = \<lparr>kr_entries = map entry_of ps\<rparr>" unfolding ParseAgentKeys_iff by blast
  have "List.map_filter f xs = ys" if "map f xs = map Some ys" for f :: "string \<Rightarrow> (string \<times> string) option" and xs ys
    using that by (induction xs arbitrary: ys) (auto simp: map_eq_Cons_conv map_filter_simps)
  with ps(1) have "configured spec = ps" by (simp add: configured_def)
  with ps show "k = \<lparr>kr_entries = map entry_of (configured spec)\<rparr>" "valid_pairs (configured spec)" by simp_all
qed

text \<open>
  C25. A keyring built from the configuration resolves a presented key to an agent exactly if the
  configuration lists, for that agent, a key with the same SHA-256 digest; agent IDs and digests
  are pairwise different, so the answer does not depend on the order of the entries.
\<close>

theorem auth_resolves:
  assumes "ParseAgentKeys spec = Inr k"
  shows "(Resolve k key = Some a \<longleftrightarrow> (\<exists>key'. (a, key') \<in> set (configured spec) \<and> Sum256 key' = Sum256 key)) \<and>
    distinct (AgentIDs k) \<and> distinct (map ke_digest (kr_entries k)) \<and> AgentIDs k = map fst (configured spec)"
proof -
  note c = ParseAgentKeys_configured [OF assms]
  have d: "distinct (map ke_digest (kr_entries k))" "AgentIDs k = map fst (configured spec)"
    using c by (simp_all add: valid_pairs_def comp_def AgentIDs_def)
  have "Resolve k key = Some a \<longleftrightarrow> (\<exists>key'. (a, key') \<in> set (configured spec) \<and> Sum256 key' = Sum256 key)"
    using Resolve_iff [OF d(1), of key a] arg_cong [OF c(1), of kr_entries] by force
  with d c(2) show ?thesis by (simp add: valid_pairs_def)
qed

definition sample_keys :: "(string \<times> string) list" where
  "sample_keys = [(''a'', ''0123456789abcdef'')]"

lemma sample_keys_ok: "valid_pairs sample_keys" "list_all (\<lambda>p. CHR '','' \<notin> set (snd p)) sample_keys"
  by (simp_all add: sample_keys_def valid_pairs_def valid_pair_def keyAgentIDPattern_def class_match_def is_alnum_def
      is_upper_def is_lower_def is_digit_def in_range_def of_char_def MinKeyLength_def maxKeyLength_def
      strip_prefix_None_iff space_seqs_eq bytes_def starts_with_def char_of_def)

theorem auth_resolves_witness:
  "Resolve \<lparr>kr_entries = map entry_of sample_keys\<rparr> ''0123456789abcdef'' = Some ''a''"
proof -
  have p: "ParseAgentKeys (print_keys sample_keys) = Inr \<lparr>kr_entries = map entry_of sample_keys\<rparr>"
    by (rule parse_print [OF _ sample_keys_ok]) (simp add: sample_keys_def)
  have "map entry_of (configured (print_keys sample_keys)) = map entry_of sample_keys"
    using ParseAgentKeys_configured(1) [OF p] by simp
  then have "\<exists>key'. (''a'', key') \<in> set (configured (print_keys sample_keys)) \<and> Sum256 key' = Sum256 ''0123456789abcdef''"
    by (cases "configured (print_keys sample_keys)") (auto simp: sample_keys_def entry_of_def)
  then show ?thesis using auth_resolves [OF p] by blast
qed

text \<open>
  Every list of agent IDs and keys that meets the documented rules (ID pattern, 16 to 256 bytes,
  no white space, no comma, nothing used twice) is accepted in its printed form, entry by entry.
\<close>

theorem auth_roundtrip:
  assumes "ps \<noteq> []" "valid_pairs ps" "list_all (\<lambda>p. CHR '','' \<notin> set (snd p)) ps"
  shows "ParseAgentKeys (print_keys ps) = Inr \<lparr>kr_entries = map entry_of ps\<rparr>"
  by (rule parse_print [OF assms])

theorem auth_roundtrip_witness:
  "ParseAgentKeys ''a:0123456789abcdef'' = Inr \<lparr>kr_entries = [\<lparr>ke_agentID = ''a'', ke_digest = Sum256 ''0123456789abcdef''\<rparr>]\<rparr>"
  using auth_roundtrip [OF _ sample_keys_ok] by (simp add: sample_keys_def print_keys_def entry_of_def)

end
