(* ===== verification/Decision.thy ===== *)
theory Decision
  imports Policy
begin

text \<open>
  \<^verbatim>\<open>internal/decision\<close>, the pure part: the canonical request hash (\<^verbatim>\<open>hash.go\<close>), the policy
  evaluation and its repetition in the workflow (\<^verbatim>\<open>evaluate.go\<close>), and the check that an
  execution is backed by a recorded ingress ALLOW (\<^verbatim>\<open>ingress.go\<close>).
\<close>

section \<open>The request hash\<close>

definition requestHashDomain :: string where
  "requestHashDomain = ''sentrygate.request.v1''"

text \<open>What \<^verbatim>\<open>RequestHash\<close> writes into the hash: the domain, then each field behind its length.\<close>

definition hash_field :: "string \<Rightarrow> string" where
  "hash_field f = be64 (int (length f)) @ f"

definition request_bytes :: "AgentProposal \<Rightarrow> string" where
  "request_bytes p = requestHashDomain @
     concat (map hash_field [p_ID p, p_Type p, p_TargetID p, p_Payload p])"

definition RequestHash :: "AgentProposal \<Rightarrow> string" where
  "RequestHash p = EncodeToString (Sum256 (request_bytes p))"

section \<open>Evaluation\<close>

text \<open>The zero value of an \<^verbatim>\<open>EnvironmentMode\<close> variable is the empty string.\<close>

definition Evaluate :: "Snapshot option \<Rightarrow> string \<Rightarrow> AgentProposal \<Rightarrow> Decision" where
  "Evaluate snap agentID p = (case snap of
       None \<Rightarrow> zero_Decision\<lparr>d_Verdict := VerdictDeny, d_Reasons := [ReasonPolicyUnavailable]\<rparr>
     | Some s \<Rightarrow>
         (let d = zero_Decision\<lparr>d_PolicyVersion := s_version s, d_PolicyDigest := s_digest s\<rparr>;
              agentKnown = HasAgent s agentID;
              deny = (if \<not> agentKnown then [ReasonAgentUnknown] else []);
              commandKnown = HasCommand s (p_Type p);
              deny = deny @ (if \<not> commandKnown then [ReasonCommandUnknown] else []);
              deny = deny @ (if agentKnown \<and> commandKnown \<and> \<not> AgentMayUse s agentID (p_Type p)
                then [ReasonCommandNotPermitted] else []);
              target = s_targets s (p_TargetID p);
              deny = deny @ (case target of
                  None \<Rightarrow> [ReasonTargetUnregistered]
                | Some t \<Rightarrow> if t_Protected t then [ReasonTargetProtected] else []);
              d = (case target of None \<Rightarrow> d | Some t \<Rightarrow> d\<lparr>d_Environment := t_Environment t\<rparr>);
              mode = (case target of
                  None \<Rightarrow> Mode_other ''''
                | Some t \<Rightarrow> (case s_environments s (t_Environment t) of
                      None \<Rightarrow> Mode_other '''' | Some m \<Rightarrow> m));
              deny = deny @ (if target \<noteq> None \<and> mode = ModeDeny then [ReasonEnvironmentDenied] else [])
          in if deny \<noteq> [] then d\<lparr>d_Verdict := VerdictDeny, d_Reasons := deny\<rparr>
             else if mode = ModeRequireApproval
             then d\<lparr>d_Verdict := VerdictRequireApproval, d_Reasons := [ReasonApprovalRequired]\<rparr>
             else if mode = ModeAllow
             then d\<lparr>d_Verdict := VerdictAllow, d_Reasons := [ReasonEnvironmentAllowed]\<rparr>
             else d\<lparr>d_Verdict := VerdictDeny, d_Reasons := [ReasonPolicyUnavailable]\<rparr>))"

definition Revalidate :: "Snapshot option \<Rightarrow> ExecutionRequest \<Rightarrow> Decision" where
  "Revalidate snap req =
     (let d = Evaluate snap (er_AgentID req) (er_Proposal req) in
      if RequestHash (er_Proposal req) \<noteq> er_RequestHash req
      then d\<lparr>d_Verdict := VerdictDeny,
             d_Reasons := (if d_Verdict d \<noteq> VerdictDeny then [] else d_Reasons d)
               @ [ReasonRequestHashMismatch]\<rparr>
      else d)"

text \<open>The text of \<^verbatim>\<open>crypto/rand\<close> is an argument.\<close>

definition NewDecisionID :: "string \<Rightarrow> string" where
  "NewDecisionID text = ''dec_'' @ text"

section \<open>Ingress verification\<close>

definition ingress_not_found :: go_error where
  "ingress_not_found = sentinel_error ErrIngressDecisionNotFound ''ingress decision not found''"

definition ingress_wrong_stage :: go_error where
  "ingress_wrong_stage = sentinel_error ErrIngressWrongStage ''ingress decision has wrong stage''"

definition ingress_not_allowed :: go_error where
  "ingress_not_allowed = sentinel_error ErrIngressNotAllowed ''ingress decision verdict is not ALLOW''"

definition ingress_agent_mismatch :: go_error where
  "ingress_agent_mismatch = sentinel_error ErrIngressAgentMismatch
     ''ingress decision agent does not match execution agent''"

definition ingress_hash_mismatch :: go_error where
  "ingress_hash_mismatch = sentinel_error ErrIngressHashMismatch
     ''ingress decision request hash does not match proposal''"

definition ingress_identity_mismatch :: go_error where
  "ingress_identity_mismatch = sentinel_error ErrIngressIdentityMismatch
     ''ingress decision identity does not match execution''"

definition VerifyIngress :: "DecisionRecord \<Rightarrow> ExecutionRequest \<Rightarrow> string \<Rightarrow> go_error option" where
  "VerifyIngress rec req workflowID =
     (if dr_DecisionID rec = '''' \<or> dr_DecisionID rec \<noteq> er_IngressDecisionID req
      then Some ingress_not_found
      else if dr_Stage rec \<noteq> StageIngress
      then Some (wrap_error ingress_wrong_stage
        (err_text ingress_wrong_stage @ '': got '' @ DecisionStage_str (dr_Stage rec)))
      else if dr_Verdict rec \<noteq> VerdictAllow
      then Some (wrap_error ingress_not_allowed
        (err_text ingress_not_allowed @ '': got '' @ Verdict_str (dr_Verdict rec)))
      else if dr_AgentID rec \<noteq> er_AgentID req then Some ingress_agent_mismatch
      else if dr_RequestHash rec \<noteq> RequestHash (er_Proposal req) then Some ingress_hash_mismatch
      else if dr_ProposalID rec \<noteq> p_ID (er_Proposal req)
      then Some (wrap_error ingress_identity_mismatch
        (err_text ingress_identity_mismatch @ '': proposal ID''))
      else if dr_WorkflowID rec = '''' \<or> dr_WorkflowID rec \<noteq> workflowID
      then Some (wrap_error ingress_identity_mismatch
        (err_text ingress_identity_mismatch @ '': workflow ID''))
      else None)"

text \<open>
  \<^verbatim>\<open>CheckIngress\<close> on a store whose \<^verbatim>\<open>GetDecision\<close> is \<open>get\<close>: a missing record is an ingress
  failure, any other load error is passed on.
\<close>

definition CheckIngress ::
  "(string \<Rightarrow> go_error + DecisionRecord) \<Rightarrow> ExecutionRequest \<Rightarrow> string \<Rightarrow> go_error option" where
  "CheckIngress get req workflowID =
     (if er_IngressDecisionID req = '''' then Some ingress_not_found
      else case get (er_IngressDecisionID req) of
          Inl e \<Rightarrow> if err_is e = ErrDecisionNotFound then Some ingress_not_found
                   else Some (wrap_error e (''load ingress decision: '' @ err_text e))
        | Inr rec \<Rightarrow> VerifyIngress rec req workflowID)"

definition IngressReason :: "go_error \<Rightarrow> ReasonCode option" where
  "IngressReason e = (case err_is e of
       ErrIngressDecisionNotFound \<Rightarrow> Some ReasonIngressDecisionNotFound
     | ErrIngressWrongStage \<Rightarrow> Some ReasonIngressDecisionWrongStage
     | ErrIngressNotAllowed \<Rightarrow> Some ReasonIngressDecisionNotAllow
     | ErrIngressAgentMismatch \<Rightarrow> Some ReasonIngressAgentMismatch
     | ErrIngressHashMismatch \<Rightarrow> Some ReasonIngressHashMismatch
     | ErrIngressIdentityMismatch \<Rightarrow> Some ReasonIngressIdentityMismatch
     | _ \<Rightarrow> None)"

section \<open>Facts on the request hash\<close>

lemma hash_field_append_inj:
  assumes "hash_field f @ r = hash_field g @ s" "length f < 2 ^ 64" "length g < 2 ^ 64"
  shows "f = g \<and> r = s"
proof -
  from assms(1) have pre: "be64 (int (length f)) = be64 (int (length g))" and tl: "f @ r = g @ s"
    by (simp_all add: hash_field_def append_eq_append_conv)
  have "int (length f) = int (length g)"
  proof (rule be64_inj [OF pre])
    show "int (length f) < 2 ^ 64" "int (length g) < 2 ^ 64"
      using assms(2,3) by (simp_all add: nat_less_iff [symmetric] del: of_nat_less_iff)
  qed simp_all
  with tl show ?thesis by (simp add: append_eq_append_conv)
qed

definition sized_proposal :: "AgentProposal \<Rightarrow> bool" where
  "sized_proposal p \<longleftrightarrow> (\<forall>f \<in> {p_ID p, p_Type p, p_TargetID p, p_Payload p}. length f < 2 ^ 64)"

lemma hash_fields_inj:
  assumes "length fs = length gs" "concat (map hash_field fs) = concat (map hash_field gs)"
    and "\<forall>f \<in> set fs. length f < 2 ^ 64" "\<forall>g \<in> set gs. length g < 2 ^ 64"
  shows "fs = gs"
  using assms
proof (induction fs gs rule: list_induct2)
  case (Cons f fs g gs)
  from Cons.prems have "f = g \<and> concat (map hash_field fs) = concat (map hash_field gs)"
    by (intro hash_field_append_inj) simp_all
  with Cons show ?case by simp
qed simp

lemma request_bytes_inj:
  assumes "request_bytes p = request_bytes q" "sized_proposal p" "sized_proposal q"
  shows "p = q"
proof -
  have "[p_ID p, p_Type p, p_TargetID p, p_Payload p] = [p_ID q, p_Type q, p_TargetID q, p_Payload q]"
    using assms by (intro hash_fields_inj) (simp_all add: request_bytes_def sized_proposal_def)
  then show ?thesis by (cases p; cases q) simp
qed

lemma RequestHash_eq_iff: "RequestHash p = RequestHash q \<longleftrightarrow> Sum256 (request_bytes p) = Sum256 (request_bytes q)"
  by (simp add: RequestHash_def EncodeToString_inj)

lemma RequestHash_nonempty [simp]: "RequestHash p \<noteq> ''''"
proof
  assume "RequestHash p = ''''"
  then have "length (RequestHash p) = 0" by simp
  then show False by (simp add: RequestHash_def length_EncodeToString length_Sum256)
qed

section \<open>The decision rules\<close>

text \<open>
  The table of decision rules, read declaratively: which deny reasons apply to a proposal, in
  the order of the checks.
\<close>

fun applies :: "Snapshot \<Rightarrow> string \<Rightarrow> AgentProposal \<Rightarrow> ReasonCode \<Rightarrow> bool" where
  "applies s a p ReasonAgentUnknown \<longleftrightarrow> s_agents s a = None"
| "applies s a p ReasonCommandUnknown \<longleftrightarrow> p_Type p \<notin> s_commands s"
| "applies s a p ReasonCommandNotPermitted \<longleftrightarrow>
     (case s_agents s a of None \<Rightarrow> False | Some cs \<Rightarrow> p_Type p \<in> s_commands s \<and> p_Type p \<notin> cs)"
| "applies s a p ReasonTargetUnregistered \<longleftrightarrow> s_targets s (p_TargetID p) = None"
| "applies s a p ReasonTargetProtected \<longleftrightarrow>
     (case s_targets s (p_TargetID p) of None \<Rightarrow> False | Some t \<Rightarrow> t_Protected t)"
| "applies s a p ReasonEnvironmentDenied \<longleftrightarrow>
     (case s_targets s (p_TargetID p) of None \<Rightarrow> False
      | Some t \<Rightarrow> s_environments s (t_Environment t) = Some ModeDeny)"
| "applies s a p _ \<longleftrightarrow> False"

definition deny_rules :: "ReasonCode list" where
  "deny_rules = [ReasonAgentUnknown, ReasonCommandUnknown, ReasonCommandNotPermitted,
     ReasonTargetUnregistered, ReasonTargetProtected, ReasonEnvironmentDenied]"

definition deny_reasons :: "Snapshot \<Rightarrow> string \<Rightarrow> AgentProposal \<Rightarrow> ReasonCode list" where
  "deny_reasons s a p = filter (applies s a p) deny_rules"

definition target_mode :: "Snapshot \<Rightarrow> AgentProposal \<Rightarrow> EnvironmentMode option" where
  "target_mode s p = (case s_targets s (p_TargetID p) of None \<Rightarrow> None
     | Some t \<Rightarrow> s_environments s (t_Environment t))"

text \<open>The evaluation is the table: deny reasons first, then the environment's rule.\<close>

lemma Evaluate_table:
  "(d_Verdict (Evaluate (Some s) a p), d_Reasons (Evaluate (Some s) a p)) =
     (if deny_reasons s a p \<noteq> [] then (VerdictDeny, deny_reasons s a p)
      else if target_mode s p = Some ModeRequireApproval then (VerdictRequireApproval, [ReasonApprovalRequired])
      else if target_mode s p = Some ModeAllow then (VerdictAllow, [ReasonEnvironmentAllowed])
      else (VerdictDeny, [ReasonPolicyUnavailable]))"
  by (cases "s_agents s a"; cases "s_targets s (p_TargetID p)")
    (auto simp: Evaluate_def deny_reasons_def deny_rules_def target_mode_def HasAgent_def HasCommand_def
      AgentMayUse_def Let_def split: option.splits)

lemmas Evaluate_verdict = Evaluate_table [THEN arg_cong [where f = fst], simplified fst_conv]
lemmas Evaluate_reasons = Evaluate_table [THEN arg_cong [where f = snd], simplified snd_conv]

lemma Evaluate_None [simp]:
  "d_Verdict (Evaluate None a p) = VerdictDeny" "d_Reasons (Evaluate None a p) = [ReasonPolicyUnavailable]"
  by (simp_all add: Evaluate_def)

lemma Evaluate_allow_iff:
  "d_Verdict (Evaluate snap a p) = VerdictAllow \<longleftrightarrow>
     (\<exists>s cs t. snap = Some s \<and> s_agents s a = Some cs \<and> p_Type p \<in> s_commands s \<and> p_Type p \<in> cs \<and>
        s_targets s (p_TargetID p) = Some t \<and> \<not> t_Protected t \<and>
        s_environments s (t_Environment t) = Some ModeAllow)"
proof (cases snap)
  case (Some s)
  show ?thesis unfolding Some Evaluate_verdict
    by (cases "s_agents s a"; cases "s_targets s (p_TargetID p)")
      (auto simp: deny_reasons_def deny_rules_def target_mode_def)
qed simp

lemma Evaluate_verdicts: "d_Verdict (Evaluate snap a p) \<in> {VerdictAllow, VerdictDeny, VerdictRequireApproval}"
  by (cases snap) (auto simp: Evaluate_verdict)

text \<open>On a validated policy the fail-closed default is never taken.\<close>

lemma wf_target_mode:
  assumes "wf_snapshot s" "deny_reasons s a p = []"
  shows "target_mode s p \<in> {Some ModeAllow, Some ModeRequireApproval}"
proof -
  from assms(2) obtain t where t: "s_targets s (p_TargetID p) = Some t"
    "s_environments s (t_Environment t) \<noteq> Some ModeDeny"
    by (auto simp: deny_reasons_def deny_rules_def split: option.splits if_splits)
  with assms(1) obtain m where "s_environments s (t_Environment t) = Some m"
    "m \<in> {ModeAllow, ModeRequireApproval, ModeDeny}"
    unfolding wf_snapshot_def by blast
  with t show ?thesis by (auto simp: target_mode_def)
qed

lemma Revalidate_allow_iff:
  "d_Verdict (Revalidate snap req) = VerdictAllow \<longleftrightarrow>
     d_Verdict (Evaluate snap (er_AgentID req) (er_Proposal req)) = VerdictAllow \<and>
     er_RequestHash req = RequestHash (er_Proposal req)"
  by (auto simp: Revalidate_def Let_def)

section \<open>Facts on ingress verification\<close>

lemmas ingress_error_defs = ingress_not_found_def ingress_wrong_stage_def ingress_not_allowed_def
  ingress_agent_mismatch_def ingress_hash_mismatch_def ingress_identity_mismatch_def

lemma VerifyIngress_None_iff:
  "VerifyIngress rec req wid = None \<longleftrightarrow>
     dr_DecisionID rec = er_IngressDecisionID req \<and> er_IngressDecisionID req \<noteq> '''' \<and>
     dr_Stage rec = StageIngress \<and> dr_Verdict rec = VerdictAllow \<and> dr_AgentID rec = er_AgentID req \<and>
     dr_RequestHash rec = RequestHash (er_Proposal req) \<and> dr_ProposalID rec = p_ID (er_Proposal req) \<and>
     dr_WorkflowID rec = wid \<and> wid \<noteq> ''''"
  by (auto simp: VerifyIngress_def)

lemma VerifyIngress_reason: "VerifyIngress rec req wid = Some e \<Longrightarrow> IngressReason e \<noteq> None"
  by (auto simp: VerifyIngress_def IngressReason_def ingress_error_defs split: if_splits)

lemma CheckIngress_None_iff:
  "CheckIngress get req wid = None \<longleftrightarrow>
     (\<exists>rec. er_IngressDecisionID req \<noteq> '''' \<and> get (er_IngressDecisionID req) = Inr rec \<and>
        VerifyIngress rec req wid = None)"
  by (auto simp: CheckIngress_def split: sum.splits)

text \<open>
  A failed check has a reason exactly if the record was read or is missing; a load error that is
  not an ingress failure has none.
\<close>

lemma CheckIngress_reason:
  assumes "CheckIngress get req wid = Some e"
  shows "IngressReason e \<noteq> None \<or>
    (\<exists>e'. get (er_IngressDecisionID req) = Inl e' \<and> err_is e' \<noteq> ErrDecisionNotFound \<and> err_is e = err_is e')"
  using assms VerifyIngress_reason
  by (auto simp: CheckIngress_def IngressReason_def ingress_error_defs split: if_splits sum.splits)

section \<open>Properties\<close>

text \<open>
  The policy allows a proposal exactly if there is a policy, it knows the agent and the
  command, the agent may use the command, the target is registered and not protected, and its
  environment is in mode \<^verbatim>\<open>allow\<close>.
\<close>

theorem evaluate_allow:
  "d_Verdict (Evaluate snap a p) = VerdictAllow \<longleftrightarrow>
     (\<exists>s cs t. snap = Some s \<and> s_agents s a = Some cs \<and> p_Type p \<in> s_commands s \<and> p_Type p \<in> cs \<and>
        s_targets s (p_TargetID p) = Some t \<and> \<not> t_Protected t \<and>
        s_environments s (t_Environment t) = Some ModeAllow)"
  by (rule Evaluate_allow_iff)

text \<open>
  C17. Verdict and reasons for every policy and proposal: all reasons to deny, in the order of the
  checks; otherwise the mode of the target's environment decides, and anything else is denied. Without
  a policy everything is denied.
\<close>

theorem evaluate_complete:
  "(d_Verdict (Evaluate snap a p), d_Reasons (Evaluate snap a p)) = (case snap of
       None \<Rightarrow> (VerdictDeny, [ReasonPolicyUnavailable])
     | Some s \<Rightarrow>
         if deny_reasons s a p \<noteq> [] then (VerdictDeny, deny_reasons s a p)
         else if target_mode s p = Some ModeRequireApproval then (VerdictRequireApproval, [ReasonApprovalRequired])
         else if target_mode s p = Some ModeAllow then (VerdictAllow, [ReasonEnvironmentAllowed])
         else (VerdictDeny, [ReasonPolicyUnavailable]))"
proof (cases snap)
  case (Some s)
  show ?thesis unfolding Some option.case by (rule Evaluate_table)
qed simp

text \<open>
  Re-validation allows an execution exactly if the current policy allows the proposal and the
  proposal still hashes to the value recorded at ingress.
\<close>

theorem revalidate_allow:
  "d_Verdict (Revalidate snap req) = VerdictAllow \<longleftrightarrow>
     d_Verdict (Evaluate snap (er_AgentID req) (er_Proposal req)) = VerdictAllow \<and>
     er_RequestHash req = RequestHash (er_Proposal req)"
  by (rule Revalidate_allow_iff)

text \<open>
  C18. An execution passes the ingress check exactly if the store returns, for its decision ID, an
  ingress ALLOW of the same agent for the same proposal ID, the same request hash and this very
  workflow.
\<close>

theorem ingress_checked:
  "CheckIngress get req wid = None \<longleftrightarrow>
     (\<exists>rec. get (er_IngressDecisionID req) = Inr rec \<and> er_IngressDecisionID req \<noteq> '''' \<and>
        dr_DecisionID rec = er_IngressDecisionID req \<and> dr_Stage rec = StageIngress \<and>
        dr_Verdict rec = VerdictAllow \<and> dr_AgentID rec = er_AgentID req \<and>
        dr_RequestHash rec = RequestHash (er_Proposal req) \<and> dr_ProposalID rec = p_ID (er_Proposal req) \<and>
        dr_WorkflowID rec = wid \<and> wid \<noteq> '''')"
  by (auto simp: CheckIngress_None_iff VerifyIngress_None_iff)

text \<open>
  C26. The bytes that are hashed determine the proposal: no two proposals whose fields are shorter
  than \<open>2^64\<close> bytes are encoded alike, so their hashes agree only if SHA-256 itself collides.
\<close>

theorem request_hash_binds:
  assumes "sized_proposal p" "sized_proposal q"
  shows "(request_bytes p = request_bytes q \<longleftrightarrow> p = q) \<and>
    (RequestHash p = RequestHash q \<longleftrightarrow> Sum256 (request_bytes p) = Sum256 (request_bytes q))"
  using request_bytes_inj [OF _ assms] by (auto simp: RequestHash_eq_iff)

text \<open>Moving a byte from one field to the next changes the encoding.\<close>

theorem request_hash_binds_witness:
  "request_bytes \<lparr>p_ID = ''ab'', p_Type = ''C'', p_TargetID = ''t'', p_Payload = ''''\<rparr> \<noteq>
   request_bytes \<lparr>p_ID = ''a'', p_Type = ''bC'', p_TargetID = ''t'', p_Payload = ''''\<rparr>"
  using request_hash_binds [of "\<lparr>p_ID = ''ab'', p_Type = ''C'', p_TargetID = ''t'', p_Payload = ''''\<rparr>"
      "\<lparr>p_ID = ''a'', p_Type = ''bC'', p_TargetID = ''t'', p_Payload = ''''\<rparr>"]
  by (simp add: sized_proposal_def)

end
