(* ===== verification/Proxy.thy ===== *)
theory Proxy
  imports Decision
begin

text \<open>
  \<^verbatim>\<open>proxy/proxy.go\<close>: the pool of proposal envelopes and the slot pool that bounds how many
  evaluations run at once. Requests run concurrently, so both pools are shared state: an
  envelope is an address in an explicit heap, and \<open>px_step\<close> interleaves the requests at the
  points where they touch the pools, the heap or the policy in force. \<^verbatim>\<open>sync.Pool\<close> may hand out
  any envelope that was put back, make a new one, or forget one at any time.
\<close>

section \<open>Envelopes\<close>

definition zero_AgentProposal :: AgentProposal where
  "zero_AgentProposal = \<lparr>p_ID = '''', p_Type = '''', p_TargetID = '''', p_Payload = ''''\<rparr>"

record envelopes =
  ev_heap :: "nat \<Rightarrow> AgentProposal"
  ev_next :: nat
  ev_free :: "nat list"

definition no_envelopes :: envelopes where
  "no_envelopes = \<lparr>ev_heap = (\<lambda>_. zero_AgentProposal), ev_next = 0, ev_free = []\<rparr>"

text \<open>\<^verbatim>\<open>proposalPool.Get\<close>: the envelope \<open>pick\<close> of the pool, or a new one.\<close>

definition pool_Get :: "nat option \<Rightarrow> envelopes \<Rightarrow> nat \<times> envelopes" where
  "pool_Get pick h = (case pick of
       Some a \<Rightarrow> (a, h\<lparr>ev_free := remove1 a (ev_free h)\<rparr>)
     | None \<Rightarrow> (ev_next h, h\<lparr>ev_heap := (ev_heap h)(ev_next h := zero_AgentProposal), ev_next := Suc (ev_next h)\<rparr>))"

definition AcquireProposal :: "nat option \<Rightarrow> envelopes \<Rightarrow> nat \<times> envelopes" where
  "AcquireProposal pick h =
     (let (p, h) = pool_Get pick h in (p, h\<lparr>ev_heap := (ev_heap h)(p := zero_AgentProposal)\<rparr>))"

definition ReleaseProposal :: "nat option \<Rightarrow> envelopes \<Rightarrow> envelopes" where
  "ReleaseProposal ref h = (case ref of
       None \<Rightarrow> h
     | Some p \<Rightarrow> h\<lparr>ev_heap := (ev_heap h)(p := zero_AgentProposal), ev_free := p # ev_free h\<rparr>)"

section \<open>The proxy\<close>

text \<open>\<open>sp_policy\<close> is what \<^verbatim>\<open>policy.Current()\<close> returns now; \<open>sp_used\<close> the length of the slot channel.\<close>

record SentryProxy =
  sp_policy :: "Snapshot option"
  sp_cap :: nat
  sp_used :: nat

definition NewSentryProxy :: "Snapshot option \<Rightarrow> int \<Rightarrow> SentryProxy" where
  "NewSentryProxy src maxParallel =
     (let maxParallel = (if maxParallel < 1 then 1 else maxParallel)
      in \<lparr>sp_policy = src, sp_cap = nat maxParallel, sp_used = 0\<rparr>)"

definition MaxParallel :: "SentryProxy \<Rightarrow> nat" where
  "MaxParallel p = sp_cap p"

definition Proxy_Evaluate :: "SentryProxy \<Rightarrow> string \<Rightarrow> AgentProposal \<Rightarrow> Decision" where
  "Proxy_Evaluate p agentID prop = Evaluate (sp_policy p) agentID prop"

text \<open>
  \<^verbatim>\<open>EvaluateThrottled\<close> seen from its caller: \<open>ended\<close> is the text of \<^verbatim>\<open>ctx.Err()\<close> if the context
  ends before a slot is free, and \<open>p\<close> the proxy at the moment of the evaluation.
\<close>

definition EvaluateThrottled ::
  "SentryProxy \<Rightarrow> string option \<Rightarrow> string \<Rightarrow> AgentProposal \<Rightarrow> go_error + Decision" where
  "EvaluateThrottled p ended agentID prop = (case ended of
       Some e \<Rightarrow> Inl (errors_New e)
     | None \<Rightarrow> Inr (Proxy_Evaluate p agentID prop))"

section \<open>Concurrent requests\<close>

text \<open>
  A request acquires an envelope, decodes its body into it, and calls \<^verbatim>\<open>EvaluateThrottled\<close>: it looks
  at its context once, waits for a slot or the end of the context, evaluates and gives the slot back.
  At its end, whichever way it got there, it gives back the envelope.
\<close>

datatype phase =
    Start
  | Acquired nat
  | Decoded nat
  | Waiting nat
  | Slot nat
  | Judged nat Decision
  | Answered nat "go_error + Decision"
  | Returned "go_error + Decision"

text \<open>\<open>th_err\<close> is \<^verbatim>\<open>ctx.Err()\<close> of the request: nothing until the context ends, its text from then on.\<close>

record thread =
  th_agent :: string
  th_body :: string
  th_err :: "string option"
  th_phase :: phase

record proxy_state =
  px_env :: envelopes
  px_proxy :: SentryProxy
  px_threads :: "thread list"
  px_policies :: "Snapshot option list"

abbreviation at_phase :: "proxy_state \<Rightarrow> nat \<Rightarrow> phase \<Rightarrow> bool" where
  "at_phase s i ph \<equiv> i < length (px_threads s) \<and> th_phase (px_threads s ! i) = ph"

definition go_to :: "nat \<Rightarrow> phase \<Rightarrow> proxy_state \<Rightarrow> proxy_state" where
  "go_to i ph s = s\<lparr>px_threads := (px_threads s)[i := (px_threads s ! i)\<lparr>th_phase := ph\<rparr>]\<rparr>"

definition ctx_end :: "nat \<Rightarrow> string \<Rightarrow> proxy_state \<Rightarrow> proxy_state" where
  "ctx_end i e s = s\<lparr>px_threads := (px_threads s)[i := (px_threads s ! i)\<lparr>th_err := Some e\<rparr>]\<rparr>"

definition write_to :: "nat \<Rightarrow> AgentProposal \<Rightarrow> proxy_state \<Rightarrow> proxy_state" where
  "write_to a p s = s\<lparr>px_env := (px_env s)\<lparr>ev_heap := (ev_heap (px_env s))(a := p)\<rparr>\<rparr>"

text \<open>
  \<open>dec body p\<close> is the error of the decoder, if any, and what it leaves in an envelope that held
  \<open>p\<close>: fields that the body does not mention keep their value, and a failed decode may have written some.
\<close>

type_synonym decoder = "string \<Rightarrow> AgentProposal \<Rightarrow> go_error option \<times> AgentProposal"

text \<open>
  A step is one of a request itself, the end of its context, or something outside: the pool forgets
  an envelope, or the policy is replaced.
\<close>

datatype actor = Own nat | Expire nat | Outside

inductive px_step :: "decoder \<Rightarrow> actor \<Rightarrow> proxy_state \<Rightarrow> proxy_state \<Rightarrow> bool" for dec where
  acquire: "at_phase s i Start \<Longrightarrow> case_option True (\<lambda>a. a \<in> set (ev_free (px_env s))) pick \<Longrightarrow>
    AcquireProposal pick (px_env s) = (a, h) \<Longrightarrow> px_step dec (Own i) s (go_to i (Acquired a) (s\<lparr>px_env := h\<rparr>))"
| decode: "at_phase s i (Acquired a) \<Longrightarrow> dec (th_body (px_threads s ! i)) (ev_heap (px_env s) a) = (None, p) \<Longrightarrow>
    px_step dec (Own i) s (go_to i (Decoded a) (write_to a p s))"
| reject: "at_phase s i (Acquired a) \<Longrightarrow> dec (th_body (px_threads s ! i)) (ev_heap (px_env s) a) = (Some x, p) \<Longrightarrow>
    px_step dec (Own i) s (go_to i (Answered a (Inl x)) (write_to a p s))"
| refuse: "at_phase s i (Decoded a) \<Longrightarrow> th_err (px_threads s ! i) = Some e \<Longrightarrow>
    px_step dec (Own i) s (go_to i (Answered a (Inl (errors_New e))) s)"
| await: "at_phase s i (Decoded a) \<Longrightarrow> th_err (px_threads s ! i) = None \<Longrightarrow>
    px_step dec (Own i) s (go_to i (Waiting a) s)"
| ended: "at_phase s i (Waiting a) \<Longrightarrow> th_err (px_threads s ! i) = Some e \<Longrightarrow>
    px_step dec (Own i) s (go_to i (Answered a (Inl (errors_New e))) s)"
| enter: "at_phase s i (Waiting a) \<Longrightarrow> sp_used (px_proxy s) < sp_cap (px_proxy s) \<Longrightarrow>
    px_step dec (Own i) s (go_to i (Slot a) (s\<lparr>px_proxy := (px_proxy s)\<lparr>sp_used := sp_used (px_proxy s) + 1\<rparr>\<rparr>))"
| judge: "at_phase s i (Slot a) \<Longrightarrow>
    px_step dec (Own i) s (go_to i (Judged a (Proxy_Evaluate (px_proxy s) (th_agent (px_threads s ! i)) (ev_heap (px_env s) a))) s)"
| leave: "at_phase s i (Judged a d) \<Longrightarrow>
    px_step dec (Own i) s (go_to i (Answered a (Inr d)) (s\<lparr>px_proxy := (px_proxy s)\<lparr>sp_used := sp_used (px_proxy s) - 1\<rparr>\<rparr>))"
| return: "at_phase s i (Answered a r) \<Longrightarrow>
    px_step dec (Own i) s (go_to i (Returned r) (s\<lparr>px_env := ReleaseProposal (Some a) (px_env s)\<rparr>))"
| expire: "i < length (px_threads s) \<Longrightarrow> th_err (px_threads s ! i) = None \<Longrightarrow> px_step dec (Expire i) s (ctx_end i e s)"
| forget: "a \<in> set (ev_free (px_env s)) \<Longrightarrow>
    px_step dec Outside s (s\<lparr>px_env := (px_env s)\<lparr>ev_free := remove1 a (ev_free (px_env s))\<rparr>\<rparr>)"
| reload: "px_step dec Outside s (s\<lparr>px_proxy := (px_proxy s)\<lparr>sp_policy := snap\<rparr>, px_policies := snap # px_policies s\<rparr>)"

definition px_start :: "Snapshot option \<Rightarrow> int \<Rightarrow> (string \<times> string) list \<Rightarrow> proxy_state" where
  "px_start src n reqs = \<lparr>px_env = no_envelopes, px_proxy = NewSentryProxy src n,
     px_threads = map (\<lambda>(a, b). \<lparr>th_agent = a, th_body = b, th_err = None, th_phase = Start\<rparr>) reqs, px_policies = [src]\<rparr>"

text \<open>What happened from \<open>s0\<close> on, and what can be reached.\<close>

inductive px_trace :: "decoder \<Rightarrow> proxy_state \<Rightarrow> actor list \<Rightarrow> proxy_state \<Rightarrow> bool" for dec s0 where
  px_none: "px_trace dec s0 [] s0"
| px_next: "px_trace dec s0 ls s \<Longrightarrow> px_step dec l s s' \<Longrightarrow> px_trace dec s0 (ls @ [l]) s'"

inductive px_reach :: "decoder \<Rightarrow> proxy_state \<Rightarrow> proxy_state \<Rightarrow> bool" for dec s0 where
  px_init: "px_reach dec s0 s0"
| px_more: "px_reach dec s0 s \<Longrightarrow> px_step dec l s s' \<Longrightarrow> px_reach dec s0 s'"

section \<open>Invariant\<close>

fun owned :: "phase \<Rightarrow> nat option" where
  "owned (Acquired a) = Some a"
| "owned (Decoded a) = Some a"
| "owned (Waiting a) = Some a"
| "owned (Slot a) = Some a"
| "owned (Judged a d) = Some a"
| "owned (Answered a r) = Some a"
| "owned _ = None"

fun slots :: "phase \<Rightarrow> nat" where
  "slots (Slot a) = 1"
| "slots (Judged a d) = 1"
| "slots _ = 0"

definition slots_held :: "proxy_state \<Rightarrow> nat" where
  "slots_held s = sum_list (map (\<lambda>t. slots (th_phase t)) (px_threads s))"

text \<open>
  A decision is an evaluation of the request's own proposal under a policy that was in force, an error
  that of its own body or its own context.
\<close>

definition own_decision :: "decoder \<Rightarrow> Snapshot option list \<Rightarrow> thread \<Rightarrow> Decision \<Rightarrow> bool" where
  "own_decision dec snaps t d \<longleftrightarrow>
     (\<exists>snap \<in> set snaps. \<exists>p. dec (th_body t) zero_AgentProposal = (None, p) \<and> d = Evaluate snap (th_agent t) p)"

definition own_error :: "decoder \<Rightarrow> thread \<Rightarrow> go_error \<Rightarrow> bool" where
  "own_error dec t x \<longleftrightarrow> fst (dec (th_body t) zero_AgentProposal) = Some x \<or> (\<exists>e. th_err t = Some e \<and> x = errors_New e)"

fun phase_ok :: "decoder \<Rightarrow> (nat \<Rightarrow> AgentProposal) \<Rightarrow> Snapshot option list \<Rightarrow> thread \<Rightarrow> phase \<Rightarrow> bool" where
  "phase_ok dec heap snaps t Start = True"
| "phase_ok dec heap snaps t (Acquired a) = (heap a = zero_AgentProposal)"
| "phase_ok dec heap snaps t (Decoded a) = (dec (th_body t) zero_AgentProposal = (None, heap a))"
| "phase_ok dec heap snaps t (Waiting a) = (dec (th_body t) zero_AgentProposal = (None, heap a))"
| "phase_ok dec heap snaps t (Slot a) = (dec (th_body t) zero_AgentProposal = (None, heap a))"
| "phase_ok dec heap snaps t (Judged a d) = own_decision dec snaps t d"
| "phase_ok dec heap snaps t (Answered a r) = (case r of Inl x \<Rightarrow> own_error dec t x | Inr d \<Rightarrow> own_decision dec snaps t d)"
| "phase_ok dec heap snaps t (Returned r) = (case r of Inl x \<Rightarrow> own_error dec t x | Inr d \<Rightarrow> own_decision dec snaps t d)"

text \<open>
  Envelopes: those in the pool and those that requests hold are different ones, and no two
  requests hold the same. \<open>os\<close> lists what each request holds.
\<close>

definition env_ok :: "envelopes \<Rightarrow> nat option list \<Rightarrow> bool" where
  "env_ok h os \<longleftrightarrow> distinct (ev_free h) \<and> (\<forall>a \<in> set (ev_free h). a < ev_next h) \<and>
     (\<forall>i < length os. \<forall>a. os ! i = Some a \<longrightarrow> a < ev_next h \<and> a \<notin> set (ev_free h) \<and>
        (\<forall>j < length os. j \<noteq> i \<longrightarrow> os ! j \<noteq> Some a))"

definition holders :: "proxy_state \<Rightarrow> nat option list" where
  "holders s = map (\<lambda>t. owned (th_phase t)) (px_threads s)"

definition threads_ok :: "decoder \<Rightarrow> proxy_state \<Rightarrow> bool" where
  "threads_ok dec s \<longleftrightarrow> (\<forall>i < length (px_threads s).
     phase_ok dec (ev_heap (px_env s)) (px_policies s) (px_threads s ! i) (th_phase (px_threads s ! i)))"

definition slots_ok :: "proxy_state \<Rightarrow> bool" where
  "slots_ok s \<longleftrightarrow> 0 < sp_cap (px_proxy s) \<and> sp_used (px_proxy s) = slots_held s \<and> slots_held s \<le> sp_cap (px_proxy s)"

definition px_inv :: "decoder \<Rightarrow> proxy_state \<Rightarrow> bool" where
  "px_inv dec s \<longleftrightarrow> sp_policy (px_proxy s) \<in> set (px_policies s) \<and> slots_ok s \<and> env_ok (px_env s) (holders s) \<and>
     threads_ok dec s"

section \<open>Library\<close>

lemma go_to_simps [simp]:
  "px_env (go_to i ph s) = px_env s" "px_proxy (go_to i ph s) = px_proxy s" "px_policies (go_to i ph s) = px_policies s"
  "length (px_threads (go_to i ph s)) = length (px_threads s)"
  by (simp_all add: go_to_def)

lemma threads_go_to:
  "i < length (px_threads s) \<Longrightarrow> px_threads (go_to i ph s) ! j =
     (if j = i then (px_threads s ! i)\<lparr>th_phase := ph\<rparr> else px_threads s ! j)"
  by (simp add: go_to_def)

lemma write_to_simps [simp]:
  "px_threads (write_to a p s) = px_threads s" "px_proxy (write_to a p s) = px_proxy s" "px_policies (write_to a p s) = px_policies s"
  "ev_heap (px_env (write_to a p s)) = (ev_heap (px_env s))(a := p)"
  by (simp_all add: write_to_def)

lemma ctx_end_simps [simp]:
  "px_env (ctx_end i e s) = px_env s" "px_proxy (ctx_end i e s) = px_proxy s" "px_policies (ctx_end i e s) = px_policies s"
  "length (px_threads (ctx_end i e s)) = length (px_threads s)"
  "i < length (px_threads s) \<Longrightarrow> th_phase (px_threads (ctx_end i e s) ! j) = th_phase (px_threads s ! j)"
  by (auto simp: ctx_end_def nth_list_update)

lemma threads_ctx_end:
  "i < length (px_threads s) \<Longrightarrow> px_threads (ctx_end i e s) ! j =
     (if j = i then (px_threads s ! i)\<lparr>th_err := Some e\<rparr> else px_threads s ! j)"
  by (simp add: ctx_end_def)

lemma phases_ctx_end:
  assumes "i < length (px_threads s)"
  shows "map (\<lambda>t. f (th_phase t)) (px_threads (ctx_end i e s)) = map (\<lambda>t. f (th_phase t)) (px_threads s)"
  using assms by (auto intro: nth_equalityI)

lemma holders_go_to: "holders (go_to i ph s) = (holders s)[i := owned ph]"
  by (simp add: holders_def go_to_def map_update)

lemma slots_held_go_to:
  "i < length (px_threads s) \<Longrightarrow>
     slots_held (go_to i ph s) = slots_held s + slots ph - slots (th_phase (px_threads s ! i))"
  by (simp add: slots_held_def go_to_def map_update sum_list_update)

lemma slots_le_held: "i < length (px_threads s) \<Longrightarrow> slots (th_phase (px_threads s ! i)) \<le> slots_held s"
  unfolding slots_held_def
  by (rule member_le_sum_list) auto

lemma holders_nth: "i < length (px_threads s) \<Longrightarrow> holders s ! i = owned (th_phase (px_threads s ! i))"
  by (simp add: holders_def)

lemma holders_same:
  "i < length (px_threads s) \<Longrightarrow> owned ph = owned (th_phase (px_threads s ! i)) \<Longrightarrow> holders (go_to i ph s) = holders s"
  by (metis holders_go_to holders_nth list_update_id)

lemma length_holders [simp]: "length (holders s) = length (px_threads s)"
  by (simp add: holders_def)

lemma held_simps [simp]:
  "slots_held (s\<lparr>px_env := h\<rparr>) = slots_held s" "slots_held (s\<lparr>px_proxy := p\<rparr>) = slots_held s"
  "holders (s\<lparr>px_env := h\<rparr>) = holders s" "holders (s\<lparr>px_proxy := p\<rparr>) = holders s"
  "slots_held (s\<lparr>px_policies := ps\<rparr>) = slots_held s" "holders (s\<lparr>px_policies := ps\<rparr>) = holders s"
  by (simp_all add: slots_held_def holders_def)

lemma held_ctx_end [simp]:
  "i < length (px_threads s) \<Longrightarrow> slots_held (ctx_end i e s) = slots_held s"
  "i < length (px_threads s) \<Longrightarrow> holders (ctx_end i e s) = holders s"
  by (simp_all add: slots_held_def holders_def phases_ctx_end)

lemma held_write_to [simp]: "slots_held (write_to a p s) = slots_held s" "holders (write_to a p s) = holders s"
  by (simp_all add: slots_held_def holders_def)

text \<open>Only what a request holds matters to it.\<close>

lemma phase_ok_heap:
  "(\<And>a. owned ph = Some a \<Longrightarrow> heap' a = heap a) \<Longrightarrow> phase_ok dec heap snaps t ph \<Longrightarrow> phase_ok dec heap' snaps t ph"
  by (cases ph) simp_all

lemma own_decision_mono: "own_decision dec snaps t d \<Longrightarrow> own_decision dec (snap # snaps) t d"
  by (auto simp: own_decision_def)

lemma phase_ok_snaps: "phase_ok dec heap snaps t ph \<Longrightarrow> phase_ok dec heap (snap # snaps) t ph"
  by (cases ph) (auto simp: own_decision_mono split: sum.splits)

lemma own_phase: "own_decision dec snaps (t\<lparr>th_phase := ph\<rparr>) d = own_decision dec snaps t d"
    "own_error dec (t\<lparr>th_phase := ph\<rparr>) x = own_error dec t x"
  by (simp_all add: own_decision_def own_error_def)

lemma phase_ok_thread: "phase_ok dec heap snaps (t\<lparr>th_phase := ph'\<rparr>) ph = phase_ok dec heap snaps t ph"
  by (cases ph) (simp_all add: own_phase split: sum.splits)

text \<open>A context that ends takes nothing back.\<close>

lemma phase_ok_err:
  assumes "th_err t = None" "phase_ok dec heap snaps t ph"
  shows "phase_ok dec heap snaps (t\<lparr>th_err := Some e\<rparr>) ph"
proof -
  have "own_decision dec snaps (t\<lparr>th_err := Some e\<rparr>) d = own_decision dec snaps t d"
    "own_error dec t x \<Longrightarrow> own_error dec (t\<lparr>th_err := Some e\<rparr>) x" for d x
    using assms(1) by (simp_all add: own_decision_def own_error_def)
  with assms(2) show ?thesis by (cases ph) (auto split: sum.splits)
qed

lemma threads_ok_go_to:
  assumes "threads_ok dec s" "i < length (px_threads s)"
    and "\<And>j a. j < length (px_threads s) \<Longrightarrow> j \<noteq> i \<Longrightarrow> holders s ! j = Some a \<Longrightarrow> ev_heap h a = ev_heap (px_env s) a"
    and "phase_ok dec (ev_heap h) (px_policies s) (px_threads s ! i) ph"
  shows "threads_ok dec (go_to i ph (s\<lparr>px_env := h\<rparr>))"
  unfolding threads_ok_def
proof (intro allI impI)
  fix j
  assume "j < length (px_threads (go_to i ph (s\<lparr>px_env := h\<rparr>)))"
  then have j: "j < length (px_threads s)" by simp
  let ?s = "go_to i ph (s\<lparr>px_env := h\<rparr>)"
  show "phase_ok dec (ev_heap (px_env ?s)) (px_policies ?s) (px_threads ?s ! j) (th_phase (px_threads ?s ! j))"
  proof (cases "j = i")
    case True
    then show ?thesis using assms(2,4) by (simp add: threads_go_to phase_ok_thread)
  next
    case False
    have "phase_ok dec (ev_heap h) (px_policies s) (px_threads s ! j) (th_phase (px_threads s ! j))"
      by (rule phase_ok_heap [of _ _ "ev_heap (px_env s)"])
        (use assms(1,3) j False in \<open>auto simp: threads_ok_def holders_nth\<close>)
    with False assms(2) show ?thesis by (simp add: threads_go_to)
  qed
qed

section \<open>The envelopes stay apart\<close>

lemma env_okD:
  assumes "env_ok h os" "i < length os" "os ! i = Some a"
  shows "a < ev_next h" "a \<notin> set (ev_free h)" "\<And>j. j < length os \<Longrightarrow> os ! j = Some a \<Longrightarrow> j = i"
proof -
  have "a < ev_next h \<and> a \<notin> set (ev_free h) \<and> (\<forall>j < length os. j \<noteq> i \<longrightarrow> os ! j \<noteq> Some a)"
    using assms(1) [unfolded env_ok_def] assms(2,3) by simp
  then show "a < ev_next h" "a \<notin> set (ev_free h)" "\<And>j. j < length os \<Longrightarrow> os ! j = Some a \<Longrightarrow> j = i" by auto
qed

lemma env_ok_keep: "env_ok h os \<Longrightarrow> env_ok (h\<lparr>ev_heap := m\<rparr>) os"
  by (simp add: env_ok_def)

lemma env_okI:
  assumes "distinct (ev_free h)" "\<And>a. a \<in> set (ev_free h) \<Longrightarrow> a < ev_next h"
    and "\<And>i a. i < length os \<Longrightarrow> os ! i = Some a \<Longrightarrow> a < ev_next h \<and> a \<notin> set (ev_free h)"
    and "\<And>i j a. i < length os \<Longrightarrow> j < length os \<Longrightarrow> os ! i = Some a \<Longrightarrow> os ! j = Some a \<Longrightarrow> j = i"
  shows "env_ok h os"
  unfolding env_ok_def
proof (intro conjI ballI allI impI)
  fix i a j
  assume "i < length os" "os ! i = Some a" "j < length os" "j \<noteq> i"
  then show "os ! j \<noteq> Some a" using assms(4) [of i j a] by blast
qed (simp_all add: assms(1-3))

lemma env_ok_free:
  assumes "env_ok h os"
  shows "distinct (ev_free h)" "\<And>a. a \<in> set (ev_free h) \<Longrightarrow> a < ev_next h"
  using assms by (simp_all add: env_ok_def)

lemma env_ok_forget:
  assumes "env_ok h os"
  shows "env_ok (h\<lparr>ev_free := remove1 a (ev_free h)\<rparr>) os"
proof (rule env_okI)
  fix i j b
  show "b < ev_next (h\<lparr>ev_free := remove1 a (ev_free h)\<rparr>) \<and> b \<notin> set (ev_free (h\<lparr>ev_free := remove1 a (ev_free h)\<rparr>))"
    if "i < length os" "os ! i = Some b"
    using env_okD [OF assms that] by (simp add: notin_set_remove1)
  show "j = i" if "i < length os" "j < length os" "os ! i = Some b" "os ! j = Some b"
    using env_okD(3) [OF assms that(1,3,2,4)] .
qed (use env_ok_free [OF assms] in \<open>auto dest: notin_set_remove1\<close>)

text \<open>A free or new envelope is nobody's; giving it to one request keeps them apart.\<close>

lemma env_ok_give:
  assumes "env_ok h os" "i < length os" "a < ev_next h" "a \<notin> set (ev_free h)"
    and "\<And>j. j < length os \<Longrightarrow> os ! j \<noteq> Some a"
  shows "env_ok h (os[i := Some a])"
proof (rule env_okI)
  fix j k b
  show "b < ev_next h \<and> b \<notin> set (ev_free h)" if "j < length (os[i := Some a])" "os[i := Some a] ! j = Some b"
    using env_okD(1,2) [OF assms(1), of j b] assms(2-4) that by (cases "j = i") simp_all
  show "k = j" if "j < length (os[i := Some a])" "k < length (os[i := Some a])" "os[i := Some a] ! j = Some b" "os[i := Some a] ! k = Some b"
    using env_okD(3) [OF assms(1), of j b k] assms(2,5) that by (cases "j = i"; cases "k = i") auto
qed (use env_ok_free [OF assms(1)] in simp_all)

lemma AcquireProposal_ok:
  assumes "env_ok h os" "i < length os" "case_option True (\<lambda>a. a \<in> set (ev_free h)) pick"
    and "AcquireProposal pick h = (a, h')"
  shows "env_ok h' (os[i := Some a])" "ev_heap h' a = zero_AgentProposal"
    "\<And>j b. j < length os \<Longrightarrow> os ! j = Some b \<Longrightarrow> ev_heap h' b = ev_heap h b"
proof -
  have *: "env_ok h' os \<and> a < ev_next h' \<and> a \<notin> set (ev_free h') \<and> ev_heap h' = (ev_heap h)(a := zero_AgentProposal) \<and>
      (\<forall>j < length os. os ! j \<noteq> Some a)"
  proof (cases pick)
    case None
    then have h': "h' = h\<lparr>ev_heap := (ev_heap h)(ev_next h := zero_AgentProposal), ev_next := Suc (ev_next h)\<rparr>" "a = ev_next h"
      using assms(4) by (auto simp: AcquireProposal_def pool_Get_def)
    have "\<forall>b \<in> set (ev_free h). b < ev_next h" using assms(1) by (simp add: env_ok_def)
    moreover have "os ! j \<noteq> Some a" if "j < length os" for j using env_okD(1) [OF assms(1) that, of a] h'(2) by auto
    moreover have "env_ok h' os"
    proof (rule env_okI)
      fix i j b
      show "b < ev_next h' \<and> b \<notin> set (ev_free h')" if "i < length os" "os ! i = Some b"
        using env_okD(1,2) [OF assms(1) that] by (simp add: h'(1))
      show "j = i" if "i < length os" "j < length os" "os ! i = Some b" "os ! j = Some b"
        using env_okD(3) [OF assms(1) that(1,3,2,4)] .
    qed (use env_ok_free [OF assms(1)] in \<open>auto simp: h'(1) intro: less_SucI\<close>)
    ultimately show ?thesis using h' by auto
  next
    case (Some b)
    then have h': "h' = h\<lparr>ev_free := remove1 a (ev_free h), ev_heap := (ev_heap h)(a := zero_AgentProposal)\<rparr>" "b = a"
      using assms(4) by (auto simp: AcquireProposal_def pool_Get_def)
    have a: "a \<in> set (ev_free h)" using assms(3) Some h'(2) by simp
    moreover have "os ! j \<noteq> Some a" if "j < length os" for j using env_okD(2) [OF assms(1) that, of a] a by auto
    moreover have "env_ok h' os" using env_ok_keep [OF env_ok_forget [OF assms(1), of a]] by (simp add: h'(1))
    moreover have "a < ev_next h" "distinct (ev_free h)" using assms(1) a by (auto simp: env_ok_def)
    ultimately show ?thesis using h' by simp
  qed
  then show "env_ok h' (os[i := Some a])" by (intro env_ok_give [OF _ assms(2)]) simp_all
  from * show "ev_heap h' a = zero_AgentProposal" by simp
  from * show "ev_heap h' b = ev_heap h b" if "j < length os" "os ! j = Some b" for j b using that by auto
qed

lemma ReleaseProposal_ok:
  assumes "env_ok h os" "i < length os" "os ! i = Some a"
  shows "env_ok (ReleaseProposal (Some a) h) (os[i := None])"
    "\<And>j b. j < length os \<Longrightarrow> j \<noteq> i \<Longrightarrow> os ! j = Some b \<Longrightarrow> ev_heap (ReleaseProposal (Some a) h) b = ev_heap h b"
proof -
  note a = env_okD [OF assms]
  show "env_ok (ReleaseProposal (Some a) h) (os[i := None])"
  proof (rule env_okI)
    fix j k b
    show "b < ev_next (ReleaseProposal (Some a) h) \<and> b \<notin> set (ev_free (ReleaseProposal (Some a) h))"
      if "j < length (os[i := None])" "os[i := None] ! j = Some b"
    proof -
      have j: "j \<noteq> i" "j < length os" "os ! j = Some b" using that assms(2) by (cases "j = i"; simp)+
      then have "b \<noteq> a" using a(3) [of j] by blast
      then show ?thesis using env_okD(1,2) [OF assms(1) j(2,3)] by (simp add: ReleaseProposal_def)
    qed
    show "k = j" if "j < length (os[i := None])" "k < length (os[i := None])" "os[i := None] ! j = Some b" "os[i := None] ! k = Some b"
    proof -
      have "j \<noteq> i" "k \<noteq> i" using that assms(2) by auto
      then show ?thesis using env_okD(3) [OF assms(1), of j b k] that by simp
    qed
  qed (use env_ok_free [OF assms(1)] a(1,2) in \<open>auto simp: ReleaseProposal_def\<close>)
  show "ev_heap (ReleaseProposal (Some a) h) b = ev_heap h b" if "j < length os" "j \<noteq> i" "os ! j = Some b" for j b
  proof -
    have "b \<noteq> a" using a(3) [OF that(1)] that(2,3) by blast
    then show ?thesis by (simp add: ReleaseProposal_def)
  qed
qed

section \<open>Every step keeps the invariant\<close>

lemma px_step_slots:
  assumes "px_step dec l s s'" "slots_ok s"
  shows "slots_ok s'"
  using assms
proof (cases rule: px_step.cases)
  case (leave i a d)
  have "1 \<le> slots_held s" using slots_le_held [of i s] leave by simp
  then show ?thesis using leave assms(2) by (auto simp: slots_ok_def slots_held_go_to)
qed (auto simp: slots_ok_def slots_held_go_to)

lemma env_ok_write: "env_ok (px_env s) os \<Longrightarrow> env_ok (px_env (write_to a p s)) os"
  by (simp add: write_to_def env_ok_keep)

lemma px_step_env:
  assumes "px_step dec l s s'" "env_ok (px_env s) (holders s)"
  shows "env_ok (px_env s') (holders s')"
  using assms
proof (cases rule: px_step.cases)
  case (acquire i pick a h)
  then show ?thesis using AcquireProposal_ok(1) [OF assms(2), of i pick a h] by (simp add: holders_go_to)
next
  case (return i a r)
  then show ?thesis using ReleaseProposal_ok(1) [OF assms(2), of i a] by (simp add: holders_go_to holders_nth)
qed (simp_all add: holders_same env_ok_forget env_ok_write)

lemma threads_ok_proxy [simp]: "threads_ok dec (s\<lparr>px_proxy := p\<rparr>) = threads_ok dec s"
  by (simp add: threads_ok_def)

lemma go_to_proxy: "go_to i ph (s\<lparr>px_proxy := p\<rparr>) = (go_to i ph s)\<lparr>px_proxy := p\<rparr>"
  by (simp add: go_to_def)

text \<open>A request moves on and the heap stays.\<close>

lemma threads_ok_move:
  assumes "threads_ok dec s" "i < length (px_threads s)"
    and "phase_ok dec (ev_heap (px_env s)) (px_policies s) (px_threads s ! i) ph"
  shows "threads_ok dec (go_to i ph s)"
  using threads_ok_go_to [OF assms(1,2) _ assms(3)] by simp

lemma threads_okD:
  assumes "threads_ok dec s" "at_phase s i ph"
  shows "phase_ok dec (ev_heap (px_env s)) (px_policies s) (px_threads s ! i) ph"
  using assms by (auto simp: threads_ok_def)

text \<open>The decoder writes to an envelope that only this request holds.\<close>

lemma threads_ok_write:
  assumes "env_ok (px_env s) (holders s)" "threads_ok dec s" "at_phase s i (Acquired a)"
    and "phase_ok dec ((ev_heap (px_env s))(a := p)) (px_policies s) (px_threads s ! i) ph"
  shows "threads_ok dec (go_to i ph (write_to a p s))"
proof -
  have "holders s ! i = Some a" using assms(3) by (simp add: holders_nth)
  then have "b \<noteq> a" if "j < length (px_threads s)" "j \<noteq> i" "holders s ! j = Some b" for j b
    using env_okD(3) [OF assms(1), of i a j] assms(3) that by auto
  then show ?thesis
    unfolding write_to_def using assms(3,4) by (intro threads_ok_go_to [OF assms(2)]) auto
qed

lemma px_step_threads:
  assumes "px_step dec l s s'" "px_inv dec s"
  shows "threads_ok dec s'"
proof -
  have env: "env_ok (px_env s) (holders s)" and ok: "threads_ok dec s"
    and pol: "sp_policy (px_proxy s) \<in> set (px_policies s)" using assms(2) by (simp_all add: px_inv_def)
  from assms(1) show ?thesis
  proof (cases rule: px_step.cases)
    case (acquire i pick a h)
    have i: "i < length (holders s)" using acquire(3) by simp
    show ?thesis
      unfolding acquire(2) using AcquireProposal_ok [OF env i acquire(4,5)] acquire(3)
      by (intro threads_ok_go_to [OF ok]) simp_all
  next
    case (decode i a p)
    then show ?thesis using threads_okD [OF ok decode(3)] by (simp add: threads_ok_write [OF env ok])
  next
    case (reject i a x p)
    then show ?thesis using threads_okD [OF ok reject(3)] by (simp add: threads_ok_write [OF env ok] own_error_def)
  next
    case (refuse i a e)
    then show ?thesis by (simp add: threads_ok_move [OF ok] own_error_def)
  next
    case (await i a)
    then show ?thesis using threads_okD [OF ok await(3)] by (simp add: threads_ok_move [OF ok])
  next
    case (ended i a e)
    then show ?thesis by (simp add: threads_ok_move [OF ok] own_error_def)
  next
    case (enter i a)
    then show ?thesis using threads_okD [OF ok enter(3)] by (simp add: go_to_proxy threads_ok_move [OF ok])
  next
    case (judge i a)
    have "phase_ok dec (ev_heap (px_env s)) (px_policies s) (px_threads s ! i)
        (Judged a (Proxy_Evaluate (px_proxy s) (th_agent (px_threads s ! i)) (ev_heap (px_env s) a)))"
      using threads_okD [OF ok judge(3)] pol by (auto simp: own_decision_def Proxy_Evaluate_def)
    then show ?thesis using judge by (simp add: threads_ok_move [OF ok])
  next
    case (leave i a d)
    then show ?thesis using threads_okD [OF ok leave(3)] by (simp add: go_to_proxy threads_ok_move [OF ok])
  next
    case (return i a r)
    have h: "i < length (holders s)" "holders s ! i = Some a" using return(3) by (simp_all add: holders_nth)
    have "phase_ok dec heap (px_policies s) (px_threads s ! i) (Returned r)" for heap
      using threads_okD [OF ok return(3)] by (cases r) simp_all
    then show ?thesis
      unfolding return(2) using ReleaseProposal_ok(2) [OF env h] return(3) by (intro threads_ok_go_to [OF ok]) simp_all
  next
    case (expire i e)
    then show ?thesis using ok by (simp add: threads_ok_def threads_ctx_end phase_ok_err)
  next
    case (forget a)
    then show ?thesis using ok by (simp add: threads_ok_def)
  next
    case (reload snap)
    then show ?thesis using ok by (auto simp: threads_ok_def intro: phase_ok_snaps)
  qed
qed

lemma px_step_inv:
  assumes "px_step dec l s s'" "px_inv dec s"
  shows "px_inv dec s'"
proof -
  have "sp_policy (px_proxy s') \<in> set (px_policies s')"
    using assms by (cases rule: px_step.cases) (auto simp: px_inv_def)
  with px_step_threads [OF assms] px_step_slots [OF assms(1)] px_step_env [OF assms(1)] assms(2)
  show ?thesis by (simp add: px_inv_def)
qed

lemma px_start_inv: "px_inv dec (px_start src n reqs)"
proof -
  have "slots_held (px_start src n reqs) = 0"
    by (auto simp: slots_held_def px_start_def split_def comp_def)
  then show ?thesis
    by (auto simp: px_inv_def slots_ok_def env_ok_def threads_ok_def holders_def px_start_def NewSentryProxy_def
        no_envelopes_def split_def nth_append)
qed

lemma px_reach_inv: "px_reach dec (px_start src n reqs) s \<Longrightarrow> px_inv dec s"
  by (induction rule: px_reach.induct) (auto intro: px_start_inv px_step_inv)

section \<open>Requests and their steps\<close>

lemma requests_same:
  assumes "length ts' = length ts" "\<And>j. j < length ts \<Longrightarrow> th_agent (ts' ! j) = th_agent (ts ! j) \<and> th_body (ts' ! j) = th_body (ts ! j)"
  shows "map (\<lambda>t. (th_agent t, th_body t)) ts' = map (\<lambda>t. (th_agent t, th_body t)) ts"
  using assms by (auto intro: nth_equalityI)

lemma px_step_requests:
  assumes "px_step dec l s s'"
  shows "map (\<lambda>t. (th_agent t, th_body t)) (px_threads s') = map (\<lambda>t. (th_agent t, th_body t)) (px_threads s)"
  by (rule requests_same) (use assms in \<open>cases rule: px_step.cases; simp add: threads_go_to threads_ctx_end\<close>)+

lemma px_reach_requests:
  "px_reach dec (px_start src n reqs) s \<Longrightarrow> map (\<lambda>t. (th_agent t, th_body t)) (px_threads s) = reqs"
  by (induction rule: px_reach.induct) (auto simp: px_step_requests px_start_def split_def comp_def)

lemma px_trace_reach: "px_trace dec s0 ls s \<Longrightarrow> px_reach dec s0 s"
  by (induction rule: px_trace.induct) (auto intro: px_init px_more)

lemma reach_request:
  assumes "px_reach dec (px_start src n reqs) s" "i < length reqs"
  shows "i < length (px_threads s)" "th_agent (px_threads s ! i) = fst (reqs ! i)" "th_body (px_threads s ! i) = snd (reqs ! i)"
proof -
  have r: "map (\<lambda>t. (th_agent t, th_body t)) (px_threads s) = reqs" by (rule px_reach_requests [OF assms(1)])
  then show i: "i < length (px_threads s)" using assms(2) by (metis length_map)
  show "th_agent (px_threads s ! i) = fst (reqs ! i)" "th_body (px_threads s ! i) = snd (reqs ! i)"
    using i by (simp_all flip: r)
qed

text \<open>How many steps of its own a request has at most before it.\<close>

fun steps_left :: "phase \<Rightarrow> nat" where
  "steps_left Start = 7"
| "steps_left (Acquired a) = 6"
| "steps_left (Decoded a) = 5"
| "steps_left (Waiting a) = 4"
| "steps_left (Slot a) = 3"
| "steps_left (Judged a d) = 2"
| "steps_left (Answered a r) = 1"
| "steps_left (Returned r) = 0"

lemma px_step_left:
  assumes "px_step dec l s s'" "i < length (px_threads s)"
  shows "steps_left (th_phase (px_threads s' ! i)) + (if l = Own i then 1 else 0) \<le> steps_left (th_phase (px_threads s ! i))"
  using assms by (cases rule: px_step.cases) (auto simp: threads_go_to)

lemma px_step_length: "px_step dec l s s' \<Longrightarrow> length (px_threads s') = length (px_threads s)"
  by (erule px_step.cases) simp_all

lemma px_step_actor: "px_step dec (Own i) s s' \<Longrightarrow> i < length (px_threads s)"
  by (erule px_step.cases) simp_all

lemma trace_steps:
  assumes "px_trace dec s0 ls s"
  shows "length (px_threads s) = length (px_threads s0) \<and> (\<forall>i. count_list ls (Own i) \<le> (if i < length (px_threads s0)
    then steps_left (th_phase (px_threads s0 ! i)) - steps_left (th_phase (px_threads s ! i)) else 0) \<and>
    (i < length (px_threads s0) \<longrightarrow> steps_left (th_phase (px_threads s ! i)) \<le> steps_left (th_phase (px_threads s0 ! i))))"
  using assms
proof (induction rule: px_trace.induct)
  case (px_next ls s l s')
  have len: "length (px_threads s') = length (px_threads s)" by (rule px_step_length [OF px_next(2)])
  have "count_list (ls @ [l]) (Own i) \<le> (if i < length (px_threads s0)
      then steps_left (th_phase (px_threads s0 ! i)) - steps_left (th_phase (px_threads s' ! i)) else 0) \<and>
    (i < length (px_threads s0) \<longrightarrow> steps_left (th_phase (px_threads s' ! i)) \<le> steps_left (th_phase (px_threads s0 ! i)))" for i
    using px_next(3) px_step_left [OF px_next(2), of i] px_step_actor [of dec i s s'] px_next(2)
    by (cases "i < length (px_threads s0)"; cases "l = Own i") (auto dest!: spec [of _ i])
  with len px_next(3) show ?case by simp
qed simp

text \<open>A context that did not end in a trace has not ended after it.\<close>

lemma px_step_err:
  assumes "px_step dec l s s'" "i < length (px_threads s)" "l \<noteq> Expire i"
  shows "th_err (px_threads s' ! i) = th_err (px_threads s ! i)"
  using assms by (cases rule: px_step.cases) (auto simp: threads_go_to threads_ctx_end)

lemma trace_err:
  assumes "px_trace dec s0 ls s" "i < length (px_threads s0)" "Expire i \<notin> set ls"
  shows "th_err (px_threads s ! i) = th_err (px_threads s0 ! i)"
  using assms
proof (induction rule: px_trace.induct)
  case (px_next ls s l s')
  have "i < length (px_threads s)" using trace_steps [OF px_next(1)] px_next(4) by simp
  with px_step_err [OF px_next(2), of i] px_next(3-5) show ?case by auto
qed simp

text \<open>
  As long as a request has not returned, some request has a step of its own: if no slot is free, one
  that holds a slot.
\<close>

lemma px_progress:
  assumes "px_inv dec s" "i < length (px_threads s)" "\<nexists>r. th_phase (px_threads s ! i) = Returned r"
  shows "\<exists>j s'. px_step dec (Own j) s s'"
proof (cases "\<forall>j < length (px_threads s). slots (th_phase (px_threads s ! j)) = 0")
  case True
  then have "slots_held s = 0" by (auto simp: slots_held_def in_set_conv_nth)
  then have free: "sp_used (px_proxy s) < sp_cap (px_proxy s)" using assms(1) by (simp add: px_inv_def slots_ok_def)
  show ?thesis
  proof (cases "th_phase (px_threads s ! i)")
    case Start
    obtain a h where "AcquireProposal None (px_env s) = (a, h)" by fastforce
    with Start assms(2) show ?thesis using px_step.acquire [of i s None a h dec] by auto
  next
    case (Acquired a)
    obtain x p where "dec (th_body (px_threads s ! i)) (ev_heap (px_env s) a) = (x, p)" by fastforce
    with Acquired assms(2) show ?thesis using px_step.decode [of i s a dec p] px_step.reject [of i s a dec _ p] by (cases x) auto
  next
    case (Decoded a)
    with assms(2) show ?thesis
      using px_step.await [of i s a dec] px_step.refuse [of i s a _ dec] by (cases "th_err (px_threads s ! i)") auto
  next
    case (Waiting a)
    with free assms(2) show ?thesis using px_step.enter [of i s a dec] by auto
  next
    case (Answered a r)
    with assms(2) show ?thesis using px_step.return [of i s a r dec] by auto
  qed (use True assms(2,3) in auto)
next
  case False
  then obtain j where j: "j < length (px_threads s)" "slots (th_phase (px_threads s ! j)) \<noteq> 0" by blast
  then consider a where "th_phase (px_threads s ! j) = Slot a" | a d where "th_phase (px_threads s ! j) = Judged a d"
    by (cases "th_phase (px_threads s ! j)") auto
  then show ?thesis using px_step.judge [of j s _ dec] px_step.leave [of j s _ _ dec] j(1) by cases auto
qed

section \<open>A sample run\<close>

text \<open>One request, served alone: in its slot, and at its end.\<close>

lemma sample_reach:
  assumes "dec b zero_AgentProposal = (None, v)"
  obtains s s' where "px_reach dec (px_start src 1 [(a, b)]) s" "at_phase s 0 (Slot 0)" "slots_held s = 1"
    "px_reach dec (px_start src 1 [(a, b)]) s'" "px_policies s' = [src]" "at_phase s' 0 (Returned (Inr (Evaluate src a v)))"
proof -
  let ?t = "\<lambda>ph. [\<lparr>th_agent = a, th_body = b, th_err = None, th_phase = ph\<rparr>]"
  let ?init = "px_start src 1 [(a, b)]" and ?d = "Evaluate src a v"
  define h1 where "h1 = no_envelopes\<lparr>ev_next := 1\<rparr>"
  define h2 where "h2 = h1\<lparr>ev_heap := (ev_heap h1)(0 := v)\<rparr>"
  define h3 where "h3 = ReleaseProposal (Some 0) h2"
  define p where "p n = \<lparr>sp_policy = src, sp_cap = 1, sp_used = n\<rparr>" for n
  let ?st = "\<lambda>h n ph. \<lparr>px_env = h, px_proxy = p n, px_threads = ?t ph, px_policies = [src]\<rparr>"
  have "px_step dec (Own 0) ?init (?st h1 0 (Acquired 0))"
    using px_step.acquire [of 0 ?init None 0 h1 dec]
    by (simp add: px_start_def go_to_def AcquireProposal_def pool_Get_def no_envelopes_def h1_def p_def NewSentryProxy_def
        fun_upd_idem)
  moreover have "px_step dec (Own 0) (?st h1 0 (Acquired 0)) (?st h2 0 (Decoded 0))"
    using px_step.decode [of 0 "?st h1 0 (Acquired 0)" 0 dec v] assms
    by (simp add: go_to_def write_to_def h1_def h2_def no_envelopes_def)
  moreover have "px_step dec (Own 0) (?st h2 0 (Decoded 0)) (?st h2 0 (Waiting 0))"
    using px_step.await [of 0 "?st h2 0 (Decoded 0)" 0 dec] by (simp add: go_to_def)
  moreover have "px_step dec (Own 0) (?st h2 0 (Waiting 0)) (?st h2 1 (Slot 0))"
    using px_step.enter [of 0 "?st h2 0 (Waiting 0)" 0 dec] by (simp add: go_to_def p_def)
  ultimately have slot: "px_reach dec ?init (?st h2 1 (Slot 0))" by (meson px_init px_more)
  moreover have "px_step dec (Own 0) (?st h2 1 (Slot 0)) (?st h2 1 (Judged 0 ?d))"
    using px_step.judge [of 0 "?st h2 1 (Slot 0)" 0 dec] by (simp add: go_to_def p_def Proxy_Evaluate_def h2_def)
  moreover have "px_step dec (Own 0) (?st h2 1 (Judged 0 ?d)) (?st h2 0 (Answered 0 (Inr ?d)))"
    using px_step.leave [of 0 "?st h2 1 (Judged 0 ?d)" 0 ?d dec] by (simp add: go_to_def p_def)
  moreover have "px_step dec (Own 0) (?st h2 0 (Answered 0 (Inr ?d))) (?st h3 0 (Returned (Inr ?d)))"
    using px_step.return [of 0 "?st h2 0 (Answered 0 (Inr ?d))" 0 "Inr ?d" dec] by (simp add: go_to_def h3_def)
  ultimately have "px_reach dec ?init (?st h3 0 (Returned (Inr ?d)))" by (meson px_more)
  with slot show thesis by (intro that [of "?st h2 1 (Slot 0)" "?st h3 0 (Returned (Inr ?d))"]) (simp_all add: slots_held_def)
qed

section \<open>Properties\<close>

text \<open>
  C35. However requests are interleaved, and however the pool reuses envelopes, the decision a
  request gets is the evaluation of its own body, decoded into an empty proposal, for its own agent,
  under a policy that was in force at some time: nothing of another request's proposal leaks into it.
\<close>

theorem proxy_isolation:
  assumes "px_reach dec (px_start src n reqs) s" "i < length reqs" "th_phase (px_threads s ! i) = Returned (Inr d)"
  shows "\<exists>snap \<in> set (px_policies s). \<exists>p. dec (snd (reqs ! i)) zero_AgentProposal = (None, p) \<and>
    d = Evaluate snap (fst (reqs ! i)) p"
proof -
  note i = reach_request [OF assms(1,2)]
  have "own_decision dec (px_policies s) (px_threads s ! i) d"
    using px_reach_inv [OF assms(1)] i(1) assms(3) by (auto simp: px_inv_def threads_ok_def)
  then show ?thesis by (simp add: own_decision_def i)
qed

theorem proxy_isolation_witness:
  "\<exists>s d. px_reach (\<lambda>b p. (None, p\<lparr>p_ID := b\<rparr>)) (px_start None 1 [(''a'', ''p1'')]) s \<and>
     th_phase (px_threads s ! 0) = Returned (Inr d) \<and>
     d = Evaluate None ''a'' \<lparr>p_ID = ''p1'', p_Type = '''', p_TargetID = '''', p_Payload = ''''\<rparr>"
proof -
  obtain s d where s: "px_reach (\<lambda>b p. (None, p\<lparr>p_ID := b\<rparr>)) (px_start None 1 [(''a'', ''p1'')]) s" "px_policies s = [None]"
      "th_phase (px_threads s ! 0) = Returned (Inr d)"
    using sample_reach [of "\<lambda>b p. (None, p\<lparr>p_ID := b\<rparr>)" "''p1''" _ None "''a''"] by metis
  show ?thesis
    by (rule exI [of _ s], rule exI [of _ d])
      (use s proxy_isolation [OF s(1), of 0 d] in \<open>simp add: zero_AgentProposal_def\<close>)
qed

text \<open>
  C36. At every moment at most the configured number of evaluations run (at least one slot exists), and
  the slot counter is exactly the number of requests between taking and giving back their slot, so no
  slot is ever lost, whatever requests end early.
\<close>

theorem proxy_bounded:
  assumes "px_reach dec (px_start src n reqs) s"
  shows "slots_held s \<le> MaxParallel (px_proxy s) \<and> 1 \<le> MaxParallel (px_proxy s) \<and> sp_used (px_proxy s) = slots_held s"
  using px_reach_inv [OF assms] by (simp add: px_inv_def slots_ok_def MaxParallel_def)

theorem proxy_bounded_witness:
  "\<exists>s. px_reach (\<lambda>b p. (None, p)) (px_start None 1 [(''a'', ''x'')]) s \<and> at_phase s 0 (Slot 0) \<and>
     sp_used (px_proxy s) = 1 \<and> 1 \<le> MaxParallel (px_proxy s)"
proof -
  obtain s where s: "px_reach (\<lambda>b p. (None, p)) (px_start None 1 [(''a'', ''x'')]) s" "at_phase s 0 (Slot 0)" "slots_held s = 1"
    using sample_reach [of "\<lambda>b p. (None, p)" "''x''" _ None "''a''"] by metis
  with proxy_bounded [OF s(1)] show ?thesis by auto
qed

text \<open>
  C37. Every request is answered, whatever the schedule: a request takes at most seven steps of its
  own, and as long as one has not returned, some request can take such a step, so none is ever stuck
  behind the others. When no request can go on, all have returned, and those whose context did not
  end have the error of their own body or the decision on it. No context has to end for this.
\<close>

theorem proxy_live:
  assumes "px_trace dec (px_start src n reqs) ls s"
  shows "(\<forall>i. count_list ls (Own i) \<le> 7) \<and>
    ((\<exists>i s'. px_step dec (Own i) s s') \<or>
     (\<forall>i < length reqs. \<exists>r. th_phase (px_threads s ! i) = Returned r \<and>
        (Expire i \<notin> set ls \<longrightarrow> (case dec (snd (reqs ! i)) zero_AgentProposal of
             (Some x, _) \<Rightarrow> r = Inl x
           | (None, p) \<Rightarrow> \<exists>snap \<in> set (px_policies s). r = Inr (Evaluate snap (fst (reqs ! i)) p)))))"
proof (intro conjI allI)
  let ?s0 = "px_start src n reqs"
  have start: "length (px_threads ?s0) = length reqs"
    "i < length reqs \<Longrightarrow> th_phase (px_threads ?s0 ! i) = Start \<and> th_err (px_threads ?s0 ! i) = None" for i
    by (simp_all add: px_start_def split_def)
  show "count_list ls (Own i) \<le> 7" for i
    using trace_steps [OF assms] start by (cases "i < length reqs") (auto dest!: spec [of _ i])
  have reach: "px_reach dec ?s0 s" by (rule px_trace_reach [OF assms])
  note inv = px_reach_inv [OF reach]
  show "(\<exists>i s'. px_step dec (Own i) s s') \<or>
     (\<forall>i < length reqs. \<exists>r. th_phase (px_threads s ! i) = Returned r \<and>
        (Expire i \<notin> set ls \<longrightarrow> (case dec (snd (reqs ! i)) zero_AgentProposal of
             (Some x, _) \<Rightarrow> r = Inl x
           | (None, p) \<Rightarrow> \<exists>snap \<in> set (px_policies s). r = Inr (Evaluate snap (fst (reqs ! i)) p))))"
  proof (unfold disj_imp, intro allI impI)
    fix i
    assume stuck: "\<nexists>i s'. px_step dec (Own i) s s'" and i: "i < length reqs"
    note t = reach_request [OF reach i]
    obtain r where r: "th_phase (px_threads s ! i) = Returned r" using px_progress [OF inv t(1)] stuck by blast
    have err: "Expire i \<notin> set ls \<longrightarrow> th_err (px_threads s ! i) = None" using trace_err [OF assms, of i] start i by auto
    have "case r of Inl x \<Rightarrow> own_error dec (px_threads s ! i) x | Inr d \<Rightarrow> own_decision dec (px_policies s) (px_threads s ! i) d"
      using inv t(1) r by (auto simp: px_inv_def threads_ok_def dest!: spec [of _ i])
    with r err t(2,3) show "\<exists>r. th_phase (px_threads s ! i) = Returned r \<and>
        (Expire i \<notin> set ls \<longrightarrow> (case dec (snd (reqs ! i)) zero_AgentProposal of
             (Some x, _) \<Rightarrow> r = Inl x
           | (None, p) \<Rightarrow> \<exists>snap \<in> set (px_policies s). r = Inr (Evaluate snap (fst (reqs ! i)) p)))"
      by (auto simp: own_error_def own_decision_def split: sum.splits prod.splits option.splits)
  qed
qed

theorem proxy_live_witness:
  "\<exists>i s'. px_step (\<lambda>b p. (None, p)) (Own i) (px_start None 1 [(''a'', ''x''), (''b'', ''y'')]) s'"
  using proxy_live [OF px_none [of "\<lambda>b p. (None, p)" "px_start None 1 [(''a'', ''x''), (''b'', ''y'')]"]]
  by (auto simp: px_start_def)

end
