(* ===== verification/Record_Store.thy ===== *)
theory Record_Store
  imports Contracts
begin

text \<open>
  The contract of the \<^verbatim>\<open>decision.Store\<close> interface (\<^verbatim>\<open>internal/decision/store.go\<close>): an
  append-only sequence of decision records with unique IDs, whose \<^verbatim>\<open>AppendDecision\<close> is
  idempotent and refuses a reused ID. The clients' facts (a stored record is returned unchanged
  whatever is appended later; a failed write never alters what was recorded) are proved once
  here; \<open>Memory_Store\<close> and \<open>Sqlite_Store\<close> interpret the locale.
\<close>

section \<open>The abstract record log\<close>

definition fresh_id :: "DecisionRecord list \<Rightarrow> string \<Rightarrow> bool" where
  "fresh_id rs d \<longleftrightarrow> d \<notin> dr_DecisionID ` set rs"

definition lookup_decision :: "DecisionRecord list \<Rightarrow> string \<Rightarrow> DecisionRecord option" where
  "lookup_decision rs d = find (\<lambda>r. dr_DecisionID r = d) rs"

definition spec_append :: "DecisionRecord \<Rightarrow> DecisionRecord list \<Rightarrow> sentinel option \<times> DecisionRecord list" where
  "spec_append r rs =
     (if Validate r \<noteq> None then (Some ErrInvalidDecisionRecord, rs)
      else case lookup_decision rs (dr_DecisionID r) of
          None \<Rightarrow> (None, rs @ [r])
        | Some r' \<Rightarrow> if r' = r then (None, rs) else (Some ErrDecisionConflict, rs))"

text \<open>Records appended one after the other, each call with its own context or fault.\<close>

fun append_all ::
  "('f \<Rightarrow> DecisionRecord \<Rightarrow> 's \<Rightarrow> go_error option \<times> 's) \<Rightarrow> ('f \<times> DecisionRecord) list \<Rightarrow> 's \<Rightarrow> 's" where
  "append_all app [] s = s"
| "append_all app ((f, r) # xs) s = append_all app xs (snd (app f r s))"

section \<open>Facts on the log\<close>

lemma lookup_None_iff: "lookup_decision rs d = None \<longleftrightarrow> fresh_id rs d"
  by (auto simp: lookup_decision_def fresh_id_def find_None_iff)

lemma lookup_SomeD: "lookup_decision rs d = Some r \<Longrightarrow> r \<in> set rs \<and> dr_DecisionID r = d"
  by (auto simp: lookup_decision_def find_Some_iff)

lemma lookup_append:
  "lookup_decision (rs @ qs) d = (case lookup_decision rs d of Some r \<Rightarrow> Some r | None \<Rightarrow> lookup_decision qs d)"
  by (induction rs) (auto simp: lookup_decision_def)

lemma lookup_single [simp]: "lookup_decision [r] d = (if dr_DecisionID r = d then Some r else None)"
  by (simp add: lookup_decision_def)

lemma lookup_mem:
  "distinct (map dr_DecisionID rs) \<Longrightarrow> r \<in> set rs \<Longrightarrow> lookup_decision rs (dr_DecisionID r) = Some r"
  by (induction rs) (auto simp: lookup_decision_def)

section \<open>The contract\<close>

text \<open>
  \<open>sound\<close> marks calls during which other writers also only append (faults are still allowed);
  \<open>quiet\<close> those where nothing fails either.
\<close>

locale record_store =
  fixes append :: "'f \<Rightarrow> DecisionRecord \<Rightarrow> 's \<Rightarrow> go_error option \<times> 's"
    and get :: "'f \<Rightarrow> string \<Rightarrow> 's \<Rightarrow> go_error + DecisionRecord"
    and list_of :: "'f \<Rightarrow> string \<Rightarrow> 's \<Rightarrow> go_error + DecisionRecord list"
    and records :: "'s \<Rightarrow> DecisionRecord list"
    and sound :: "'f \<Rightarrow> bool"
    and quiet :: "'f \<Rightarrow> bool"
    and invar :: "'s \<Rightarrow> bool"
  assumes append_safe: "invar s \<Longrightarrow> append f r s = (e, s') \<Longrightarrow> invar s' \<and>
      (records s' = records s \<or>
       records s' = records s @ [r] \<and> Validate r = None \<and> fresh_id (records s) (dr_DecisionID r))"
    and append_ok: "invar s \<Longrightarrow> sound f \<Longrightarrow> append f r s = (None, s') \<Longrightarrow>
      lookup_decision (records s') (dr_DecisionID r) = Some r"
    and append_quiet: "invar s \<Longrightarrow> quiet f \<Longrightarrow> append f r s = (e, s') \<Longrightarrow>
      (map_option err_is e, records s') = spec_append r (records s)"
    and get_quiet: "invar s \<Longrightarrow> quiet f \<Longrightarrow> get f d s =
      (case lookup_decision (records s) d of None \<Rightarrow> Inl decision_not_found | Some r \<Rightarrow> Inr r)"
    and get_ok: "invar s \<Longrightarrow> get f d s = Inr r \<Longrightarrow> lookup_decision (records s) d = Some r"
    and list_quiet: "invar s \<Longrightarrow> quiet f \<Longrightarrow>
      list_of f p s = Inr (filter (\<lambda>r. dr_ProposalID r = p) (records s))"
    and stored_valid: "invar s \<Longrightarrow> r \<in> set (records s) \<Longrightarrow> Validate r = None"
    and quiet_sound: "quiet f \<Longrightarrow> sound f"
begin

lemma append_prefix:
  assumes "invar s" "append f r s = (e, s')"
  shows "\<exists>qs. records s' = records s @ qs"
  using append_safe [OF assms] by auto

text \<open>The log only grows, and what was stored is what is read from then on.\<close>

lemma append_all_prefix:
  "invar s \<Longrightarrow> invar (append_all append xs s) \<and> (\<exists>qs. records (append_all append xs s) = records s @ qs)"
proof (induction xs arbitrary: s)
  case (Cons x xs)
  obtain f r where x: "x = (f, r)" by fastforce
  obtain e s1 where 1: "append f r s = (e, s1)" by fastforce
  from Cons.IH [of s1] append_safe [OF Cons.prems 1] append_prefix [OF Cons.prems 1]
  show ?case by (auto simp: x 1)
qed simp

lemma append_all_keeps:
  assumes "invar s" "lookup_decision (records s) d = Some r"
  shows "lookup_decision (records (append_all append xs s)) d = Some r"
  using append_all_prefix [OF assms(1), of xs] assms(2) by (auto simp: lookup_append)

lemma stored_for_ever:
  assumes "invar s" "sound f" "append f r s = (None, s1)" "quiet g"
  shows "get g (dr_DecisionID r) (append_all append xs s1) = Inr r"
proof -
  have "invar s1" using append_safe [OF assms(1,3)] by simp
  then show ?thesis
    using append_all_keeps [of s1 "dr_DecisionID r" r xs] append_ok [OF assms(1-3)]
      append_all_prefix [of s1 xs] get_quiet [OF _ assms(4)] by simp
qed

lemma append_idempotent:
  assumes "invar s" "sound f" "append f r s = (None, s1)" "quiet g"
  shows "\<exists>s2. append g r s1 = (None, s2) \<and> records s2 = records s1"
proof -
  obtain e s2 where 2: "append g r s1 = (e, s2)" by fastforce
  have inv: "invar s1" using append_safe [OF assms(1,3)] by simp
  have l: "lookup_decision (records s1) (dr_DecisionID r) = Some r" by (rule append_ok [OF assms(1-3)])
  have "Validate r = None" using stored_valid [OF inv] lookup_SomeD [OF l] by simp
  with l append_quiet [OF inv assms(4) 2] have "e = None \<and> records s2 = records s1"
    by (simp add: spec_append_def)
  with 2 show ?thesis by simp
qed

lemma conflict_refused:
  assumes "invar s" "quiet f" "lookup_decision (records s) (dr_DecisionID r) = Some r'" "r' \<noteq> r"
    "Validate r = None"
  shows "\<exists>e s'. append f r s = (Some e, s') \<and> err_is e = ErrDecisionConflict \<and> records s' = records s"
proof -
  obtain e s' where 1: "append f r s = (e, s')" by fastforce
  from append_quiet [OF assms(1,2) 1] assms(3-5) 1 show ?thesis
    by (cases e) (auto simp: spec_append_def)
qed

end

end
