(* ===== verification/Json.thy ===== *)
theory Json
  imports Prelude
begin

text \<open>
  What the program uses of Go's \<^verbatim>\<open>encoding/json\<close>: the byte-driven scanner of \<^verbatim>\<open>json.Decoder\<close>, which
  finds one value at the front of a stream and leaves the rest for the next call, the unquoting of
  strings, and the encoder's quoting. A read error of the stream is reported once every byte
  before it has been scanned.

  The scanner is a push-down automaton, one step per byte as in the library, and builds the value
  as it goes. Error texts are no part of the model: an error is one of the kinds of \<open>json_error\<close>.
\<close>

section \<open>UTF-8\<close>

abbreviation byte :: "char \<Rightarrow> nat" where "byte c \<equiv> of_char c"

definition RuneError :: nat where "RuneError = 65533"

definition is_cont :: "char \<Rightarrow> bool" where
  "is_cont c \<longleftrightarrow> 128 \<le> byte c \<and> byte c < 192"

text \<open>
  \<^verbatim>\<open>utf8.DecodeRune\<close>: the rune at the front and its width, \<^verbatim>\<open>(RuneError, 1)\<close> if the bytes are not the
  shortest encoding of a scalar value. The second byte of a three- or four-byte sequence has a
  restricted range.
\<close>

definition second_ok :: "nat \<Rightarrow> char \<Rightarrow> bool" where
  "second_ok b c \<longleftrightarrow>
     (if b = 224 then 160 \<le> byte c \<and> byte c < 192
      else if b = 237 then 128 \<le> byte c \<and> byte c < 160
      else if b = 240 then 144 \<le> byte c \<and> byte c < 192
      else if b = 244 then 128 \<le> byte c \<and> byte c < 144
      else is_cont c)"

definition DecodeRune :: "string \<Rightarrow> nat \<times> nat" where
  "DecodeRune s = (case s of
       [] \<Rightarrow> (RuneError, 0)
     | c # cs \<Rightarrow>
         let b = byte c in
         if b < 128 then (b, 1)
         else if 194 \<le> b \<and> b < 224 then
           (case cs of c1 # _ \<Rightarrow> if is_cont c1 then ((b - 192) * 64 + (byte c1 - 128), 2) else (RuneError, 1)
             | _ \<Rightarrow> (RuneError, 1))
         else if 224 \<le> b \<and> b < 240 then
           (case cs of c1 # c2 # _ \<Rightarrow>
               if second_ok b c1 \<and> is_cont c2
               then ((b - 224) * 4096 + (byte c1 - 128) * 64 + (byte c2 - 128), 3) else (RuneError, 1)
             | _ \<Rightarrow> (RuneError, 1))
         else if 240 \<le> b \<and> b < 245 then
           (case cs of c1 # c2 # c3 # _ \<Rightarrow>
               if second_ok b c1 \<and> is_cont c2 \<and> is_cont c3
               then ((b - 240) * 262144 + (byte c1 - 128) * 4096 + (byte c2 - 128) * 64 + (byte c3 - 128), 4)
               else (RuneError, 1)
             | _ \<Rightarrow> (RuneError, 1))
         else (RuneError, 1))"

definition scalar :: "nat \<Rightarrow> bool" where
  "scalar r \<longleftrightarrow> r < 55296 \<or> 57344 \<le> r \<and> r < 1114112"

definition EncodeRune :: "nat \<Rightarrow> string" where
  "EncodeRune r0 = (let r = (if scalar r0 then r0 else RuneError) in
     if r < 128 then [char_of r]
     else if r < 2048 then [char_of (192 + r div 64), char_of (128 + r mod 64)]
     else if r < 65536 then [char_of (224 + r div 4096), char_of (128 + r div 64 mod 64), char_of (128 + r mod 64)]
     else [char_of (240 + r div 262144), char_of (128 + r div 4096 mod 64), char_of (128 + r div 64 mod 64),
           char_of (128 + r mod 64)])"

section \<open>Unquoting\<close>

definition hex_value :: "char \<Rightarrow> nat option" where
  "hex_value c = (let b = byte c in
     if 48 \<le> b \<and> b \<le> 57 then Some (b - 48)
     else if 97 \<le> b \<and> b \<le> 102 then Some (b - 97 + 10)
     else if 65 \<le> b \<and> b \<le> 70 then Some (b - 65 + 10)
     else None)"

text \<open>\<^verbatim>\<open>getu4\<close>: the value of an escape \<^verbatim>\<open>\uXXXX\<close> at the front.\<close>

definition getu4 :: "string \<Rightarrow> nat option" where
  "getu4 s = (case s of
       b # u # h1 # h2 # h3 # h4 # _ \<Rightarrow>
         if b = CHR 0x5C \<and> u = CHR ''u'' then
           (case (hex_value h1, hex_value h2, hex_value h3, hex_value h4) of
              (Some x1, Some x2, Some x3, Some x4) \<Rightarrow> Some (((x1 * 16 + x2) * 16 + x3) * 16 + x4)
            | _ \<Rightarrow> None)
         else None
     | _ \<Rightarrow> None)"

text \<open>\<^verbatim>\<open>utf16.DecodeRune\<close> on a pair of surrogates.\<close>

definition utf16_pair :: "nat \<Rightarrow> nat \<Rightarrow> nat option" where
  "utf16_pair r1 r2 =
     (if 55296 \<le> r1 \<and> r1 < 56320 \<and> 56320 \<le> r2 \<and> r2 < 57344
      then Some ((r1 - 55296) * 1024 + (r2 - 56320) + 65536) else None)"

definition is_surrogate :: "nat \<Rightarrow> bool" where
  "is_surrogate r \<longleftrightarrow> 55296 \<le> r \<and> r < 57344"

definition escape_char :: "char \<Rightarrow> char option" where
  "escape_char c =
     (if c \<in> {CHR 0x22, CHR 0x5C, CHR ''/''} then Some c
      else if c = CHR ''b'' then Some (CHR 0x08) else if c = CHR ''f'' then Some (CHR 0x0C)
      else if c = CHR ''n'' then Some (CHR 0x0A) else if c = CHR ''r'' then Some (CHR 0x0D)
      else if c = CHR ''t'' then Some (CHR 0x09) else None)"

text \<open>
  \<^verbatim>\<open>unquoteBytes\<close> on the bytes between the quotes of a scanned string: escapes are resolved and
  everything that is not valid UTF-8 becomes \<^verbatim>\<open>U+FFFD\<close>.
\<close>

function unquote :: "string \<Rightarrow> string" where
  "unquote s = (case s of
       [] \<Rightarrow> []
     | c # cs \<Rightarrow>
         if c = CHR 0x5C then
           (case cs of
              [] \<Rightarrow> []
            | e # es \<Rightarrow>
                if e = CHR ''u'' then
                  (case getu4 s of
                     None \<Rightarrow> []
                   | Some r \<Rightarrow>
                       if is_surrogate r then
                         (case Option.bind (getu4 (drop 6 s)) (utf16_pair r) of
                            Some d \<Rightarrow> EncodeRune d @ unquote (drop 12 s)
                          | None \<Rightarrow> EncodeRune RuneError @ unquote (drop 6 s))
                       else EncodeRune r @ unquote (drop 6 s))
                else (case escape_char e of Some d \<Rightarrow> d # unquote es | None \<Rightarrow> []))
         else if byte c < 128 then c # unquote cs
         else (case DecodeRune s of (r, n) \<Rightarrow> EncodeRune r @ unquote (drop (max 1 n) s)))"
  by pat_completeness auto

termination by (relation "measure length") auto

declare unquote.simps [simp del]

section \<open>Values and scanner states\<close>

datatype json =
    JNull | JBool bool | JNum string | JStr string | JArr "json list" | JObj "(string \<times> json) list"

text \<open>Open containers, innermost first; the members read so far are in reverse order.\<close>

datatype jframe = FArr "json list" | FObj "(string \<times> json) list" string

datatype num_state = NNeg | N0 | N1 | NDot | NDot0 | NE | NESign | NE0

datatype str_state = SPlain | SEsc | SHex nat

datatype jstate =
    BeginValue | BeginValueOrEmpty | BeginStringOrEmpty | BeginString | AfterKey | AfterValue
  | InStr bool str_state string
  | InNum num_state string
  | InLit string json
  | EndTop json

text \<open>\<open>Halt v b\<close>: the value is complete; \<open>b\<close> tells whether it needed the byte just seen.\<close>

datatype jout = Go jstate "jframe list" | Halt json bool | Bad

definition isSpace :: "char \<Rightarrow> bool" where
  "isSpace c \<longleftrightarrow> c = CHR '' '' \<or> c = CHR 0x09 \<or> c = CHR 0x0D \<or> c = CHR 0x0A"

definition digit :: "char \<Rightarrow> bool" where
  "digit c \<longleftrightarrow> 48 \<le> byte c \<and> byte c \<le> 57"

definition maxNestingDepth :: nat where "maxNestingDepth = 10000"

definition push :: "jframe \<Rightarrow> jstate \<Rightarrow> jframe list \<Rightarrow> jout" where
  "push f st stk = (if length stk < maxNestingDepth then Go st (f # stk) else Bad)"

text \<open>A scalar is complete: it goes into the innermost container, or waits for the next byte.\<close>

fun deliver :: "json \<Rightarrow> jframe list \<Rightarrow> jout" where
  "deliver v [] = Go (EndTop v) []"
| "deliver v (FArr vs # stk) = Go AfterValue (FArr (v # vs) # stk)"
| "deliver v (FObj ms k # stk) = Go AfterValue (FObj ((k, v) # ms) k # stk)"

text \<open>A closing bracket: at the top level the value is complete with it.\<close>

definition close :: "json \<Rightarrow> jframe list \<Rightarrow> jout" where
  "close v stk = (if stk = [] then Halt v True else deliver v stk)"

definition begin_value :: "char \<Rightarrow> jframe list \<Rightarrow> jout" where
  "begin_value c stk =
     (if c = CHR ''{'' then push (FObj [] '''') BeginStringOrEmpty stk
      else if c = CHR ''['' then push (FArr []) BeginValueOrEmpty stk
      else if c = CHR 0x22 then Go (InStr False SPlain []) stk
      else if c = CHR ''-'' then Go (InNum NNeg [c]) stk
      else if c = CHR ''0'' then Go (InNum N0 [c]) stk
      else if digit c then Go (InNum N1 [c]) stk
      else if c = CHR ''t'' then Go (InLit ''rue'' (JBool True)) stk
      else if c = CHR ''f'' then Go (InLit ''alse'' (JBool False)) stk
      else if c = CHR ''n'' then Go (InLit ''ull'' JNull) stk
      else Bad)"

fun after_value :: "char \<Rightarrow> jframe list \<Rightarrow> jout" where
  "after_value c (FArr vs # stk) =
     (if isSpace c then Go AfterValue (FArr vs # stk)
      else if c = CHR '','' then Go BeginValue (FArr vs # stk)
      else if c = CHR '']'' then close (JArr (rev vs)) stk
      else Bad)"
| "after_value c (FObj ms k # stk) =
     (if isSpace c then Go AfterValue (FObj ms k # stk)
      else if c = CHR '','' then Go BeginString (FObj ms k # stk)
      else if c = CHR ''}'' then close (JObj (rev ms)) stk
      else Bad)"
| "after_value c [] = Bad"

text \<open>One byte of a number: \<open>Some (Some ns)\<close> continues it, \<open>Some None\<close> ends it before this byte.\<close>

fun num_step :: "num_state \<Rightarrow> char \<Rightarrow> num_state option option" where
  "num_step NNeg c = (if c = CHR ''0'' then Some (Some N0) else if digit c then Some (Some N1) else None)"
| "num_step N0 c = (if c = CHR ''.'' then Some (Some NDot)
     else if c = CHR ''e'' \<or> c = CHR ''E'' then Some (Some NE) else Some None)"
| "num_step N1 c = (if digit c then Some (Some N1) else if c = CHR ''.'' then Some (Some NDot)
     else if c = CHR ''e'' \<or> c = CHR ''E'' then Some (Some NE) else Some None)"
| "num_step NDot c = (if digit c then Some (Some NDot0) else None)"
| "num_step NDot0 c = (if digit c then Some (Some NDot0)
     else if c = CHR ''e'' \<or> c = CHR ''E'' then Some (Some NE) else Some None)"
| "num_step NE c = (if c = CHR ''+'' \<or> c = CHR ''-'' then Some (Some NESign)
     else if digit c then Some (Some NE0) else None)"
| "num_step NESign c = (if digit c then Some (Some NE0) else None)"
| "num_step NE0 c = (if digit c then Some (Some NE0) else Some None)"

definition num_done :: "num_state \<Rightarrow> bool" where
  "num_done ns \<longleftrightarrow> ns \<in> {N0, N1, NDot0, NE0}"

text \<open>A string is complete: the key of the innermost object, or a value.\<close>

fun end_string :: "bool \<Rightarrow> string \<Rightarrow> jframe list \<Rightarrow> jout" where
  "end_string True k (FObj ms _ # stk) = Go AfterKey (FObj ms k # stk)"
| "end_string True k stk = Bad"
| "end_string False s stk = deliver (JStr s) stk"

fun str_step :: "bool \<Rightarrow> str_state \<Rightarrow> string \<Rightarrow> char \<Rightarrow> jframe list \<Rightarrow> jout" where
  "str_step key SPlain raw c stk =
     (if c = CHR 0x22 then end_string key (unquote (rev raw)) stk
      else if c = CHR 0x5C then Go (InStr key SEsc (c # raw)) stk
      else if byte c < 32 then Bad
      else Go (InStr key SPlain (c # raw)) stk)"
| "str_step key SEsc raw c stk =
     (if c = CHR ''u'' then Go (InStr key (SHex 3) (c # raw)) stk
      else if escape_char c \<noteq> None then Go (InStr key SPlain (c # raw)) stk
      else Bad)"
| "str_step key (SHex n) raw c stk =
     (if hex_value c = None then Bad
      else Go (InStr key (case n of 0 \<Rightarrow> SPlain | Suc m \<Rightarrow> SHex m) (c # raw)) stk)"

fun jstep :: "jstate \<Rightarrow> jframe list \<Rightarrow> char \<Rightarrow> jout" where
  "jstep BeginValue stk c = (if isSpace c then Go BeginValue stk else begin_value c stk)"
| "jstep BeginValueOrEmpty stk c =
     (if isSpace c then Go BeginValueOrEmpty stk
      else if c = CHR '']'' then after_value c stk else begin_value c stk)"
| "jstep BeginStringOrEmpty stk c =
     (if isSpace c then Go BeginStringOrEmpty stk
      else if c = CHR ''}'' then after_value c stk
      else if c = CHR 0x22 then Go (InStr True SPlain []) stk else Bad)"
| "jstep BeginString stk c =
     (if isSpace c then Go BeginString stk
      else if c = CHR 0x22 then Go (InStr True SPlain []) stk else Bad)"
| "jstep AfterKey stk c =
     (if isSpace c then Go AfterKey stk else if c = CHR '':'' then Go BeginValue stk else Bad)"
| "jstep AfterValue stk c = after_value c stk"
| "jstep (InStr key ss raw) stk c = str_step key ss raw c stk"
| "jstep (InNum ns raw) stk c = (case num_step ns c of
       None \<Rightarrow> Bad
     | Some (Some ns') \<Rightarrow> Go (InNum ns' (c # raw)) stk
     | Some None \<Rightarrow> (case deliver (JNum (rev raw)) stk of
           Go (EndTop v) _ \<Rightarrow> Halt v False
         | Go _ stk' \<Rightarrow> after_value c stk'
         | r \<Rightarrow> r))"
| "jstep (InLit [] v) stk c = Bad"
| "jstep (InLit (d # ds) v) stk c =
     (if c \<noteq> d then Bad else if ds = [] then deliver v stk else Go (InLit ds v) stk)"
| "jstep (EndTop v) stk c = Halt v False"

section \<open>Reading a value\<close>

datatype jscan = Complete json string | Malformed | Pending jstate "jframe list"

fun jrun :: "jstate \<Rightarrow> jframe list \<Rightarrow> string \<Rightarrow> jscan" where
  "jrun st stk [] = Pending st stk"
| "jrun st stk (c # cs) = (case jstep st stk c of
       Go st' stk' \<Rightarrow> jrun st' stk' cs
     | Halt v used \<Rightarrow> Complete v (if used then cs else c # cs)
     | Bad \<Rightarrow> Malformed)"

text \<open>How the stream ends: at the end of the body, or at the limit of \<^verbatim>\<open>http.MaxBytesReader\<close>.\<close>

datatype stream_end = AtEOF | AtLimit

definition MaxBytesReader :: "nat \<Rightarrow> string \<Rightarrow> string \<times> stream_end" where
  "MaxBytesReader n body = (take n body, if length body \<le> n then AtEOF else AtLimit)"

datatype json_error = SyntaxError | UnexpectedEOF | UnmarshalTypeError | UnknownField

datatype read_result = Value json string | EOF | TooLarge | ReadError json_error

text \<open>\<^verbatim>\<open>readValue\<close>: a scalar at the very end of the input is complete only if nothing failed to be read.\<close>

definition readValue :: "string \<times> stream_end \<Rightarrow> read_result" where
  "readValue inp = (case jrun BeginValue [] (fst inp) of
       Complete v rest \<Rightarrow> Value v rest
     | Malformed \<Rightarrow> ReadError SyntaxError
     | Pending st stk \<Rightarrow>
         if snd inp = AtLimit then TooLarge
         else (case st of
             EndTop v \<Rightarrow> Value v []
           | InNum ns raw \<Rightarrow> if num_done ns \<and> stk = [] then Value (JNum (rev raw)) [] else ReadError UnexpectedEOF
           | BeginValue \<Rightarrow> if stk = [] then EOF else ReadError UnexpectedEOF
           | _ \<Rightarrow> ReadError UnexpectedEOF))"

section \<open>Encoding\<close>

text \<open>\<^verbatim>\<open>htmlSafeSet\<close>: what the encoder writes as it is.\<close>

definition htmlSafe :: "char \<Rightarrow> bool" where
  "htmlSafe c \<longleftrightarrow> 32 \<le> byte c \<and> byte c < 128 \<and> c \<notin> {CHR 0x22, CHR 0x5C, CHR ''<'', CHR ''>'', CHR ''&''}"

definition escape_byte :: "char \<Rightarrow> string" where
  "escape_byte c =
     (if c = CHR 0x22 \<or> c = CHR 0x5C then [CHR 0x5C, c]
      else if c = CHR 0x08 then [CHR 0x5C, CHR ''b''] else if c = CHR 0x0C then [CHR 0x5C, CHR ''f'']
      else if c = CHR 0x0A then [CHR 0x5C, CHR ''n''] else if c = CHR 0x0D then [CHR 0x5C, CHR ''r'']
      else if c = CHR 0x09 then [CHR 0x5C, CHR ''t'']
      else CHR 0x5C # ''u00'' @ [hex_digit (byte c div 16), hex_digit (byte c mod 16)])"

function quote_body :: "string \<Rightarrow> string" where
  "quote_body s = (case s of
       [] \<Rightarrow> []
     | c # cs \<Rightarrow>
         if htmlSafe c then c # quote_body cs
         else if byte c < 128 then escape_byte c @ quote_body cs
         else (case DecodeRune s of (r, n) \<Rightarrow>
           if r = RuneError \<and> n = 1 then CHR 0x5C # ''ufffd'' @ quote_body cs
           else if r = 8232 \<or> r = 8233 then CHR 0x5C # ''u202'' @ [hex_digit (r mod 16)] @ quote_body (drop (max 1 n) s)
           else take n s @ quote_body (drop (max 1 n) s)))"
  by pat_completeness auto

termination by (relation "measure length") auto

declare quote_body.simps [simp del]

definition quote :: "string \<Rightarrow> string" where
  "quote s = CHR 0x22 # quote_body s @ [CHR 0x22]"

section \<open>UTF-8 round trip\<close>

lemma byte_char_of [simp]: "byte (char_of n) = n mod 256"
  by (simp add: of_char_of)

lemma byte_less: "byte c < 256"
  using nat_of_char_less_256 [of c] by simp

lemma byte_eq_iff: "byte c = byte d \<longleftrightarrow> c = d"
  by simp

lemma split_64:
  "r = r div 4096 * 4096 + r div 64 mod 64 * 64 + r mod (64 :: nat)"
  "r = r div 262144 * 262144 + r div 4096 mod 64 * 4096 + r div 64 mod 64 * 64 + r mod (64 :: nat)"
proof -
  have d: "r div 4096 = r div 64 div 64" "r div 262144 = r div 4096 div 64" by (simp_all add: div_mult2_eq [symmetric])
  have m: "r = r div 64 * 64 + r mod 64" "r div 64 = r div 4096 * 64 + r div 64 mod 64"
    "r div 4096 = r div 262144 * 64 + r div 4096 mod 64"
    unfolding d by (rule div_mult_mod_eq [symmetric])+
  show "r = r div 4096 * 4096 + r div 64 mod 64 * 64 + r mod 64" using m(1,2) by linarith
  show "r = r div 262144 * 262144 + r div 4096 mod 64 * 4096 + r div 64 mod 64 * 64 + r mod 64" using m by linarith
qed

lemma DecodeRune_EncodeRune:
  assumes "scalar r"
  shows "DecodeRune (EncodeRune r @ s) = (r, length (EncodeRune r))"
proof -
  consider "r < 128" | "128 \<le> r" "r < 2048" | "2048 \<le> r" "r < 65536" | "65536 \<le> r" by linarith
  then show ?thesis
  proof cases
    case 1
    then show ?thesis using assms by (simp add: EncodeRune_def DecodeRune_def)
  next
    case 2
    moreover have "r div 64 < 32" "2 \<le> r div 64" using 2 by auto
    moreover have "(192 + r div 64 - 192) * 64 + (128 + r mod 64 - 128) = r" by simp
    ultimately show ?thesis using assms
      by (simp add: EncodeRune_def DecodeRune_def is_cont_def Let_def)
  next
    case 3
    define x y z where "x = r div 4096" and "y = r div 64 mod 64" and "z = r mod 64"
    have e: "r = x * 4096 + y * 64 + z" "y < 64" "z < 64" unfolding x_def y_def z_def by (rule split_64 | simp)+
    have x: "x < 16" using e 3 by linarith
    have enc: "EncodeRune r = [char_of (224 + x), char_of (128 + y), char_of (128 + z)]"
      using 3 assms by (simp add: EncodeRune_def x_def y_def z_def)
    have "second_ok (224 + x) (char_of (128 + y))"
      using e x 3 assms by (auto simp: second_ok_def is_cont_def scalar_def)
    then show ?thesis unfolding enc using e x by (simp add: DecodeRune_def is_cont_def)
  next
    case 4
    define x y z u where "x = r div 262144" and "y = r div 4096 mod 64" and "z = r div 64 mod 64" and "u = r mod 64"
    have e: "r = x * 262144 + y * 4096 + z * 64 + u" "y < 64" "z < 64" "u < 64"
      unfolding x_def y_def z_def u_def by (rule split_64 | simp)+
    have x: "x < 5" using e 4 assms by (auto simp: scalar_def)
    have enc: "EncodeRune r = [char_of (240 + x), char_of (128 + y), char_of (128 + z), char_of (128 + u)]"
      using 4 assms by (simp add: EncodeRune_def x_def y_def z_def u_def)
    have "second_ok (240 + x) (char_of (128 + y))"
      using e x 4 assms by (auto simp: second_ok_def is_cont_def scalar_def)
    then show ?thesis unfolding enc using e x by (simp add: DecodeRune_def is_cont_def)
  qed
qed

text \<open>Text that is valid UTF-8.\<close>

definition utf8 :: "nat list \<Rightarrow> string" where
  "utf8 rs = concat (map EncodeRune rs)"

definition valid_utf8 :: "string \<Rightarrow> bool" where
  "valid_utf8 s \<longleftrightarrow> (\<exists>rs. list_all scalar rs \<and> s = utf8 rs)"

lemma EncodeRune_ascii: "r < 128 \<Longrightarrow> EncodeRune r = [char_of r]"
  by (simp add: EncodeRune_def scalar_def)

lemma EncodeRune_high:
  assumes "scalar r" "128 \<le> r"
  shows "\<exists>c cs. EncodeRune r = c # cs" "\<forall>c \<in> set (EncodeRune r). 128 \<le> byte c"
proof -
  have "r div 262144 < 5" "r div 4096 mod 64 < 64" "r div 64 mod 64 < 64" "r mod 64 < 64"
    "r < 65536 \<Longrightarrow> r div 4096 < 16" "r < 2048 \<Longrightarrow> r div 64 < 32"
    using assms(1) by (auto simp: scalar_def)
  with assms show "\<forall>c \<in> set (EncodeRune r). 128 \<le> byte c" by (auto simp: EncodeRune_def Let_def)
  show "\<exists>c cs. EncodeRune r = c # cs" by (simp add: EncodeRune_def Let_def)
qed

lemma length_EncodeRune: "1 \<le> length (EncodeRune r)"
  by (simp add: EncodeRune_def Let_def)

text \<open>One rune of text, unquoted and quoted.\<close>

lemma unquote_plain: "byte c < 128 \<Longrightarrow> c \<noteq> CHR 0x5C \<Longrightarrow> unquote (c # cs) = c # unquote cs"
  by (subst unquote.simps) simp

lemma unquote_high:
  assumes "scalar r" "128 \<le> r"
  shows "unquote (EncodeRune r @ s) = EncodeRune r @ unquote s"
proof -
  obtain c cs where e: "EncodeRune r = c # cs" using EncodeRune_high(1) [OF assms] by blast
  then have c: "128 \<le> byte c" using EncodeRune_high(2) [OF assms] by simp
  then have "c \<noteq> CHR 0x5C" by auto
  moreover have "drop (max 1 (length (EncodeRune r))) (EncodeRune r @ s) = s"
    using length_EncodeRune [of r] by (simp add: max_def)
  ultimately show ?thesis
    using c DecodeRune_EncodeRune [OF assms(1), of s] e by (subst unquote.simps) simp
qed

lemma hex_digit_value: "n < 16 \<Longrightarrow> hex_value (hex_digit n) = Some n"
proof -
  have "\<forall>n \<in> set [0..<16]. hex_value (hex_digit n) = Some n" by code_simp
  then show "n < 16 \<Longrightarrow> ?thesis" by simp
qed

lemma unquote_u4:
  assumes "n1 < 16" "n2 < 16" "n3 < 16" "n4 < 16" "\<not> is_surrogate (((n1 * 16 + n2) * 16 + n3) * 16 + n4)"
  shows "unquote (CHR 0x5C # CHR ''u'' # hex_digit n1 # hex_digit n2 # hex_digit n3 # hex_digit n4 # s) =
    EncodeRune (((n1 * 16 + n2) * 16 + n3) * 16 + n4) @ unquote s"
  using assms by (subst unquote.simps) (simp add: getu4_def hex_digit_value)

lemma hex_digit_simps [simp]: "hex_digit 0 = CHR ''0''" "hex_digit 2 = CHR ''2''" "hex_digit 8 = CHR ''8''" "hex_digit 9 = CHR ''9''"
  by (simp_all add: hex_digit_def)

lemma unquote_escape: "byte c < 128 \<Longrightarrow> unquote (escape_byte c @ s) = c # unquote s"
proof -
  assume c: "byte c < 128"
  show ?thesis
  proof (cases "c \<in> {CHR 0x22, CHR 0x5C, CHR 0x08, CHR 0x0C, CHR 0x0A, CHR 0x0D, CHR 0x09}")
    case True
    then show ?thesis by (auto simp: escape_byte_def unquote.simps [of "CHR 0x5C # _"] escape_char_def)
  next
    case False
    have "byte c div 16 * 16 + byte c mod 16 = byte c" by simp
    moreover have "EncodeRune (byte c) = [c]" using c by (simp add: EncodeRune_ascii)
    moreover have "\<not> is_surrogate (byte c)" using c by (simp add: is_surrogate_def)
    ultimately have "unquote (CHR 0x5C # CHR ''u'' # hex_digit 0 # hex_digit 0 # hex_digit (byte c div 16) # hex_digit (byte c mod 16) # s)
        = c # unquote s"
      using c unquote_u4 [of 0 0 "byte c div 16" "byte c mod 16" s] by simp
    then show ?thesis using False by (simp add: escape_byte_def)
  qed
qed

lemma quote_high:
  assumes "scalar r" "128 \<le> r" "r \<noteq> 8232" "r \<noteq> 8233"
  shows "quote_body (EncodeRune r @ s) = EncodeRune r @ quote_body s"
proof -
  obtain c cs where e: "EncodeRune r = c # cs" using EncodeRune_high(1) [OF assms(1,2)] by blast
  then have c: "128 \<le> byte c" using EncodeRune_high(2) [OF assms(1,2)] by simp
  moreover have "drop (max 1 (length (EncodeRune r))) (EncodeRune r @ s) = s"
    using length_EncodeRune [of r] by (simp add: max_def)
  moreover have "length (EncodeRune r) \<noteq> 1" if "r = RuneError"
    using that by (simp add: EncodeRune_def RuneError_def scalar_def)
  ultimately show ?thesis
    using c DecodeRune_EncodeRune [OF assms(1), of s] assms(3,4) e
    by (subst quote_body.simps) (auto simp: htmlSafe_def)
qed

lemma quote_separator:
  assumes "r = 8232 \<or> r = 8233"
  shows "quote_body (EncodeRune r @ s) =
    CHR 0x5C # CHR ''u'' # hex_digit 2 # hex_digit 0 # hex_digit 2 # hex_digit (r mod 16) # quote_body s"
proof -
  have r: "scalar r" "128 \<le> r" "r \<noteq> RuneError" using assms by (auto simp: scalar_def RuneError_def)
  obtain c cs where e: "EncodeRune r = c # cs" using EncodeRune_high(1) [OF r(1,2)] by blast
  then have c: "128 \<le> byte c" using EncodeRune_high(2) [OF r(1,2)] by simp
  have "drop (max 1 (length (EncodeRune r))) (EncodeRune r @ s) = s"
    using length_EncodeRune [of r] by (simp add: max_def)
  with c r DecodeRune_EncodeRune [OF r(1), of s] assms e show ?thesis
    by (subst quote_body.simps) (auto simp: htmlSafe_def)
qed

lemma quote_ascii:
  "byte c < 128 \<Longrightarrow> quote_body (c # s) = (if htmlSafe c then [c] else escape_byte c) @ quote_body s"
  by (subst quote_body.simps) simp

text \<open>The decoder gives back the text the encoder was given.\<close>

lemma unquote_quote:
  assumes "valid_utf8 s"
  shows "unquote (quote_body s) = s"
proof -
  obtain rs where "list_all scalar rs" "s = utf8 rs" using assms by (auto simp: valid_utf8_def)
  moreover have "list_all scalar rs \<Longrightarrow> unquote (quote_body (utf8 rs)) = utf8 rs"
  proof (induction rs)
    case Nil
    show ?case by (simp add: utf8_def quote_body.simps [of "[]"] unquote.simps [of "[]"])
  next
    case (Cons r rs)
    let ?t = "utf8 rs"
    have u: "utf8 (r # rs) = EncodeRune r @ ?t" and IH: "unquote (quote_body ?t) = ?t" and r: "scalar r"
      using Cons by (simp_all add: utf8_def)
    consider "r < 128" | "r = 8232 \<or> r = 8233" | "128 \<le> r" "r \<noteq> 8232" "r \<noteq> 8233" by linarith
    then show ?case
    proof cases
      case 1
      then have b: "byte (char_of r) < 128" "EncodeRune r = [char_of r]" by (simp_all add: EncodeRune_ascii)
      show ?thesis
      proof (cases "htmlSafe (char_of r)")
        case True
        then have "unquote (char_of r # quote_body ?t) = char_of r # ?t"
          using b(1) IH by (subst unquote_plain) (auto simp: htmlSafe_def)
        then show ?thesis using True b by (simp add: u quote_ascii)
      next
        case False
        then show ?thesis using b IH unquote_escape [OF b(1)] by (simp add: u quote_ascii)
      qed
    next
      case 2
      then have m: "r mod 16 < 16" "((2 * 16 + 0) * 16 + 2) * 16 + r mod 16 = r" "\<not> is_surrogate r"
        by (auto simp: is_surrogate_def)
      show ?thesis using unquote_u4 [of 2 0 2 "r mod 16" "quote_body ?t"] m IH by (simp add: u quote_separator [OF 2])
    next
      case 3
      then show ?thesis using quote_high [OF r] unquote_high [OF r] IH by (simp add: u)
    qed
  qed
  ultimately show ?thesis by simp
qed

section \<open>Scanning what the encoder writes\<close>

lemma scan_plain:
  "\<forall>c \<in> set xs. 32 \<le> byte c \<and> c \<noteq> CHR 0x22 \<and> c \<noteq> CHR 0x5C \<Longrightarrow>
    jrun (InStr key SPlain raw) stk (xs @ t) = jrun (InStr key SPlain (rev xs @ raw)) stk t"
  by (induction xs arbitrary: raw) auto

lemma scan_hex4:
  "n1 < 16 \<Longrightarrow> n2 < 16 \<Longrightarrow> n3 < 16 \<Longrightarrow> n4 < 16 \<Longrightarrow>
    jrun (InStr key SPlain raw) stk (CHR 0x5C # CHR ''u'' # hex_digit n1 # hex_digit n2 # hex_digit n3 # hex_digit n4 # t) =
    jrun (InStr key SPlain (hex_digit n4 # hex_digit n3 # hex_digit n2 # hex_digit n1 # CHR ''u'' # CHR 0x5C # raw)) stk t"
  by (simp add: hex_digit_value numeral_3_eq_3)

lemma scan_escape:
  assumes "byte c < 128"
  shows "jrun (InStr key SPlain raw) stk (escape_byte c @ t) = jrun (InStr key SPlain (rev (escape_byte c) @ raw)) stk t"
proof (cases "c \<in> {CHR 0x22, CHR 0x5C, CHR 0x08, CHR 0x0C, CHR 0x0A, CHR 0x0D, CHR 0x09}")
  case True
  then show ?thesis by (auto simp: escape_byte_def escape_char_def)
next
  case False
  then show ?thesis
    using assms scan_hex4 [of 0 0 "byte c div 16" "byte c mod 16" key raw stk t] by (simp add: escape_byte_def)
qed

lemma DecodeRune_bytes:
  assumes "DecodeRune (c # cs) = (r, n)" "128 \<le> byte c" "\<not> (r = RuneError \<and> n = 1)" "d \<in> set (take n (c # cs))"
  shows "128 \<le> byte d"
  using assms
  by (auto simp: DecodeRune_def Let_def second_ok_def is_cont_def split: if_splits list.splits)

lemma scan_body:
  "jrun (InStr key SPlain raw) stk (quote_body s @ t) = jrun (InStr key SPlain (rev (quote_body s) @ raw)) stk t"
proof (induction s arbitrary: raw rule: quote_body.induct)
  case (1 s)
  show ?case
  proof (cases s)
    case Nil
    then show ?thesis by (simp add: quote_body.simps [of "[]"])
  next
    case (Cons c cs)
    obtain r n where d: "DecodeRune s = (r, n)" by fastforce
    consider (safe) "htmlSafe c" | (ascii) "\<not> htmlSafe c" "byte c < 128"
      | (bad) "\<not> htmlSafe c" "\<not> byte c < 128" "r = RuneError" "n = 1"
      | (sep) "\<not> htmlSafe c" "\<not> byte c < 128" "\<not> (r = RuneError \<and> n = 1)" "r = 8232 \<or> r = 8233"
      | (raw) "\<not> htmlSafe c" "\<not> byte c < 128" "\<not> (r = RuneError \<and> n = 1)" "\<not> (r = 8232 \<or> r = 8233)"
      by blast
    then show ?thesis
    proof cases
      case safe
      then have q: "quote_body s = c # quote_body cs" by (subst quote_body.simps) (simp add: Cons)
      show ?thesis using safe 1(1) [OF Cons safe] by (simp add: q htmlSafe_def)
    next
      case ascii
      then have q: "quote_body s = escape_byte c @ quote_body cs" by (subst quote_body.simps) (simp add: Cons)
      show ?thesis using 1(2) [OF Cons ascii] by (simp add: q scan_escape [OF ascii(2)])
    next
      case bad
      then have q: "quote_body s = CHR 0x5C # CHR ''u'' # hex_digit 15 # hex_digit 15 # hex_digit 15 # hex_digit 13 # quote_body cs"
        using d by (subst quote_body.simps) (simp add: Cons hex_digit_def)
      show ?thesis using 1(3) [OF Cons bad(1,2) d [symmetric]] bad by (simp add: q scan_hex4 del: jrun.simps)
    next
      case sep
      then have q: "quote_body s = CHR 0x5C # CHR ''u'' # hex_digit 2 # hex_digit 0 # hex_digit 2 # hex_digit (r mod 16) #
          quote_body (drop (max 1 n) s)"
        using d by (subst quote_body.simps) (auto simp: Cons)
      show ?thesis using 1(4) [OF Cons sep(1,2) d [symmetric] sep(3,4)] by (simp add: q scan_hex4 del: jrun.simps hex_digit_simps)
    next
      case raw
      then have q: "quote_body s = take n s @ quote_body (drop (max 1 n) s)"
        using d by (subst quote_body.simps) (auto simp: Cons)
      have "128 \<le> byte x" if "x \<in> set (take n s)" for x
        using DecodeRune_bytes [of c cs r n x] d raw that Cons by simp
      then have "\<forall>x \<in> set (take n s). 32 \<le> byte x \<and> x \<noteq> CHR 0x22 \<and> x \<noteq> CHR 0x5C" by fastforce
      from scan_plain [OF this] show ?thesis using 1(5) [OF Cons raw(1,2) d [symmetric] raw(3,4)] by (simp add: q)
    qed
  qed
qed

lemma scan_key:
  assumes "valid_utf8 k" "st = BeginString \<or> st = BeginStringOrEmpty"
  shows "jrun st (FObj ms k0 # stk) (quote k @ t) = jrun AfterKey (FObj ms k # stk) t"
  using assms scan_body [of True "[]" "FObj ms k0 # stk" k "CHR 0x22 # t"]
  by (auto simp: quote_def isSpace_def unquote_quote)

lemma scan_text:
  assumes "valid_utf8 s"
  shows "jrun BeginValue stk (quote s @ t) = (case deliver (JStr s) stk of Go st' stk' \<Rightarrow> jrun st' stk' t | _ \<Rightarrow> Malformed)"
    "jrun BeginValueOrEmpty stk (quote s @ t) = (case deliver (JStr s) stk of Go st' stk' \<Rightarrow> jrun st' stk' t | _ \<Rightarrow> Malformed)"
proof -
  have "deliver (JStr s) stk \<noteq> Halt v b" for v b by (cases "(JStr s, stk)" rule: deliver.cases) simp_all
  with assms scan_body [of False "[]" stk s "CHR 0x22 # t"]
  show "jrun BeginValue stk (quote s @ t) = (case deliver (JStr s) stk of Go st' stk' \<Rightarrow> jrun st' stk' t | _ \<Rightarrow> Malformed)"
    "jrun BeginValueOrEmpty stk (quote s @ t) = (case deliver (JStr s) stk of Go st' stk' \<Rightarrow> jrun st' stk' t | _ \<Rightarrow> Malformed)"
    by (simp_all add: quote_def isSpace_def begin_value_def digit_def unquote_quote split: jout.splits)
qed

section \<open>Objects and arrays of strings\<close>

text \<open>What \<^verbatim>\<open>json.Marshal\<close> writes for a struct of strings and for a slice of strings.\<close>

definition member_text :: "string \<times> string \<Rightarrow> string" where
  "member_text m = quote (fst m) @ '':'' @ quote (snd m)"

definition marshal_object :: "(string \<times> string) list \<Rightarrow> string" where
  "marshal_object ms = ''{'' @ strings_Join (map member_text ms) '','' @ ''}''"

definition marshal_array :: "string list \<Rightarrow> string" where
  "marshal_array xs = ''['' @ strings_Join (map quote xs) '','' @ '']''"

definition text_members :: "(string \<times> string) list \<Rightarrow> (string \<times> json) list" where
  "text_members ms = map (\<lambda>(k, v). (k, JStr v)) ms"

lemma scan_member:
  assumes "valid_utf8 k" "valid_utf8 v" "st = BeginString \<or> st = BeginStringOrEmpty"
  shows "jrun st (FObj ms k0 # stk) (member_text (k, v) @ t) = jrun AfterValue (FObj ((k, JStr v) # ms) k # stk) t"
  using assms by (simp add: member_text_def scan_key scan_text isSpace_def)

lemma scan_members:
  "\<forall>(k, v) \<in> set (m # ms). valid_utf8 k \<and> valid_utf8 v \<Longrightarrow> st = BeginString \<or> st = BeginStringOrEmpty \<Longrightarrow>
    \<exists>k1. jrun st (FObj acc k0 # stk) (strings_Join (map member_text (m # ms)) '','' @ t) =
      jrun AfterValue (FObj (rev (text_members (m # ms)) @ acc) k1 # stk) t"
proof (induction ms arbitrary: m acc k0 st)
  case Nil
  obtain k v where "m = (k, v)" by fastforce
  with Nil scan_member [of k v st acc k0 stk t] show ?case by (auto simp: text_members_def)
next
  case (Cons m' ms)
  obtain k v where m: "m = (k, v)" by fastforce
  have 1: "jrun st (FObj acc k0 # stk) (strings_Join (map member_text (m # m' # ms)) '','' @ t) =
      jrun BeginString (FObj ((k, JStr v) # acc) k # stk) (strings_Join (map member_text (m' # ms)) '','' @ t)"
    using Cons.prems scan_member [of k v st acc k0 stk "CHR '','' # strings_Join (map member_text (m' # ms)) '','' @ t"]
    by (simp add: m isSpace_def)
  obtain k1 where "jrun BeginString (FObj ((k, JStr v) # acc) k # stk) (strings_Join (map member_text (m' # ms)) '','' @ t) =
      jrun AfterValue (FObj (rev (text_members (m' # ms)) @ (k, JStr v) # acc) k1 # stk) t"
    using Cons.IH [of m' BeginString "(k, JStr v) # acc" k] Cons.prems by auto
  with 1 show ?case by (auto simp: text_members_def m)
qed

lemma read_object:
  assumes "\<forall>(k, v) \<in> set ms. valid_utf8 k \<and> valid_utf8 v"
  shows "readValue (marshal_object ms @ t, e) = Value (JObj (text_members ms)) t"
proof -
  have start: "jrun BeginValue [] (marshal_object ms @ t) =
      jrun BeginStringOrEmpty [FObj [] ''''] (strings_Join (map member_text ms) '','' @ ''}'' @ t)"
    by (simp add: marshal_object_def isSpace_def begin_value_def push_def maxNestingDepth_def)
  show ?thesis
  proof (cases ms)
    case Nil
    then show ?thesis using start by (simp add: readValue_def isSpace_def close_def text_members_def)
  next
    case (Cons m ms')
    then obtain k1 where "jrun BeginStringOrEmpty [FObj [] ''''] (strings_Join (map member_text ms) '','' @ ''}'' @ t) =
        jrun AfterValue [FObj (rev (text_members ms)) k1] (''}'' @ t)"
      using scan_members [of m ms' BeginStringOrEmpty "[]" "''''" "[]" "''}'' @ t"] assms by auto
    with start show ?thesis by (simp add: readValue_def isSpace_def close_def)
  qed
qed

lemma scan_elements:
  "list_all valid_utf8 (x # xs) \<Longrightarrow> st = BeginValue \<or> st = BeginValueOrEmpty \<Longrightarrow>
    jrun st (FArr acc # stk) (strings_Join (map quote (x # xs)) '','' @ t) =
      jrun AfterValue (FArr (rev (map JStr (x # xs)) @ acc) # stk) t"
proof (induction xs arbitrary: x acc st)
  case Nil
  then show ?case by (auto simp: scan_text)
next
  case (Cons y ys)
  have "jrun st (FArr acc # stk) (strings_Join (map quote (x # y # ys)) '','' @ t) =
      jrun BeginValue (FArr (JStr x # acc) # stk) (strings_Join (map quote (y # ys)) '','' @ t)"
    using Cons.prems by (auto simp: scan_text isSpace_def)
  with Cons.IH [of y BeginValue "JStr x # acc"] Cons.prems show ?case by simp
qed

lemma read_array:
  assumes "list_all valid_utf8 xs"
  shows "readValue (marshal_array xs @ t, e) = Value (JArr (map JStr xs)) t"
proof -
  have start: "jrun BeginValue [] (marshal_array xs @ t) =
      jrun BeginValueOrEmpty [FArr []] (strings_Join (map quote xs) '','' @ '']'' @ t)"
    by (simp add: marshal_array_def isSpace_def begin_value_def push_def maxNestingDepth_def)
  show ?thesis
  proof (cases xs)
    case Nil
    then show ?thesis using start by (simp add: readValue_def isSpace_def close_def)
  next
    case (Cons y ys)
    then show ?thesis
      using start scan_elements [of y ys BeginValueOrEmpty "[]" "[]" "'']'' @ t"] assms
      by (simp add: readValue_def isSpace_def close_def)
  qed
qed

section \<open>The end of the stream\<close>

definition wf_jstate :: "jstate \<Rightarrow> jframe list \<Rightarrow> bool" where
  "wf_jstate st stk \<longleftrightarrow>
     (st \<in> {BeginValueOrEmpty, BeginStringOrEmpty, BeginString, AfterKey, AfterValue} \<longrightarrow> stk \<noteq> [])"

lemma deliver_wf:
  "deliver v stk = Go st' stk' \<Longrightarrow> wf_jstate st' stk' \<and> st' \<noteq> BeginValue"
  by (cases "(v, stk)" rule: deliver.cases) (auto simp: wf_jstate_def)

lemma after_value_wf:
  "after_value c stk = Go st' stk' \<Longrightarrow> wf_jstate st' stk' \<and> (st' = BeginValue \<longrightarrow> stk' \<noteq> [])"
  by (cases "(c, stk)" rule: after_value.cases)
    (auto simp: wf_jstate_def close_def dest: deliver_wf split: if_splits)

lemma begin_value_wf:
  "begin_value c stk = Go st' stk' \<Longrightarrow> wf_jstate st' stk' \<and> st' \<noteq> BeginValue"
  by (auto simp: begin_value_def push_def wf_jstate_def split: if_splits)

lemma str_step_wf:
  "str_step key ss raw c stk = Go st' stk' \<Longrightarrow> wf_jstate st' stk' \<and> st' \<noteq> BeginValue"
proof (cases ss)
  case SPlain
  have "end_string key k stk = Go st' stk' \<Longrightarrow> wf_jstate st' stk' \<and> st' \<noteq> BeginValue" for k
    by (cases "(key, k, stk)" rule: end_string.cases) (auto simp: wf_jstate_def dest: deliver_wf)
  then show "str_step key ss raw c stk = Go st' stk' \<Longrightarrow> ?thesis"
    using SPlain by (auto simp: wf_jstate_def split: if_splits)
qed (auto simp: wf_jstate_def split: if_splits)

lemma jstep_wf:
  assumes "wf_jstate st stk" "jstep st stk c = Go st' stk'"
  shows "wf_jstate st' stk' \<and> (st' = BeginValue \<and> stk' = [] \<longrightarrow> st = BeginValue \<and> stk = [] \<and> isSpace c)"
proof (cases st)
  case (InNum ns raw)
  show ?thesis
  proof (cases "num_step ns c")
    case (Some x)
    show ?thesis
    proof (cases x)
      case None
      obtain st1 stk1 where d: "deliver (JNum (rev raw)) stk = Go st1 stk1"
        by (cases "(JNum (rev raw), stk)" rule: deliver.cases) auto
      with assms(2) InNum Some None have "after_value c stk1 = Go st' stk'" by (auto split: jstate.splits)
      then show ?thesis using after_value_wf by blast
    qed (use assms(2) InNum Some in \<open>auto simp: wf_jstate_def\<close>)
  qed (use assms(2) InNum in simp)
next
  case (InLit ds v)
  then show ?thesis using assms by (cases ds) (auto simp: wf_jstate_def dest: deliver_wf split: if_splits)
qed (use assms in \<open>auto simp: wf_jstate_def dest: begin_value_wf after_value_wf str_step_wf split: if_splits\<close>)

lemma jrun_spaces:
  "wf_jstate st stk \<Longrightarrow> jrun st stk s = Pending BeginValue [] \<Longrightarrow> st = BeginValue \<and> stk = [] \<and> list_all isSpace s"
proof (induction s arbitrary: st stk)
  case (Cons c s)
  then obtain st' stk' where g: "jstep st stk c = Go st' stk'" by (auto split: jout.splits)
  with Cons.prems Cons.IH [of st' stk'] jstep_wf [OF Cons.prems(1) g] show ?case by simp
qed simp

lemma jrun_spaces_iff: "jrun BeginValue [] s = Pending BeginValue [] \<longleftrightarrow> list_all isSpace s"
proof
  show "list_all isSpace s \<Longrightarrow> jrun BeginValue [] s = Pending BeginValue []" by (induction s) simp_all
qed (use jrun_spaces [of BeginValue "[]" s] in \<open>simp add: wf_jstate_def\<close>)

text \<open>The decoder sees the end of the input exactly if nothing but white space is left of all of it.\<close>

lemma readValue_EOF_iff: "readValue inp = EOF \<longleftrightarrow> snd inp = AtEOF \<and> list_all isSpace (fst inp)"
proof -
  have "readValue inp = EOF \<longleftrightarrow> snd inp \<noteq> AtLimit \<and> jrun BeginValue [] (fst inp) = Pending BeginValue []"
    by (auto simp: readValue_def split: jscan.splits jstate.splits if_splits)
  then show ?thesis by (cases "snd inp") (simp_all add: jrun_spaces_iff)
qed

lemma jrun_suffix: "jrun st stk s = Complete v rest \<Longrightarrow> \<exists>pre. s = pre @ rest"
proof (induction s arbitrary: st stk)
  case (Cons c s)
  then show ?case by (auto split: jout.splits if_splits) (metis append_Cons)+
qed simp

lemma readValue_suffix: "readValue inp = Value v rest \<Longrightarrow> \<exists>pre. fst inp = pre @ rest"
  by (auto simp: readValue_def dest: jrun_suffix split: jscan.splits jstate.splits if_splits)

end
