(* ===== verification/Decode_Proposal.thy ===== *)
theory Decode_Proposal
  imports Json Policy
begin

text \<open>
  \<^verbatim>\<open>decodeProposal\<close> of \<^verbatim>\<open>cmd/sentrygate/handler.go\<close>: how the body of a request becomes an
  \<^verbatim>\<open>AgentProposal\<close>. The decoder fills the fields of a struct from the members of an object; the texts
  of the errors it reports are the parameter \<open>json_texts\<close>.
\<close>

section \<open>Filling the struct\<close>

definition maxBodyBytes :: nat where
  "maxBodyBytes = 65536"

definition proposalIDPattern :: "string \<Rightarrow> bool" where
  "proposalIDPattern = class_match (\<lambda>c. is_alnum c \<or> c \<in> set ''._:-'') 1 128"

definition proposalIDPattern_String :: string where
  "proposalIDPattern_String = ''^[A-Za-z0-9._:-]{1,128}$''"

datatype proposal_field = FieldID | FieldType | FieldTargetID | FieldPayload

definition proposal_fields :: "(string \<times> proposal_field) list" where
  "proposal_fields = [(''id'', FieldID), (''type'', FieldType), (''target_id'', FieldTargetID), (''payload'', FieldPayload)]"

text \<open>
  A key names a field if it is the field's name, else if it is so up to case. Letters outside ASCII
  that fold to ASCII ones fold to \<^verbatim>\<open>S\<close> and \<^verbatim>\<open>K\<close>, which no field name has.
\<close>

definition upper :: "char \<Rightarrow> char" where
  "upper c = (if 97 \<le> byte c \<and> byte c \<le> 122 then char_of (byte c - 32) else c)"

definition field_of :: "string \<Rightarrow> proposal_field option" where
  "field_of key = (case map_of proposal_fields key of
       Some f \<Rightarrow> Some f
     | None \<Rightarrow> map_of (map (\<lambda>(n, f). (map upper n, f)) proposal_fields) (map upper key))"

fun set_field :: "proposal_field \<Rightarrow> string \<Rightarrow> AgentProposal \<Rightarrow> AgentProposal" where
  "set_field FieldID s p = p\<lparr>p_ID := s\<rparr>"
| "set_field FieldType s p = p\<lparr>p_Type := s\<rparr>"
| "set_field FieldTargetID s p = p\<lparr>p_TargetID := s\<rparr>"
| "set_field FieldPayload s p = p\<lparr>p_Payload := s\<rparr>"

text \<open>
  The members in order: a string is stored, \<^verbatim>\<open>null\<close> changes nothing, any other value and any other key
  is an error. Decoding goes on after an error, and the first one is reported.
\<close>

definition save_error :: "json_error option \<Rightarrow> json_error \<Rightarrow> json_error option" where
  "save_error saved e = (case saved of None \<Rightarrow> Some e | Some e' \<Rightarrow> Some e')"

fun unmarshal_members ::
  "(string \<times> json) list \<Rightarrow> json_error option \<Rightarrow> AgentProposal \<Rightarrow> json_error option \<times> AgentProposal" where
  "unmarshal_members [] saved p = (saved, p)"
| "unmarshal_members ((k, v) # ms) saved p = (case field_of k of
       None \<Rightarrow> unmarshal_members ms (save_error saved UnknownField) p
     | Some f \<Rightarrow> (case v of
         JStr s \<Rightarrow> unmarshal_members ms saved (set_field f s p)
       | JNull \<Rightarrow> unmarshal_members ms saved p
       | _ \<Rightarrow> unmarshal_members ms (save_error saved UnmarshalTypeError) p))"

definition unmarshal_proposal :: "json \<Rightarrow> AgentProposal \<Rightarrow> json_error option \<times> AgentProposal" where
  "unmarshal_proposal v p = (case v of
       JNull \<Rightarrow> (None, p)
     | JObj ms \<Rightarrow> unmarshal_members ms None p
     | _ \<Rightarrow> (Some UnmarshalTypeError, p))"

section \<open>decodeProposal\<close>

type_synonym json_texts = "json_error \<Rightarrow> string"

definition decodeProposal ::
  "json_texts \<Rightarrow> string \<Rightarrow> AgentProposal \<Rightarrow> (nat \<times> string) + AgentProposal" where
  "decodeProposal txt body prop =
     (let inp = MaxBytesReader maxBodyBytes body;
          tooLarge = Inl (413, ''request body exceeds '' @ fmt_d maxBodyBytes @ '' bytes'');
          bad = (\<lambda>msg. Inl (400, ''invalid agent proposal: '' @ msg))
      in case readValue inp of
           TooLarge \<Rightarrow> tooLarge
         | EOF \<Rightarrow> bad ''EOF''
         | ReadError e \<Rightarrow> bad (txt e)
         | Value v rest \<Rightarrow> (case unmarshal_proposal v prop of
             (Some e, _) \<Rightarrow> bad (txt e)
           | (None, prop) \<Rightarrow> (case readValue (rest, snd inp) of
               TooLarge \<Rightarrow> tooLarge
             | Value _ _ \<Rightarrow> bad ''unexpected data after JSON object''
             | ReadError _ \<Rightarrow> bad ''unexpected data after JSON object''
             | EOF \<Rightarrow>
                 if \<not> proposalIDPattern (p_ID prop) then bad (''id must match '' @ proposalIDPattern_String)
                 else Inr prop)))"

text \<open>\<^verbatim>\<open>json.Marshal\<close> of a proposal, as a client sends it.\<close>

definition marshal_proposal :: "AgentProposal \<Rightarrow> string" where
  "marshal_proposal p = marshal_object [(''id'', p_ID p), (''type'', p_Type p), (''target_id'', p_TargetID p), (''payload'', p_Payload p)]"

section \<open>Facts\<close>

lemma decodeProposal_status: "decodeProposal txt body p = Inl x \<Longrightarrow> fst x \<in> {400, 413}"
  by (auto simp: decodeProposal_def Let_def split: read_result.splits option.splits if_splits prod.splits)

lemma field_names [simp]:
  "field_of ''id'' = Some FieldID" "field_of ''type'' = Some FieldType" "field_of ''target_id'' = Some FieldTargetID"
  "field_of ''payload'' = Some FieldPayload"
  by (simp_all add: field_of_def proposal_fields_def)

lemma ascii_utf8: "\<forall>c \<in> set s. byte c < 128 \<Longrightarrow> valid_utf8 s"
proof -
  assume a: "\<forall>c \<in> set s. byte c < 128"
  then have "utf8 (map byte s) = s" by (induction s) (simp_all add: utf8_def EncodeRune_ascii)
  moreover have "list_all scalar (map byte s)" using a by (auto simp: list_all_iff scalar_def)
  ultimately show ?thesis unfolding valid_utf8_def by metis
qed

lemma field_names_utf8 [simp]:
  "valid_utf8 ''id''" "valid_utf8 ''type''" "valid_utf8 ''target_id''" "valid_utf8 ''payload''"
  by (rule ascii_utf8, simp)+

definition utf8_proposal :: "AgentProposal \<Rightarrow> bool" where
  "utf8_proposal p \<longleftrightarrow> valid_utf8 (p_ID p) \<and> valid_utf8 (p_Type p) \<and> valid_utf8 (p_TargetID p) \<and> valid_utf8 (p_Payload p)"

text \<open>White space around the object is accepted, as long as the limit is kept.\<close>

lemma decode_marshal:
  assumes "utf8_proposal p" "proposalIDPattern (p_ID p)" "length (marshal_proposal p @ ws) \<le> maxBodyBytes"
    and "list_all isSpace ws"
  shows "decodeProposal txt (marshal_proposal p @ ws) p0 = Inr p"
proof -
  let ?ms = "[(''id'', p_ID p), (''type'', p_Type p), (''target_id'', p_TargetID p), (''payload'', p_Payload p)]"
  have r: "readValue (marshal_proposal p @ ws, AtEOF) = Value (JObj (text_members ?ms)) ws"
    unfolding marshal_proposal_def by (rule read_object) (use assms(1) in \<open>auto simp: utf8_proposal_def\<close>)
  have "readValue (ws, AtEOF) = EOF" using assms(4) by (simp add: readValue_EOF_iff)
  with r assms(2,3) show ?thesis
    by (simp add: decodeProposal_def MaxBytesReader_def unmarshal_proposal_def text_members_def)
qed

lemma unmarshal_saved: "fst (unmarshal_members ms (Some e) p) = Some e"
proof (induction ms arbitrary: p)
  case (Cons m ms)
  then show ?case by (cases m) (auto simp: save_error_def split: option.splits json.splits)
qed simp

definition field_member :: "string \<times> json \<Rightarrow> bool" where
  "field_member m \<longleftrightarrow> field_of (fst m) \<noteq> None \<and> (snd m = JNull \<or> (\<exists>s. snd m = JStr s))"

text \<open>The value a field ends up with: the last string given for it, else what it held.\<close>

fun last_string :: "proposal_field \<Rightarrow> (string \<times> json) list \<Rightarrow> string \<Rightarrow> string" where
  "last_string f [] s = s"
| "last_string f ((k, v) # ms) s =
     last_string f ms (if field_of k = Some f then (case v of JStr s' \<Rightarrow> s' | _ \<Rightarrow> s) else s)"

lemma unmarshal_None:
  "unmarshal_members ms None p = (None, p') \<Longrightarrow> list_all field_member ms \<and>
    p' = \<lparr>p_ID = last_string FieldID ms (p_ID p), p_Type = last_string FieldType ms (p_Type p),
      p_TargetID = last_string FieldTargetID ms (p_TargetID p), p_Payload = last_string FieldPayload ms (p_Payload p)\<rparr>"
proof (induction ms arbitrary: p)
  case (Cons m ms)
  obtain k v where m: "m = (k, v)" by fastforce
  have no: "unmarshal_members ms (Some e) q \<noteq> (None, p')" for e q using unmarshal_saved [of ms e q] by auto
  obtain f where f: "field_of k = Some f" using Cons.prems no by (cases "field_of k") (auto simp: m save_error_def)
  have v: "v = JNull \<or> (\<exists>s. v = JStr s)" using Cons.prems no f by (cases v) (auto simp: m save_error_def)
  then show ?case
  proof
    assume "v = JNull"
    with Cons f show ?thesis by (simp add: m field_member_def)
  next
    assume "\<exists>s. v = JStr s"
    then obtain s where "v = JStr s" by blast
    with Cons.IH [of "set_field f s p"] Cons.prems f show ?thesis by (cases f) (simp_all add: m field_member_def)
  qed
qed simp

section \<open>Properties\<close>

text \<open>
  C21. What a client encodes is what the gateway decodes: a proposal of valid UTF-8 text whose ID has
  the required form comes back unchanged, whatever the envelope held before and whatever white space
  follows, as long as the body keeps the limit.
\<close>

theorem decode_roundtrip:
  assumes "utf8_proposal p" "proposalIDPattern (p_ID p)" "length (marshal_proposal p @ ws) \<le> maxBodyBytes"
    and "list_all isSpace ws"
  shows "decodeProposal txt (marshal_proposal p @ ws) p0 = Inr p"
  by (rule decode_marshal [OF assms])

definition sample_prop :: AgentProposal where
  "sample_prop = \<lparr>p_ID = ''p1'', p_Type = ''C'', p_TargetID = ''t'', p_Payload = ''''\<rparr>"

definition sample_body :: string where
  "sample_body = marshal_proposal sample_prop"

lemma quote_body_plain: "list_all htmlSafe s \<Longrightarrow> quote_body s = s"
proof (induction s)
  case (Cons c s)
  then show ?case by (subst quote_body.simps) simp
qed (simp add: quote_body.simps [of "[]"])

lemma sample_prop_ok:
  "utf8_proposal sample_prop" "proposalIDPattern (p_ID sample_prop)" "length (marshal_proposal sample_prop) \<le> maxBodyBytes"
proof -
  show "utf8_proposal sample_prop" unfolding utf8_proposal_def sample_prop_def by (simp add: ascii_utf8)
  show "proposalIDPattern (p_ID sample_prop)"
    by (simp add: sample_prop_def proposalIDPattern_def class_match_def is_alnum_def is_upper_def is_lower_def
        is_digit_def in_range_def of_char_def)
  show "length (marshal_proposal sample_prop) \<le> maxBodyBytes"
    by (simp add: marshal_proposal_def sample_prop_def marshal_object_def member_text_def quote_def quote_body_plain
        htmlSafe_def maxBodyBytes_def)
qed

theorem decode_roundtrip_witness:
  "decodeProposal (\<lambda>_. ''invalid'') (marshal_proposal sample_prop @ []) sample_prop = Inr sample_prop"
  by (rule decode_roundtrip) (simp_all add: sample_prop_ok)

text \<open>
  C22. A body is accepted only if all of it is read, it is one JSON object and white space, every key
  names a field of a proposal, and every value is a string or null. The proposal consists of the last
  string given for each field, and its ID has the required form.
\<close>

theorem decode_strict:
  assumes "decodeProposal txt body p0 = Inr p" "p_ID p0 = ''''"
  shows "\<exists>obj ws ms. body = obj @ ws \<and> length body \<le> maxBodyBytes \<and> list_all isSpace ws \<and>
    readValue (body, AtEOF) = Value (JObj ms) ws \<and> list_all field_member ms \<and>
    p = \<lparr>p_ID = last_string FieldID ms (p_ID p0), p_Type = last_string FieldType ms (p_Type p0),
      p_TargetID = last_string FieldTargetID ms (p_TargetID p0), p_Payload = last_string FieldPayload ms (p_Payload p0)\<rparr> \<and>
    proposalIDPattern (p_ID p)"
proof -
  let ?inp = "MaxBytesReader maxBodyBytes body"
  obtain v ws where r: "readValue ?inp = Value v ws" and u: "unmarshal_proposal v p0 = (None, p)"
    and e: "readValue (ws, snd ?inp) = EOF" and i: "proposalIDPattern (p_ID p)"
    using assms(1) by (auto simp: decodeProposal_def Let_def split: read_result.splits prod.splits option.splits if_splits)
  have l: "length body \<le> maxBodyBytes" "list_all isSpace ws"
    using e by (auto simp: readValue_EOF_iff MaxBytesReader_def split: if_splits)
  then have b: "?inp = (body, AtEOF)" by (simp add: MaxBytesReader_def)
  have "\<not> proposalIDPattern ''''" by (simp add: proposalIDPattern_def class_match_def)
  then obtain ms where v: "v = JObj ms" "unmarshal_members ms None p0 = (None, p)"
    using u i assms(2) by (auto simp: unmarshal_proposal_def split: json.splits)
  obtain obj where "body = obj @ ws" using readValue_suffix [OF r] by (auto simp: b)
  with l b r v(1) unmarshal_None [OF v(2)] i show ?thesis by auto
qed

theorem decode_strict_witness:
  "\<exists>ws ms. readValue (marshal_proposal sample_prop, AtEOF) = Value (JObj ms) ws \<and> list_all field_member ms \<and> list_all isSpace ws"
proof -
  let ?z = "sample_prop\<lparr>p_ID := ''''\<rparr>"
  have "decodeProposal (\<lambda>_. ''invalid'') (marshal_proposal sample_prop) ?z = Inr sample_prop"
    using decode_marshal [of sample_prop "[]"] sample_prop_ok by simp
  from decode_strict [OF this] show ?thesis by auto
qed

end
