(* ===== verification/Handler.thy ===== *)
theory Handler
  imports Auth Proxy Record_Store Decode_Proposal
begin

text \<open>
  \<^verbatim>\<open>cmd/sentrygate/handler.go\<close>: the HTTP routes and the
  handler \<^verbatim>\<open>intercept\<close> that evaluates a proposal, records the decision and starts the workflow.

  The stores and the Temporal client are the functions of \<open>apiServer\<close>; what the outside
  contributes to one request (clock, random decision ID, trace ID, the end of its context, the
  fault of its store call) is \<open>request_env\<close>. A response is its status and the value that is
  encoded into the body. Logging and tracing spans are left out.
\<close>

section \<open>Requests and responses\<close>

record interceptResponse =
  ir_Status :: string
  ir_Verdict :: Verdict
  ir_Reasons :: "ReasonCode list"
  ir_DecisionID :: string
  ir_ProposalID :: string
  ir_WorkflowID :: string
  ir_RunID :: string
  ir_Next :: string
  ir_Error :: string

definition zero_interceptResponse :: interceptResponse where
  "zero_interceptResponse = \<lparr>ir_Status = '''', ir_Verdict = Verdict_other '''', ir_Reasons = [], ir_DecisionID = '''',
     ir_ProposalID = '''', ir_WorkflowID = '''', ir_RunID = '''', ir_Next = '''', ir_Error = ''''\<rparr>"

datatype body =
    BodyText string
  | BodyResponse interceptResponse
  | BodyDecisions "DecisionRecord list"
  | BodyAudit "AuditRecord list"
  | BodyStatus Status

record http_response =
  hr_status :: nat
  hr_body :: body

definition writeJSON :: "nat \<Rightarrow> body \<Rightarrow> http_response" where
  "writeJSON status v = \<lparr>hr_status = status, hr_body = v\<rparr>"

definition writeError :: "nat \<Rightarrow> string \<Rightarrow> string \<Rightarrow> http_response" where
  "writeError status statusText msg =
     writeJSON status (BodyResponse (zero_interceptResponse\<lparr>ir_Status := statusText, ir_Error := msg\<rparr>))"

record StartWorkflowOptions =
  sw_ID :: string
  sw_TaskQueue :: string
  sw_ErrorWhenAlreadyStarted :: bool

datatype start_result = Started string string | AlreadyStarted | StartFailed

record ('f, 's, 'w) apiServer =
  ap_keyring :: Keyring
  ap_taskQueue :: string
  ap_AppendDecision :: "'f \<Rightarrow> DecisionRecord \<Rightarrow> 's \<Rightarrow> go_error option \<times> 's"
  ap_ListDecisionsByProposal :: "'f \<Rightarrow> string \<Rightarrow> 's \<Rightarrow> go_error + DecisionRecord list"
  ap_ListByProposal :: "'f \<Rightarrow> string \<Rightarrow> 's \<Rightarrow> go_error + AuditRecord list"
  ap_Ping :: "'f \<Rightarrow> 's \<Rightarrow> go_error option"
  ap_ExecuteWorkflow :: "StartWorkflowOptions \<Rightarrow> ExecutionRequest \<Rightarrow> 'w \<Rightarrow> start_result \<times> 'w"

record 'f request_env =
  re_proxy :: SentryProxy
  re_status :: Status
  re_ended :: "string option"
  re_fault :: 'f
  re_decisionID :: string
  re_traceID :: string
  re_now :: time

section \<open>The small handlers\<close>

definition healthz :: http_response where
  "healthz = \<lparr>hr_status = 200, hr_body = BodyText ''ok''\<rparr>"

definition readyz :: "('f, 's, 'w) apiServer \<Rightarrow> 'f request_env \<Rightarrow> 's \<Rightarrow> http_response" where
  "readyz a env s = (case ap_Ping a (re_fault env) s of
       Some _ \<Rightarrow> \<lparr>hr_status = 503, hr_body = BodyText (''audit db not ready'' @ [CHR 0x0A])\<rparr>
     | None \<Rightarrow> \<lparr>hr_status = 200, hr_body = BodyText ''ready''\<rparr>)"

definition policyStatus :: "'f request_env \<Rightarrow> http_response" where
  "policyStatus env = writeJSON 200 (BodyStatus (re_status env))"

definition decisionsByProposal :: "('f, 's, 'w) apiServer \<Rightarrow> 'f request_env \<Rightarrow> string \<Rightarrow> 's \<Rightarrow> http_response" where
  "decisionsByProposal a env pid s =
     (if \<not> proposalIDPattern pid then writeError 400 ''invalid'' ''invalid proposal id''
      else case ap_ListDecisionsByProposal a (re_fault env) pid s of
          Inl _ \<Rightarrow> writeError 500 ''error'' ''internal error''
        | Inr rows \<Rightarrow> writeJSON 200 (BodyDecisions rows))"

definition auditByProposal :: "('f, 's, 'w) apiServer \<Rightarrow> 'f request_env \<Rightarrow> string \<Rightarrow> 's \<Rightarrow> http_response" where
  "auditByProposal a env pid s =
     (if \<not> proposalIDPattern pid then writeError 400 ''invalid'' ''invalid proposal id''
      else case ap_ListByProposal a (re_fault env) pid s of
          Inl _ \<Rightarrow> writeError 500 ''error'' ''internal error''
        | Inr rows \<Rightarrow> writeJSON 200 (BodyAudit rows))"

section \<open>intercept\<close>

definition ingress_record :: "'f request_env \<Rightarrow> string \<Rightarrow> AgentProposal \<Rightarrow> Decision \<Rightarrow> DecisionRecord" where
  "ingress_record env agentID prop d =
     \<lparr>dr_DecisionID = re_decisionID env, dr_Stage = StageIngress, dr_ProposalID = p_ID prop, dr_AgentID = agentID,
      dr_RequestHash = RequestHash prop, dr_Command = p_Type prop, dr_TargetID = p_TargetID prop,
      dr_Environment = d_Environment d, dr_Verdict = d_Verdict d, dr_Reasons = d_Reasons d,
      dr_PolicyVersion = d_PolicyVersion d, dr_PolicyDigest = d_PolicyDigest d,
      dr_WorkflowID = (if d_Verdict d = VerdictAllow then ''saga-'' @ p_ID prop else ''''),
      dr_TraceID = re_traceID env, dr_RecordedAt = re_now env\<rparr>"

definition execution_request :: "string \<Rightarrow> AgentProposal \<Rightarrow> DecisionRecord \<Rightarrow> ExecutionRequest" where
  "execution_request agentID prop r =
     \<lparr>er_AgentID = agentID, er_Proposal = prop, er_IngressDecisionID = dr_DecisionID r, er_RequestHash = dr_RequestHash r\<rparr>"

text \<open>The last part: the decision is ALLOW and on record.\<close>

definition start_workflow ::
  "('f, 's, 'w) apiServer \<Rightarrow> string \<Rightarrow> AgentProposal \<Rightarrow> DecisionRecord \<Rightarrow> interceptResponse \<Rightarrow> 'w \<Rightarrow> http_response \<times> 'w" where
  "start_workflow a agentID prop r resp w =
     (let opts = \<lparr>sw_ID = ''saga-'' @ p_ID prop, sw_TaskQueue = ap_taskQueue a, sw_ErrorWhenAlreadyStarted = True\<rparr> in
      case ap_ExecuteWorkflow a opts (execution_request agentID prop r) w of
        (AlreadyStarted, w) \<Rightarrow> (writeJSON 409 (BodyResponse (resp\<lparr>ir_Status := ''not_executed'', ir_Error :=
            ''a workflow for this proposal id is already running; this request was not executed''\<rparr>)), w)
      | (StartFailed, w) \<Rightarrow> (writeError 502 ''error'' ''failed to start workflow'', w)
      | (Started wid rid, w) \<Rightarrow> (writeJSON 200 (BodyResponse (resp\<lparr>ir_Status := ''accepted'', ir_WorkflowID := wid,
            ir_RunID := rid, ir_Next := ''GET /v1/decisions/'' @ p_ID prop @ '' and /v1/audit/'' @ p_ID prop\<rparr>)), w))"

definition intercept ::
  "('f, 's, 'w) apiServer \<Rightarrow> json_texts \<Rightarrow> 'f request_env \<Rightarrow> string \<Rightarrow> request_ctx \<Rightarrow> 's \<times> 'w \<Rightarrow> http_response \<times> 's \<times> 'w" where
  "intercept a jd env body ctx sw = (case sw of (s, w) \<Rightarrow>
     (case AgentIDFromContext ctx of
        None \<Rightarrow> (writeError 401 ''unauthorized'' ''missing or invalid API key'', s, w)
      | Some agentID \<Rightarrow>
     (case decodeProposal jd body zero_AgentProposal of
        Inl (status, msg) \<Rightarrow> (writeError status ''invalid'' msg, s, w)
      | Inr prop \<Rightarrow>
     (case EvaluateThrottled (re_proxy env) (re_ended env) agentID prop of
        Inl _ \<Rightarrow> (writeError 503 ''unavailable'' ''request cancelled before evaluation'', s, w)
      | Inr d \<Rightarrow>
     (let r = ingress_record env agentID prop d in
      case ap_AppendDecision a (re_fault env) r s of (recordErr, s) \<Rightarrow>
      let resp = zero_interceptResponse\<lparr>ir_Verdict := d_Verdict d, ir_Reasons := d_Reasons d,
            ir_DecisionID := (if recordErr \<noteq> None then '''' else dr_DecisionID r), ir_ProposalID := p_ID prop\<rparr> in
      case d_Verdict d of
        VerdictDeny \<Rightarrow> (writeJSON 403 (BodyResponse (resp\<lparr>ir_Status := ''rejected''\<rparr>)), s, w)
      | VerdictRequireApproval \<Rightarrow> (writeJSON 403 (BodyResponse (resp\<lparr>ir_Status := ''not_executed''\<rparr>)), s, w)
      | Verdict_other _ \<Rightarrow> (writeError 500 ''error'' ''internal error'', s, w)
      | VerdictAllow \<Rightarrow>
          if recordErr \<noteq> None
          then (writeError 503 ''unavailable'' ''decision could not be recorded; proposal not executed'', s, w)
          else (case start_workflow a agentID prop r resp w of (rs, w) \<Rightarrow> (rs, s, w)))))))"

section \<open>Routes\<close>

text \<open>
  \<^verbatim>\<open>http.ServeMux\<close> on a cleaned path, given by its segments. A \<^verbatim>\<open>GET\<close> pattern also matches
  \<^verbatim>\<open>HEAD\<close>, a wildcard a non-empty segment; a path that only other methods match gives 405.
\<close>

record http_request =
  rq_method :: string
  rq_path :: "string list"
  rq_apiKey :: string
  rq_body :: string

definition not_found :: http_response where
  "not_found = \<lparr>hr_status = 404, hr_body = BodyText (''404 page not found'' @ [CHR 0x0A])\<rparr>"

definition method_not_allowed :: http_response where
  "method_not_allowed = \<lparr>hr_status = 405, hr_body = BodyText (''Method Not Allowed'' @ [CHR 0x0A])\<rparr>"

text \<open>The redirect from \<^verbatim>\<open>/v1\<close> to the registered subtree \<^verbatim>\<open>/v1/\<close>.\<close>

definition moved_permanently :: http_response where
  "moved_permanently = \<lparr>hr_status = 301, hr_body = BodyText ''/v1/''\<rparr>"

definition is_get :: "http_request \<Rightarrow> bool" where
  "is_get rq \<longleftrightarrow> rq_method rq \<in> {''GET'', ''HEAD''}"

datatype route = RouteIntercept | RouteDecisions string | RouteAudit string | RoutePolicy | RouteNone

definition route_of :: "string list \<Rightarrow> route" where
  "route_of path = (case path of
       [v, x] \<Rightarrow> if v \<noteq> ''v1'' then RouteNone else if x = ''intercept'' then RouteIntercept
                 else if x = ''policy'' then RoutePolicy else RouteNone
     | [v, x, pid] \<Rightarrow> if v \<noteq> ''v1'' \<or> pid = '''' then RouteNone else if x = ''decisions'' then RouteDecisions pid
                      else if x = ''audit'' then RouteAudit pid else RouteNone
     | _ \<Rightarrow> RouteNone)"

definition protected_mux ::
  "('f, 's, 'w) apiServer \<Rightarrow> json_texts \<Rightarrow> 'f request_env \<Rightarrow> http_request \<Rightarrow> request_ctx \<Rightarrow> 's \<times> 'w \<Rightarrow> http_response \<times> 's \<times> 'w" where
  "protected_mux a jd env rq ctx sw = (case route_of (rq_path rq) of
       RouteIntercept \<Rightarrow> if rq_method rq = ''POST'' then intercept a jd env (rq_body rq) ctx sw else (method_not_allowed, sw)
     | RouteDecisions pid \<Rightarrow> (if is_get rq then decisionsByProposal a env pid (fst sw) else method_not_allowed, sw)
     | RouteAudit pid \<Rightarrow> (if is_get rq then auditByProposal a env pid (fst sw) else method_not_allowed, sw)
     | RoutePolicy \<Rightarrow> (if is_get rq then policyStatus env else method_not_allowed, sw)
     | RouteNone \<Rightarrow> (not_found, sw))"

definition unauthorized :: http_response where
  "unauthorized = writeError 401 ''unauthorized'' ''missing or invalid API key''"

definition newHandler ::
  "('f, 's, 'w) apiServer \<Rightarrow> json_texts \<Rightarrow> 'f request_env \<Rightarrow> http_request \<Rightarrow> 's \<times> 'w \<Rightarrow> http_response \<times> 's \<times> 'w" where
  "newHandler a jd env rq sw =
     (if rq_path rq = [''healthz''] then (if is_get rq then healthz else method_not_allowed, sw)
      else if rq_path rq = [''readyz''] then (if is_get rq then readyz a env (fst sw) else method_not_allowed, sw)
      else if rq_path rq = [''v1''] then (moved_permanently, sw)
      else if rq_path rq \<noteq> [] \<and> hd (rq_path rq) = ''v1''
      then Middleware (ap_keyring a) unauthorized (protected_mux a jd env rq) (rq_apiKey rq) None sw
      else (not_found, sw))"

section \<open>What a request changes\<close>

lemma EvaluateThrottled_Inr:
  "EvaluateThrottled p e agentID prop = Inr d \<longleftrightarrow> e = None \<and> d = Evaluate (sp_policy p) agentID prop"
  by (auto simp: EvaluateThrottled_def Proxy_Evaluate_def split: option.splits)

definition start_options :: "('f, 's, 'w) apiServer \<Rightarrow> AgentProposal \<Rightarrow> StartWorkflowOptions" where
  "start_options a prop = \<lparr>sw_ID = ''saga-'' @ p_ID prop, sw_TaskQueue = ap_taskQueue a, sw_ErrorWhenAlreadyStarted = True\<rparr>"

text \<open>The request was authenticated, well formed and evaluated to \<open>d\<close>.\<close>

definition judged ::
  "json_texts \<Rightarrow> 'f request_env \<Rightarrow> string \<Rightarrow> request_ctx \<Rightarrow> string \<Rightarrow> AgentProposal \<Rightarrow> Decision \<Rightarrow> bool" where
  "judged jd env body ctx agentID prop d \<longleftrightarrow> AgentIDFromContext ctx = Some agentID \<and>
     decodeProposal jd body zero_AgentProposal = Inr prop \<and> re_ended env = None \<and>
     d = Evaluate (sp_policy (re_proxy env)) agentID prop"

lemma judged_unique: "judged jd env body ctx a p d \<Longrightarrow> judged jd env body ctx a' p' d' \<Longrightarrow> a' = a \<and> p' = p \<and> d' = d"
  by (auto simp: judged_def)

lemma start_workflow_world:
  "snd (start_workflow a agentID p r resp w) = snd (ap_ExecuteWorkflow a (start_options a p) (execution_request agentID p r) w)"
  by (simp add: start_workflow_def start_options_def Let_def split: prod.split start_result.split)

lemma intercept_cases:
  obtains (refused) status knd msg where "intercept a jd env body ctx (s, w) = (writeError status knd msg, s, w)"
      "status \<in> {400, 401, 413, 503}" "\<nexists>agentID p d. judged jd env body ctx agentID p d"
    | (judged) agentID p d e s' where "judged jd env body ctx agentID p d"
      "ap_AppendDecision a (re_fault env) (ingress_record env agentID p d) s = (e, s')"
      "fst (snd (intercept a jd env body ctx (s, w))) = s'"
      "if d_Verdict d = VerdictAllow \<and> e = None
       then \<exists>resp. fst (intercept a jd env body ctx (s, w)) =
             fst (start_workflow a agentID p (ingress_record env agentID p d) resp w) \<and>
           snd (snd (intercept a jd env body ctx (s, w))) =
             snd (ap_ExecuteWorkflow a (start_options a p) (execution_request agentID p (ingress_record env agentID p d)) w)
       else hr_status (fst (intercept a jd env body ctx (s, w))) = (if d_Verdict d = VerdictAllow then 503 else 403) \<and>
           snd (snd (intercept a jd env body ctx (s, w))) = w"
proof (cases "\<exists>agentID p d. judged jd env body ctx agentID p d")
  case False
  have "\<exists>status knd msg. intercept a jd env body ctx (s, w) = (writeError status knd msg, s, w) \<and> status \<in> {400, 401, 413, 503}"
  proof (cases "AgentIDFromContext ctx")
    case None
    then show ?thesis by (auto simp: intercept_def)
  next
    case (Some agentID)
    show ?thesis
    proof (cases "decodeProposal jd body zero_AgentProposal")
      case (Inl x)
      then have "fst x \<in> {400, 413}" by (rule decodeProposal_status)
      then show ?thesis using Some Inl by (cases x) (auto simp: intercept_def)
    next
      case (Inr p)
      then obtain e where "re_ended env = Some e" using False Some by (auto simp: judged_def)
      then show ?thesis using Some Inr by (auto simp: intercept_def EvaluateThrottled_def)
    qed
  qed
  with False show thesis using refused by blast
next
  case True
  then obtain agentID p d where j: "judged jd env body ctx agentID p d" by blast
  let ?r = "ingress_record env agentID p d"
  obtain e s' where ap: "ap_AppendDecision a (re_fault env) ?r s = (e, s')" by fastforce
  have ev: "EvaluateThrottled (re_proxy env) (re_ended env) agentID p = Inr d"
    using j by (simp add: judged_def EvaluateThrottled_Inr)
  have v: "d_Verdict d \<in> {VerdictAllow, VerdictDeny, VerdictRequireApproval}"
    using j Evaluate_verdicts by (simp add: judged_def)
  have c: "AgentIDFromContext ctx = Some agentID" "decodeProposal jd body zero_AgentProposal = Inr p"
    using j by (simp_all add: judged_def)
  note int = intercept_def c ev ap Let_def prod.case sum.case option.case
  from v show thesis
  proof (elim insertE emptyE)
    assume d: "d_Verdict d = VerdictAllow"
    show thesis
    proof (cases e)
      case None
      define resp where "resp = zero_interceptResponse\<lparr>ir_Verdict := d_Verdict d, ir_Reasons := d_Reasons d,
        ir_DecisionID := dr_DecisionID ?r, ir_ProposalID := p_ID p\<rparr>"
      have "fst (intercept a jd env body ctx (s, w)) = fst (start_workflow a agentID p ?r resp w)"
        "fst (snd (intercept a jd env body ctx (s, w))) = s'"
        "snd (snd (intercept a jd env body ctx (s, w))) = snd (start_workflow a agentID p ?r resp w)"
        by (simp_all add: int d None resp_def split: prod.split)
      then show thesis using None d start_workflow_world [of a agentID p ?r resp w] by (intro judged [OF j ap]) auto
    next
      case (Some x)
      then show thesis by (intro judged [OF j ap]) (simp_all add: int d writeError_def writeJSON_def)
    qed
  next
    assume d: "d_Verdict d = VerdictDeny"
    show thesis by (intro judged [OF j ap]) (simp_all add: int d writeJSON_def)
  next
    assume d: "d_Verdict d = VerdictRequireApproval"
    show thesis by (intro judged [OF j ap]) (simp_all add: int d writeJSON_def)
  qed
qed

lemma start_workflow_status:
  "hr_status (fst (start_workflow a agentID p r resp w)) =
     (case fst (ap_ExecuteWorkflow a (start_options a p) (execution_request agentID p r) w) of
        Started _ _ \<Rightarrow> 200 | AlreadyStarted \<Rightarrow> 409 | StartFailed \<Rightarrow> 502)"
  by (simp add: start_workflow_def start_options_def writeJSON_def writeError_def Let_def split: prod.split start_result.split)

lemma newHandler_changes:
  assumes "snd (newHandler a jd env rq sw) \<noteq> sw"
  shows "rq_method rq = ''POST'' \<and> rq_path rq = [''v1'', ''intercept''] \<and>
    (\<exists>agentID. Resolve (ap_keyring a) (rq_apiKey rq) = Some agentID \<and>
       newHandler a jd env rq sw = intercept a jd env (rq_body rq) (Some agentID) sw)"
proof -
  have nh: "newHandler a jd env rq sw = Middleware (ap_keyring a) unauthorized (protected_mux a jd env rq) (rq_apiKey rq) None sw"
    using assms by (auto simp: newHandler_def split: if_splits)
  then obtain agentID where r: "Resolve (ap_keyring a) (rq_apiKey rq) = Some agentID"
    and m: "newHandler a jd env rq sw = protected_mux a jd env rq (Some agentID) sw"
    using assms by (auto simp: Middleware_def WithAgentID_def split: option.splits)
  have "route_of (rq_path rq) = RouteIntercept" "rq_method rq = ''POST''"
    using assms m by (auto simp: protected_mux_def split: route.splits if_splits)
  moreover have "rq_path rq = [''v1'', ''intercept'']"
    using calculation(1) by (auto simp: route_of_def split: list.splits if_splits)
  ultimately show ?thesis using r m by (simp add: protected_mux_def)
qed

section \<open>A sample server\<close>

text \<open>The policy allows agent \<^verbatim>\<open>a\<close> the command \<^verbatim>\<open>C\<close> on target \<^verbatim>\<open>t\<close>; stores and client always succeed.\<close>

definition sample_jd :: json_texts where
  "sample_jd = (\<lambda>_. ''invalid'')"

definition sample_request_env :: "'f \<Rightarrow> 'f request_env" where
  "sample_request_env f = \<lparr>re_proxy = NewSentryProxy (Some (document_snapshot sample_doc)) 2,
     re_status = \<lparr>st_Version = ''v1'', st_Digest = '''', st_LoadedAt = 0, st_MaxParallelTasks = 2, st_ReloadStatus = ''ok'',
       st_LastReloadError = '''', st_LastReloadErrorAt = None\<rparr>,
     re_ended = None, re_fault = f, re_decisionID = ''dec_1'', re_traceID = '''', re_now = 0\<rparr>"

definition sample_api :: "Keyring \<Rightarrow> (unit, DecisionRecord list, ExecutionRequest list) apiServer" where
  "sample_api k = \<lparr>ap_keyring = k, ap_taskQueue = ''q'', ap_AppendDecision = (\<lambda>_ r rs. (None, rs @ [r])),
     ap_ListDecisionsByProposal = (\<lambda>_ _ rs. Inr rs), ap_ListByProposal = (\<lambda>_ _ _. Inr []), ap_Ping = (\<lambda>_ _. None),
     ap_ExecuteWorkflow = (\<lambda>o' q w. (Started (sw_ID o') ''r1'', w @ [q]))\<rparr>"

lemma sample_evaluate: "d_Verdict (Evaluate (Some (document_snapshot sample_doc)) ''a'' sample_prop) = VerdictAllow"
  by (simp add: Evaluate_allow_iff document_snapshot_def sample_doc_def sample_prop_def target_of_def EnvironmentMode_of_def)

lemma sample_judged:
  "judged sample_jd (sample_request_env f) sample_body (Some ''a'') ''a'' sample_prop
     (Evaluate (Some (document_snapshot sample_doc)) ''a'' sample_prop)"
  using decode_marshal [of sample_prop "[]"] sample_prop_ok
  by (simp add: judged_def AgentIDFromContext_def sample_body_def sample_request_env_def NewSentryProxy_def)

lemma sample_intercept:
  "hr_status (fst (intercept (sample_api k) sample_jd (sample_request_env ()) sample_body (Some ''a'') ([], []))) = 200"
  "snd (intercept (sample_api k) sample_jd (sample_request_env ()) sample_body (Some ''a'') ([], [])) \<noteq> ([], [])"
proof -
  let ?env = "sample_request_env ()" and ?d = "Evaluate (Some (document_snapshot sample_doc)) ''a'' sample_prop"
  let ?i = "intercept (sample_api k) sample_jd ?env sample_body (Some ''a'') ([], [])"
  have "hr_status (fst ?i) = 200 \<and> snd (snd ?i) \<noteq> []"
  proof (cases rule: intercept_cases [of "sample_api k" sample_jd ?env sample_body "Some ''a''" "[]" "[]"])
    case refused
    with sample_judged [of "()"] show ?thesis by simp
  next
    case (judged agentID p d e s')
    with judged_unique [OF judged(1) sample_judged] sample_evaluate show ?thesis
      by (auto simp: start_workflow_status sample_api_def)
  qed
  then show "hr_status (fst ?i) = 200" "snd ?i \<noteq> ([], [])" by (metis snd_conv)+
qed

section \<open>Properties\<close>

text \<open>
  C23. The only request that changes anything, a decision record written or a workflow started, is
  a \<^verbatim>\<open>POST /v1/intercept\<close> whose API key resolves to an agent, and it acts as that agent.
\<close>

theorem handler_authenticated:
  assumes "snd (newHandler a jd env rq sw) \<noteq> sw"
  shows "rq_method rq = ''POST'' \<and> rq_path rq = [''v1'', ''intercept''] \<and>
    (\<exists>agentID. Resolve (ap_keyring a) (rq_apiKey rq) = Some agentID \<and>
       newHandler a jd env rq sw = intercept a jd env (rq_body rq) (Some agentID) sw)"
  by (rule newHandler_changes [OF assms])

definition sample_rq :: http_request where
  "sample_rq = \<lparr>rq_method = ''POST'', rq_path = [''v1'', ''intercept''], rq_apiKey = ''0123456789abcdef'', rq_body = sample_body\<rparr>"

lemma sample_resolve: "Resolve \<lparr>kr_entries = map entry_of sample_keys\<rparr> ''0123456789abcdef'' = Some ''a''"
  by (subst Resolve_iff) (simp_all add: sample_keys_def)

theorem handler_authenticated_witness:
  "\<exists>agentID. Resolve \<lparr>kr_entries = map entry_of sample_keys\<rparr> (rq_apiKey sample_rq) = Some agentID"
proof -
  let ?a = "sample_api \<lparr>kr_entries = map entry_of sample_keys\<rparr>"
  have "newHandler ?a sample_jd (sample_request_env ()) sample_rq ([], []) =
      intercept ?a sample_jd (sample_request_env ()) sample_body (Some ''a'') ([], [])"
    using sample_resolve
    by (simp add: newHandler_def sample_rq_def Middleware_def sample_api_def WithAgentID_def protected_mux_def route_of_def)
  then have "snd (newHandler ?a sample_jd (sample_request_env ()) sample_rq ([], [])) \<noteq> ([], [])"
    using sample_intercept(2) by simp
  from handler_authenticated [OF this] show ?thesis by (auto simp: sample_api_def)
qed

text \<open>
  C24. What a status code tells the agent. 200: the request was judged ALLOW, the decision was
  recorded and the workflow was started. 403: it was judged and not allowed, and nothing was started.
  400, 401 and 413: nothing was recorded or started. 503: nothing was started. No other code but 409 and
  502, for a workflow that could not be started, is ever returned.
\<close>

theorem handler_status:
  fixes s :: 's and w :: 'w
  assumes "intercept a jd env body ctx (s, w) = (rs, s', w')"
  shows "hr_status rs \<in> {200, 400, 401, 403, 409, 413, 502, 503} \<and>
    (hr_status rs = 200 \<longrightarrow> (\<exists>agentID p d. judged jd env body ctx agentID p d \<and> d_Verdict d = VerdictAllow \<and>
       ap_AppendDecision a (re_fault env) (ingress_record env agentID p d) s = (None, s') \<and>
       (\<exists>wid rid. ap_ExecuteWorkflow a (start_options a p) (execution_request agentID p (ingress_record env agentID p d)) w
          = (Started wid rid, w')))) \<and>
    (hr_status rs = 403 \<longrightarrow> w' = w \<and> (\<exists>agentID p d. judged jd env body ctx agentID p d \<and> d_Verdict d \<noteq> VerdictAllow)) \<and>
    (hr_status rs \<in> {400, 401, 413} \<longrightarrow> s' = s \<and> w' = w) \<and> (hr_status rs = 503 \<longrightarrow> w' = w)"
proof (cases rule: intercept_cases [of a jd env body ctx s w])
  case (refused status knd msg)
  then show ?thesis using assms by (auto simp: writeError_def writeJSON_def)
next
  case (judged agentID p d e s1)
  show ?thesis
  proof (cases "d_Verdict d = VerdictAllow \<and> e = None")
    case True
    let ?x = "ap_ExecuteWorkflow a (start_options a p) (execution_request agentID p (ingress_record env agentID p d)) w"
    have w: "w' = snd ?x" and s: "s1 = s'"
      and rs: "hr_status rs = (case fst ?x of Started _ _ \<Rightarrow> 200 | AlreadyStarted \<Rightarrow> 409 | StartFailed \<Rightarrow> 502)"
      using True judged(3,4) assms by (auto simp: start_workflow_status)
    have ok: "\<exists>agentID p d. judged jd env body ctx agentID p d \<and> d_Verdict d = VerdictAllow \<and>
       ap_AppendDecision a (re_fault env) (ingress_record env agentID p d) s = (None, s') \<and>
       (\<exists>wid rid. ap_ExecuteWorkflow a (start_options a p) (execution_request agentID p (ingress_record env agentID p d)) w
          = (Started wid rid, w'))" if "fst ?x = Started wid rid" for wid rid
      using judged(1,2) True s w that by (metis prod.collapse)
    show ?thesis using rs ok by (cases "fst ?x") simp_all
  next
    case False
    then show ?thesis using judged(1,4) assms by (auto split: if_splits)
  qed
qed

theorem handler_status_witness:
  "\<exists>agentID p d. judged sample_jd (sample_request_env ()) sample_body (Some ''a'') agentID p d \<and> d_Verdict d = VerdictAllow"
proof -
  obtain rs s' w' where i: "intercept (sample_api \<lparr>kr_entries = []\<rparr>) sample_jd (sample_request_env ()) sample_body (Some ''a'') ([], []) = (rs, s', w')"
    using prod_cases3 by blast
  then have "hr_status rs = 200" using sample_intercept(1) by (metis fst_conv)
  with handler_status [OF i] show ?thesis by blast
qed

section \<open>The handler on any decision store\<close>

text \<open>What the handler records before it starts a workflow is what the workflow's ingress check looks for.\<close>

context record_store
begin

lemma recorded_allow_passes:
  assumes "invar s" "sound f" "append f (ingress_record env agentID p d) s = (None, s1)" "quiet g"
    and "d_Verdict d = VerdictAllow"
  shows "CheckIngress (\<lambda>i. get g i (append_all append xs s1)) (execution_request agentID p (ingress_record env agentID p d))
    (''saga-'' @ p_ID p) = None"
proof -
  let ?r = "ingress_record env agentID p d"
  have "?r \<in> set (records s1)"
    using append_ok [OF assms(1-3)] by (auto dest: lookup_SomeD)
  then have "Validate ?r = None" using append_safe [OF assms(1,3)] stored_valid by blast
  then have "dr_DecisionID ?r \<noteq> ''''" by (simp add: Validate_None_iff)
  with stored_for_ever [OF assms(1-4), of xs] assms(5) show ?thesis
    by (auto simp: CheckIngress_None_iff VerifyIngress_None_iff execution_request_def ingress_record_def)
qed

end

end
