(* ===== verification/Claim_Store.thy ===== *)
theory Claim_Store
  imports Contracts
begin

text \<open>
  The execution claim: \<^verbatim>\<open>internal/decision/claim.go\<close>'s transition table, the idempotency key,
  and the contract of the \<^verbatim>\<open>ClaimStore\<close> interface.

  The contract is stated over the abstract state of a store, a map from decision IDs to claims:
  \<open>take_claim\<close> and \<open>move_claim\<close> are the two ways a claim may change, and \<open>claim_step\<close> is the
  state machine they make. The locale \<open>claim_store\<close> is what an implementation promises, with
  faults included: an operation may fail before or after its write committed. What follows for
  every implementation (at most one acquisition of the execution fence, whatever callers,
  retries and lost responses there are) is proved once, inside the locale.
\<close>

section \<open>Transition table and key\<close>

definition ClaimSources :: "ClaimState \<Rightarrow> ClaimState list option" where
  "ClaimSources to = (case to of
       ClaimStateExecuting \<Rightarrow> Some [ClaimStateClaimed]
     | ClaimStateReconciliationRequired \<Rightarrow>
         Some [ClaimStateExecuting, ClaimStateReconciliationRequired]
     | ClaimStateCompleted \<Rightarrow>
         Some [ClaimStateExecuting, ClaimStateReconciliationRequired, ClaimStateCompleted]
     | ClaimStateFailed \<Rightarrow>
         Some [ClaimStateExecuting, ClaimStateReconciliationRequired, ClaimStateFailed]
     | ClaimStateReleased \<Rightarrow> Some [ClaimStateClaimed, ClaimStateReleased]
     | _ \<Rightarrow> None)"

definition ExecutionKey :: "string \<Rightarrow> string" where
  "ExecutionKey decisionID = ''sentrygate.exec.v1:'' @ decisionID"

definition ClaimHeldError :: "ExecutionClaim \<Rightarrow> go_error" where
  "ClaimHeldError c = wrap_error claim_held
     (err_text claim_held @ '': state='' @ ClaimState_str (ec_State c)
       @ '' workflow_id='' @ o_WorkflowID (ec_Owner c) @ '' run_id='' @ o_RunID (ec_Owner c))"

text \<open>The error both implementations return for a malformed claim call.\<close>

definition invalid_claim :: "string \<Rightarrow> go_error" where
  "invalid_claim decisionID = errors_New (''invalid claim for decision '' @ fmt_q decisionID)"

definition invalid_target :: "ClaimState \<Rightarrow> go_error" where
  "invalid_target to = wrap_error claim_not_held
     (err_text claim_not_held @ '': invalid target state '' @ fmt_q (ClaimState_str to))"

section \<open>The abstract claim machine\<close>

type_synonym claim_map = "string \<rightharpoonup> ExecutionClaim"

definition new_claim :: "string \<Rightarrow> ClaimOwner \<Rightarrow> time \<Rightarrow> ExecutionClaim" where
  "new_claim d w t = \<lparr>ec_DecisionID = d, ec_Owner = w, ec_State = ClaimStateClaimed,
     ec_ClaimedAt = t, ec_UpdatedAt = t\<rparr>"

definition claimable :: "claim_map \<Rightarrow> string \<Rightarrow> bool" where
  "claimable m d = (case m d of None \<Rightarrow> True | Some c \<Rightarrow> ec_State c = ClaimStateReleased)"

text \<open>The claim of decision \<open>d\<close> is taken by \<open>w\<close>.\<close>

definition take_claim :: "string \<Rightarrow> ClaimOwner \<Rightarrow> time \<Rightarrow> claim_map \<Rightarrow> claim_map \<Rightarrow> bool" where
  "take_claim d w t m m' \<longleftrightarrow> Valid w \<and> claimable m d \<and> m' = m(d \<mapsto> new_claim d w t)"

text \<open>The owner \<open>w\<close> holds \<open>d\<close> in a state from which \<open>to\<close> may be entered.\<close>

definition may_advance :: "claim_map \<Rightarrow> string \<Rightarrow> ClaimOwner \<Rightarrow> ClaimState \<Rightarrow> bool" where
  "may_advance m d w to = (case m d of None \<Rightarrow> False | Some c \<Rightarrow> ec_Owner c = w \<and>
     (case ClaimSources to of None \<Rightarrow> False | Some from \<Rightarrow> ec_State c \<in> set from))"

definition move_claim ::
  "string \<Rightarrow> ClaimOwner \<Rightarrow> ClaimState \<Rightarrow> time \<Rightarrow> claim_map \<Rightarrow> claim_map \<Rightarrow> bool" where
  "move_claim d w to t m m' \<longleftrightarrow> may_advance m d w to \<and>
     m' = m(d \<mapsto> (the (m d))\<lparr>ec_State := to, ec_UpdatedAt := t\<rparr>)"

text \<open>The two operations without faults, as functions with the sentinel they report.\<close>

definition spec_claim ::
  "string set \<Rightarrow> string \<Rightarrow> ClaimOwner \<Rightarrow> time \<Rightarrow> claim_map \<Rightarrow> sentinel option \<times> claim_map" where
  "spec_claim known d w t m =
     (if d = '''' \<or> \<not> Valid w then (Some NoSentinel, m)
      else if d \<notin> known then (Some ErrDecisionNotFound, m)
      else if claimable m d then (None, m(d \<mapsto> new_claim d w t))
      else if ec_Owner (the (m d)) = w \<and> ec_State (the (m d)) = ClaimStateClaimed then (None, m)
      else (Some ErrClaimHeld, m))"

definition spec_advance ::
  "string \<Rightarrow> ClaimOwner \<Rightarrow> ClaimState \<Rightarrow> time \<Rightarrow> claim_map \<Rightarrow> sentinel option \<times> claim_map" where
  "spec_advance d w to t m =
     (if may_advance m d w to
      then (None, m(d \<mapsto> (the (m d))\<lparr>ec_State := to, ec_UpdatedAt := t\<rparr>))
      else (Some ErrClaimNotHeld, m))"

datatype claim_event = Took string ClaimOwner | Moved string ClaimOwner ClaimState

inductive claim_step :: "claim_map \<Rightarrow> claim_event \<Rightarrow> claim_map \<Rightarrow> bool" where
  took: "take_claim d w t m m' \<Longrightarrow> claim_step m (Took d w) m'"
| moved: "move_claim d w to t m m' \<Longrightarrow> claim_step m (Moved d w to) m'"

inductive claim_run :: "claim_map \<Rightarrow> claim_event list \<Rightarrow> claim_map \<Rightarrow> bool" where
  run_nil: "claim_run m [] m"
| run_more: "claim_step m ev m' \<Longrightarrow> claim_run m' tr m'' \<Longrightarrow> claim_run m (ev # tr) m''"

inductive_simps claim_run_Nil: "claim_run m [] m'"
inductive_simps claim_run_Cons: "claim_run m (ev # tr) m'"

text \<open>The states from which the adapter may already have been called.\<close>

definition used_state :: "ClaimState \<Rightarrow> bool" where
  "used_state s \<longleftrightarrow> s \<in> {ClaimStateExecuting, ClaimStateReconciliationRequired,
     ClaimStateCompleted, ClaimStateFailed}"

definition used :: "claim_map \<Rightarrow> string \<Rightarrow> bool" where
  "used m d = (case m d of None \<Rightarrow> False | Some c \<Rightarrow> used_state (ec_State c))"

definition is_fence :: "string \<Rightarrow> claim_event \<Rightarrow> bool" where
  "is_fence d ev = (case ev of Moved d' w to \<Rightarrow> d' = d \<and> to = ClaimStateExecuting | _ \<Rightarrow> False)"

definition fences :: "string \<Rightarrow> claim_event list \<Rightarrow> nat" where
  "fences d tr = length (filter (is_fence d) tr)"

section \<open>Sequences of store operations\<close>

datatype 'f claim_op =
    OpClaim 'f string ClaimOwner time
  | OpAdvance 'f string ClaimOwner ClaimState time

fun run_ops ::
  "('f \<Rightarrow> string \<Rightarrow> ClaimOwner \<Rightarrow> time \<Rightarrow> 's \<Rightarrow> go_error option \<times> 's) \<Rightarrow>
   ('f \<Rightarrow> string \<Rightarrow> ClaimOwner \<Rightarrow> ClaimState \<Rightarrow> time \<Rightarrow> 's \<Rightarrow> go_error option \<times> 's) \<Rightarrow>
   'f claim_op list \<Rightarrow> 's \<Rightarrow> go_error option list \<times> 's" where
  "run_ops cl adv [] s = ([], s)"
| "run_ops cl adv (OpClaim f d w t # ops) s =
     (let (e, s') = cl f d w t s; (es, s'') = run_ops cl adv ops s' in (e # es, s''))"
| "run_ops cl adv (OpAdvance f d w to t # ops) s =
     (let (e, s') = adv f d w to t s; (es, s'') = run_ops cl adv ops s' in (e # es, s''))"

text \<open>How many calls reported that they acquired the fence of \<open>d\<close>.\<close>

fun fence_successes :: "string \<Rightarrow> 'f claim_op list \<Rightarrow> go_error option list \<Rightarrow> nat" where
  "fence_successes d (OpAdvance f d' w to t # ops) (e # es) =
     (if d' = d \<and> to = ClaimStateExecuting \<and> e = None then 1 else 0) + fence_successes d ops es"
| "fence_successes d (_ # ops) (_ # es) = fence_successes d ops es"
| "fence_successes d _ _ = 0"

text \<open>The same calls on the abstract claims: the sentinels they report and the claims they leave.\<close>

fun spec_ops :: "string set \<Rightarrow> 'f claim_op list \<Rightarrow> claim_map \<Rightarrow> sentinel option list \<times> claim_map" where
  "spec_ops known [] m = ([], m)"
| "spec_ops known (OpClaim f d w t # ops) m =
     (let (e, m') = spec_claim known d w t m; (es, m'') = spec_ops known ops m' in (e # es, m''))"
| "spec_ops known (OpAdvance f d w to t # ops) m =
     (let (e, m') = spec_advance d w to t m; (es, m'') = spec_ops known ops m' in (e # es, m''))"

section \<open>Facts on the machine\<close>

lemma ExecutionKey_inj: "ExecutionKey a = ExecutionKey b \<longleftrightarrow> a = b"
  by (simp add: ExecutionKey_def)

lemma err_is_claim_errors [simp]:
  "err_is (ClaimHeldError c) = ErrClaimHeld" "err_is (invalid_claim d) = NoSentinel"
  "err_is (invalid_target to) = ErrClaimNotHeld"
  by (simp_all add: ClaimHeldError_def invalid_claim_def invalid_target_def)

lemma ClaimSources_simps [claim_simps]:
  "ClaimSources ClaimStateClaimed = None"
  "ClaimSources ClaimStateExecuting = Some [ClaimStateClaimed]"
  "ClaimSources ClaimStateReconciliationRequired = Some [ClaimStateExecuting, ClaimStateReconciliationRequired]"
  "ClaimSources ClaimStateCompleted = Some [ClaimStateExecuting, ClaimStateReconciliationRequired, ClaimStateCompleted]"
  "ClaimSources ClaimStateFailed = Some [ClaimStateExecuting, ClaimStateReconciliationRequired, ClaimStateFailed]"
  "ClaimSources ClaimStateReleased = Some [ClaimStateClaimed, ClaimStateReleased]"
  "ClaimSources (ClaimState_other s) = None"
  by (simp_all add: ClaimSources_def)

text \<open>The used states are closed under the table, and entered only through the fence.\<close>

lemma ClaimSources_used:
  assumes "ClaimSources to = Some src" "st \<in> set src"
  shows "used_state to \<longleftrightarrow> used_state st \<or> to = ClaimStateExecuting"
    and "to = ClaimStateExecuting \<Longrightarrow> st = ClaimStateClaimed"
  using assms by (auto simp: ClaimSources_def used_state_def split: ClaimState.splits)

lemma may_advanceD:
  assumes "may_advance m d w to"
  obtains c src where "m d = Some c" "ec_Owner c = w" "ClaimSources to = Some src" "ec_State c \<in> set src"
  using assms by (auto simp: may_advance_def split: option.splits)

lemma used_claimable: "claimable m d \<Longrightarrow> \<not> used m d"
  by (auto simp: claimable_def used_def used_state_def split: option.splits)

lemma step_used:
  assumes "claim_step m ev m'"
  shows "used m' d \<longleftrightarrow> used m d \<or> is_fence d ev"
    and "is_fence d ev \<Longrightarrow> \<not> used m d"
    and "used m d \<Longrightarrow> ec_Owner (the (m' d)) = ec_Owner (the (m d))"
  using assms
proof (atomize (full), cases rule: claim_step.cases)
  case (took e w t)
  then show "(used m' d \<longleftrightarrow> used m d \<or> is_fence d ev) \<and> (is_fence d ev \<longrightarrow> \<not> used m d) \<and>
      (used m d \<longrightarrow> ec_Owner (the (m' d)) = ec_Owner (the (m d)))"
    using used_claimable [of m e]
    by (auto simp: take_claim_def is_fence_def used_def new_claim_def used_state_def)
next
  case (moved e w to t)
  then obtain c src where c: "m e = Some c" "ec_Owner c = w" "ClaimSources to = Some src"
      "ec_State c \<in> set src" and m': "m' = m(e \<mapsto> c\<lparr>ec_State := to, ec_UpdatedAt := t\<rparr>)"
    by (auto simp: move_claim_def elim!: may_advanceD)
  from ClaimSources_used [OF c(3,4)]
  show "(used m' d \<longleftrightarrow> used m d \<or> is_fence d ev) \<and> (is_fence d ev \<longrightarrow> \<not> used m d) \<and>
      (used m d \<longrightarrow> ec_Owner (the (m' d)) = ec_Owner (the (m d)))"
    using c m' moved(1) by (auto simp: used_def is_fence_def used_state_def)
qed

text \<open>Along any run, the fence of a decision is acquired once if it ends up used, else never.\<close>

lemma run_fences:
  assumes "claim_run m tr m'"
  shows "fences d tr = (if used m' d \<and> \<not> used m d then 1 else 0)" and "used m d \<Longrightarrow> used m' d"
  using assms
proof (induction rule: claim_run.induct)
  case (run_more m ev m' tr m'')
  note st = step_used [OF run_more.hyps(1), of d]
  {
    case 1
    then show ?case using st run_more.IH by (auto simp: fences_def)
  next
    case 2
    then show ?case using st run_more.IH by auto
  }
qed (simp_all add: fences_def)

lemma fences_le_1: "claim_run m tr m' \<Longrightarrow> fences d tr \<le> 1"
  by (simp add: run_fences)

text \<open>A used claim keeps its owner for ever.\<close>

lemma run_owner: "claim_run m tr m' \<Longrightarrow> used m d \<Longrightarrow> ec_Owner (the (m' d)) = ec_Owner (the (m d))"
proof (induction rule: claim_run.induct)
  case (run_more m ev m' tr m'')
  then show ?case using step_used [OF run_more.hyps(1), of d] by simp
qed simp

text \<open>Confirmed outcomes are final.\<close>

definition final_state :: "ClaimState \<Rightarrow> bool" where
  "final_state s \<longleftrightarrow> s \<in> {ClaimStateCompleted, ClaimStateFailed}"

lemma step_final:
  assumes "claim_step m ev m'" "m d = Some c" "final_state (ec_State c)"
  shows "\<exists>c'. m' d = Some c' \<and> ec_State c' = ec_State c"
  using assms
proof (cases rule: claim_step.cases)
  case (took e w t)
  then show ?thesis using assms(2,3)
    by (auto simp: take_claim_def claimable_def final_state_def split: option.splits)
next
  case (moved e w to t)
  then show ?thesis using assms(2,3)
    by (auto simp: move_claim_def may_advance_def ClaimSources_def final_state_def
        split: option.splits ClaimState.splits)
qed

lemma run_final:
  "claim_run m tr m' \<Longrightarrow> m d = Some c \<Longrightarrow> final_state (ec_State c) \<Longrightarrow>
     \<exists>c'. m' d = Some c' \<and> ec_State c' = ec_State c"
proof (induction arbitrary: c rule: claim_run.induct)
  case (run_more m ev m' tr m'')
  from step_final [OF run_more.hyps(1) run_more.prems] obtain c' where "m' d = Some c'" "ec_State c' = ec_State c"
    by blast
  with run_more.IH [of c'] run_more.prems(2) show ?case by auto
qed auto

lemma spec_ops_map: "spec_ops known (map (map_claim_op g) ops) m = spec_ops known ops m"
proof (induction ops arbitrary: m)
  case (Cons op ops)
  then show ?case by (cases op) simp_all
qed simp

lemma claim_run_append: "claim_run m tr m' \<Longrightarrow> claim_run m' tr' m'' \<Longrightarrow> claim_run m (tr @ tr') m''"
  by (induction rule: claim_run.induct) (auto intro: claim_run.intros)

lemma claim_run_single: "claim_step m ev m' \<Longrightarrow> claim_run m [ev] m'"
  by (auto intro: claim_run.intros)

lemma spec_claim_step:
  assumes "spec_claim known d w t m = (e, m')"
  shows "m' = m \<or> take_claim d w t m m'" and "e = None \<Longrightarrow> \<exists>c. m' d = Some c \<and> ec_Owner c = w \<and> ec_State c = ClaimStateClaimed"
  using assms by (auto simp: spec_claim_def take_claim_def claimable_def new_claim_def
      split: if_splits option.splits)

section \<open>The contract of a claim store\<close>

text \<open>
  \<open>'s\<close> is the state of an implementation and \<open>'f\<close> what may go wrong in one call (a cancelled
  context, a failing statement, a lost response); \<open>quiet\<close> marks the calls where nothing does.
  \<open>claims\<close> reads the abstract state off the concrete one, \<open>known\<close> the decisions on record.
\<close>

locale claim_store =
  fixes claim :: "'f \<Rightarrow> string \<Rightarrow> ClaimOwner \<Rightarrow> time \<Rightarrow> 's \<Rightarrow> go_error option \<times> 's"
    and advance :: "'f \<Rightarrow> string \<Rightarrow> ClaimOwner \<Rightarrow> ClaimState \<Rightarrow> time \<Rightarrow> 's \<Rightarrow> go_error option \<times> 's"
    and get :: "'f \<Rightarrow> string \<Rightarrow> 's \<Rightarrow> go_error + ExecutionClaim"
    and claims :: "'s \<Rightarrow> claim_map"
    and known :: "'s \<Rightarrow> string set"
    and quiet :: "'f \<Rightarrow> bool"
    and invar :: "'s \<Rightarrow> bool"
  assumes claim_safe: "invar s \<Longrightarrow> claim f d w t s = (e, s') \<Longrightarrow>
      invar s' \<and> known s' = known s \<and> (claims s' = claims s \<or> take_claim d w t (claims s) (claims s'))"
    and advance_safe: "invar s \<Longrightarrow> advance f d w to t s = (e, s') \<Longrightarrow>
      invar s' \<and> known s' = known s \<and> (claims s' = claims s \<or> move_claim d w to t (claims s) (claims s'))"
    and advance_ok: "invar s \<Longrightarrow> advance f d w to t s = (None, s') \<Longrightarrow>
      move_claim d w to t (claims s) (claims s')"
    and advance_refused: "invar s \<Longrightarrow> advance f d w to t s = (Some er, s') \<Longrightarrow>
      err_is er = ErrClaimNotHeld \<Longrightarrow> claims s' = claims s"
    and claim_quiet: "invar s \<Longrightarrow> quiet f \<Longrightarrow> claim f d w t s = (e, s') \<Longrightarrow>
      (map_option err_is e, claims s') = spec_claim (known s) d w t (claims s)"
    and advance_quiet: "invar s \<Longrightarrow> quiet f \<Longrightarrow> advance f d w to t s = (e, s') \<Longrightarrow>
      (map_option err_is e, claims s') = spec_advance d w to t (claims s)"
    and get_quiet: "invar s \<Longrightarrow> quiet f \<Longrightarrow>
      get f d s = (case claims s d of None \<Rightarrow> Inl claim_not_found | Some c \<Rightarrow> Inr c)"
    and invar_known: "invar s \<Longrightarrow> dom (claims s) \<subseteq> known s"
begin

lemma claim_run_claim:
  assumes "invar s" "claim f d w t s = (e, s')"
  shows "\<exists>tr. claim_run (claims s) tr (claims s')"
  using claim_safe [OF assms] claim_run.run_nil claim_run_single claim_step.took by metis

lemma claim_run_advance:
  assumes "invar s" "advance f d w to t s = (e, s')"
  shows "\<exists>tr. claim_run (claims s) tr (claims s') \<and>
    (if d = d' \<and> to = ClaimStateExecuting \<and> e = None then 1 else 0) \<le> fences d' tr"
proof (cases "move_claim d w to t (claims s) (claims s')")
  case True
  then have "claim_run (claims s) [Moved d w to] (claims s')"
    by (intro claim_run_single claim_step.moved)
  then show ?thesis by (intro exI [of _ "[Moved d w to]"]) (simp add: fences_def is_fence_def)
next
  case False
  then have "claims s' = claims s" using advance_safe [OF assms] by blast
  moreover have "e \<noteq> None" using False advance_ok [OF assms(1)] assms(2) by metis
  ultimately show ?thesis by (intro exI [of _ "[]"]) (auto simp: fences_def intro: claim_run.intros)
qed

text \<open>Every sequence of calls is a run of the abstract machine, faults included.\<close>

lemma ops_simulate:
  "invar s \<Longrightarrow> run_ops claim advance ops s = (es, s') \<Longrightarrow>
     invar s' \<and> (\<exists>tr. claim_run (claims s) tr (claims s') \<and> fence_successes d' ops es \<le> fences d' tr)"
proof (induction ops arbitrary: s es)
  case Nil
  then show ?case by (auto simp: fences_def intro: claim_run.intros)
next
  case (Cons op ops)
  have "\<exists>e s1 es' tr. run_ops claim advance ops s1 = (es', s') \<and> es = e # es' \<and> invar s1 \<and>
      claim_run (claims s) tr (claims s1) \<and>
      fence_successes d' (op # ops) (e # es') \<le> fences d' tr + fence_successes d' ops es'"
  proof (cases op)
    case (OpClaim f d w t)
    obtain e s1 where c: "claim f d w t s = (e, s1)" by fastforce
    with Cons.prems(2) OpClaim obtain es' where "run_ops claim advance ops s1 = (es', s')" "es = e # es'"
      by (auto split: prod.splits)
    with claim_run_claim [OF Cons.prems(1) c] claim_safe [OF Cons.prems(1) c] OpClaim
    show ?thesis by auto
  next
    case (OpAdvance f d w to t)
    obtain e s1 where c: "advance f d w to t s = (e, s1)" by fastforce
    with Cons.prems(2) OpAdvance obtain es' where "run_ops claim advance ops s1 = (es', s')" "es = e # es'"
      by (auto split: prod.splits)
    with claim_run_advance [OF Cons.prems(1) c, of d'] advance_safe [OF Cons.prems(1) c] OpAdvance
    show ?thesis by (auto split: if_splits)
  qed
  then obtain e s1 es' tr where 1: "run_ops claim advance ops s1 = (es', s')" "es = e # es'" "invar s1"
      "claim_run (claims s) tr (claims s1)"
      "fence_successes d' (op # ops) (e # es') \<le> fences d' tr + fence_successes d' ops es'" by blast
  from Cons.IH [OF 1(3,1)] obtain tr' where "invar s'" "claim_run (claims s1) tr' (claims s')"
      "fence_successes d' ops es' \<le> fences d' tr'" by blast
  with 1 claim_run_append [OF 1(4)] show ?case
    by (intro conjI exI [of _ "tr @ tr'"]) (auto simp: fences_def)
qed

lemma fence_at_most_once:
  assumes "invar s" "run_ops claim advance ops s = (es, s')"
  shows "fence_successes d ops es \<le> 1"
    and "used (claims s) d \<Longrightarrow> fence_successes d ops es = 0"
    and "\<not> used (claims s') d \<Longrightarrow> fence_successes d ops es = 0"
proof -
  obtain tr where tr: "claim_run (claims s) tr (claims s')" "fence_successes d ops es \<le> fences d tr"
    using ops_simulate [OF assms, of d] by blast
  show "fence_successes d ops es \<le> 1" using fences_le_1 [OF tr(1), of d] tr(2) by linarith
  show "used (claims s) d \<Longrightarrow> fence_successes d ops es = 0"
    "\<not> used (claims s') d \<Longrightarrow> fence_successes d ops es = 0"
    using run_fences [OF tr(1), of d] tr(2) by auto
qed

text \<open>A held fence is never given up, never changes hands, and a confirmed outcome stays.\<close>

lemma used_for_ever:
  assumes "invar s" "run_ops claim advance ops s = (es, s')" "used (claims s) d"
  shows "used (claims s') d" "ec_Owner (the (claims s' d)) = ec_Owner (the (claims s d))"
proof -
  obtain tr where "claim_run (claims s) tr (claims s')" using ops_simulate [OF assms(1,2)] by blast
  then show "used (claims s') d" "ec_Owner (the (claims s' d)) = ec_Owner (the (claims s d))"
    using run_fences run_owner assms(3) by blast+
qed

lemma final_for_ever:
  assumes "invar s" "run_ops claim advance ops s = (es, s')"
    and "claims s d = Some c" "final_state (ec_State c)"
  shows "\<exists>c'. claims s' d = Some c' \<and> ec_State c' = ec_State c"
proof -
  obtain tr where "claim_run (claims s) tr (claims s')" using ops_simulate [OF assms(1,2)] by blast
  then show ?thesis using run_final assms(3,4) by blast
qed

text \<open>Without faults, a sequence of calls is the same sequence on the abstract claims.\<close>

lemma ops_refine:
  "invar s \<Longrightarrow> run_ops claim advance ops s = (es, s') \<Longrightarrow> (\<And>op. op \<in> set ops \<Longrightarrow> pred_claim_op quiet op) \<Longrightarrow>
     invar s' \<and> known s' = known s \<and> (map (map_option err_is) es, claims s') = spec_ops (known s) ops (claims s)"
proof (induction ops arbitrary: s es)
  case (Cons op ops)
  note quiet = Cons.prems(3) [of op, simplified]
  show ?case
  proof (cases op)
    case (OpClaim f d w t)
    obtain e s1 where c: "claim f d w t s = (e, s1)" by fastforce
    with Cons.prems(2) OpClaim obtain es' where es: "run_ops claim advance ops s1 = (es', s')" "es = e # es'"
      by (auto split: prod.splits)
    have 1: "invar s1" "known s1 = known s" using claim_safe [OF Cons.prems(1) c] by simp_all
    have q: "spec_claim (known s) d w t (claims s) = (map_option err_is e, claims s1)"
      using claim_quiet [OF Cons.prems(1) _ c] quiet OpClaim by simp
    from Cons.IH [OF 1(1) es(1) Cons.prems(3)] OpClaim es(2) q 1(2) show ?thesis
      by (cases "spec_ops (known s) ops (claims s1)") auto
  next
    case (OpAdvance f d w to t)
    obtain e s1 where c: "advance f d w to t s = (e, s1)" by fastforce
    with Cons.prems(2) OpAdvance obtain es' where es: "run_ops claim advance ops s1 = (es', s')" "es = e # es'"
      by (auto split: prod.splits)
    have 1: "invar s1" "known s1 = known s" using advance_safe [OF Cons.prems(1) c] by simp_all
    have q: "spec_advance d w to t (claims s) = (map_option err_is e, claims s1)"
      using advance_quiet [OF Cons.prems(1) _ c] quiet OpAdvance by simp
    from Cons.IH [OF 1(1) es(1) Cons.prems(3)] OpAdvance es(2) q 1(2) show ?thesis
      by (cases "spec_ops (known s) ops (claims s1)") auto
  qed
qed simp

text \<open>A claim taken and advanced without faults.\<close>

lemma claim_then_fence:
  assumes "invar s" "quiet f" "quiet f'" "claim f d w t s = (None, s1)"
  shows "\<exists>s2. advance f' d w ClaimStateExecuting t' s1 = (None, s2) \<and> used (claims s2) d"
proof -
  obtain c where c: "claims s1 d = Some c" "ec_Owner c = w" "ec_State c = ClaimStateClaimed"
    using claim_quiet [OF assms(1,2,4)] spec_claim_step(2) by (metis option.map_disc_iff)
  obtain e s2 where a: "advance f' d w ClaimStateExecuting t' s1 = (e, s2)" by fastforce
  have inv: "invar s1" using claim_safe [OF assms(1,4)] by simp
  have "may_advance (claims s1) d w ClaimStateExecuting"
    using c by (simp add: may_advance_def claim_simps)
  then have "e = None" using advance_quiet [OF inv assms(3) a] by (auto simp: spec_advance_def)
  moreover have "used (claims s2) d"
    using advance_ok [OF inv, of f' d w ClaimStateExecuting t' s2] a \<open>e = None\<close>
    by (auto simp: move_claim_def used_def used_state_def)
  ultimately show ?thesis using a by blast
qed

end

end
