(* ===== verification/Sqlite_Store.thy ===== *)
theory Sqlite_Store
  imports Claim_Store Record_Store Time_Text "HOL-Library.Char_ord" "HOL-Library.List_Lexorder"
    "HOL-Library.Product_Lexorder"
begin

text \<open>
  \<^verbatim>\<open>internal/audit\<close>: the SQLite store shared by proxy and worker. The three tables of
  \<^verbatim>\<open>migrate\<close> are lists of rows in \<^verbatim>\<open>rowid\<close> order, and every SQL statement of the source is a
  function on them with its constraints (primary keys, the foreign key and the CHECK on claims).
  SQLite runs one statement atomically, but a method may issue two, the driver may fail, and the
  response to a committed write may be lost; \<open>sql_env\<close> says what happens in one call. What other
  connections do between the two statements of a call is what its second statement sees; in a
  sequence of calls those are calls of their own, right after it. The columns
  hold the values whose text the code writes (enum strings, JSON of the reasons, RFC 3339
  timestamps); the timestamp text matters for \<^verbatim>\<open>ORDER BY recorded_at\<close> and is used there.
\<close>

section \<open>Tables and environment\<close>

record database =
  db_audit :: "AuditRecord list"
  db_decisions :: "DecisionRecord list"
  db_claims :: "ExecutionClaim list"

definition migrate :: database where
  "migrate = \<lparr>db_audit = [], db_decisions = [], db_claims = []\<rparr>"

text \<open>
  What \<^verbatim>\<open>ExecContext\<close> and \<^verbatim>\<open>RowsAffected\<close> report of a write: nothing fails; the statement fails
  and writes nothing; it fails after the write committed; the row count is not available.
\<close>

datatype exec_fault = Exec_ok | Exec_failed string | Exec_lost string | Rows_failed string

text \<open>
  \<open>se_later\<close> is what other connections do to the database between the write of a call and its
  follow-up read, \<open>se_read\<close> the failure of that read (or of the only read), and \<open>se_fk\<close> the text
  of the driver's error for a violated foreign key.
\<close>

record sql_env =
  se_exec :: exec_fault
  se_later :: "database \<Rightarrow> database"
  se_read :: "string option"
  se_fk :: string

definition fk_phrase :: string where
  "fk_phrase = ''FOREIGN KEY constraint failed''"

fun strings_Contains :: "string \<Rightarrow> string \<Rightarrow> bool" where
  "strings_Contains [] sub = (sub = [])"
| "strings_Contains (c # s) sub = (take (length sub) (c # s) = sub \<or> strings_Contains s sub)"

datatype exec_result = Exec_error string | Rows_error string | Rows nat

definition ExecContext ::
  "exec_fault \<Rightarrow> ('s \<Rightarrow> string + nat \<times> 's) \<Rightarrow> 's \<Rightarrow> exec_result \<times> 's" where
  "ExecContext fault stmt s = (case fault of
       Exec_failed m \<Rightarrow> (Exec_error m, s)
     | Exec_lost m \<Rightarrow> (Exec_error m, case stmt s of Inl _ \<Rightarrow> s | Inr (n, s') \<Rightarrow> s')
     | Exec_ok \<Rightarrow> (case stmt s of Inl m \<Rightarrow> (Exec_error m, s) | Inr (n, s') \<Rightarrow> (Rows n, s'))
     | Rows_failed m \<Rightarrow> (case stmt s of Inl m' \<Rightarrow> (Exec_error m', s) | Inr (n, s') \<Rightarrow> (Rows_error m, s')))"

section \<open>Statements\<close>

definition claim_row :: "string \<Rightarrow> database \<Rightarrow> ExecutionClaim option" where
  "claim_row d s = find (\<lambda>c. ec_DecisionID c = d) (db_claims s)"

definition check_state :: "ClaimState \<Rightarrow> bool" where
  "check_state st \<longleftrightarrow> st \<in> {ClaimStateClaimed, ClaimStateExecuting, ClaimStateReconciliationRequired,
     ClaimStateCompleted, ClaimStateFailed, ClaimStateReleased}"

text \<open>\<^verbatim>\<open>INSERT INTO execution_claims ... ON CONFLICT(decision_id) DO UPDATE ... WHERE state = 'RELEASED'\<close>.\<close>

definition upsert_claim ::
  "string \<Rightarrow> string \<Rightarrow> ClaimOwner \<Rightarrow> time \<Rightarrow> database \<Rightarrow> string + nat \<times> database" where
  "upsert_claim fk d w ts s = (case claim_row d s of
       None \<Rightarrow>
         if list_ex (\<lambda>r. dr_DecisionID r = d) (db_decisions s)
         then Inr (1, s\<lparr>db_claims := db_claims s @
           [\<lparr>ec_DecisionID = d, ec_Owner = w, ec_State = ClaimStateClaimed,
             ec_ClaimedAt = ts, ec_UpdatedAt = ts\<rparr>]\<rparr>)
         else Inl fk
     | Some c \<Rightarrow>
         if ec_State c = ClaimStateReleased
         then Inr (1, s\<lparr>db_claims := map (\<lambda>c. if ec_DecisionID c = d
           then c\<lparr>ec_Owner := w, ec_State := ClaimStateClaimed, ec_ClaimedAt := ts, ec_UpdatedAt := ts\<rparr>
           else c) (db_claims s)\<rparr>)
         else Inr (0, s))"

text \<open>\<^verbatim>\<open>UPDATE execution_claims SET state = ?, updated_at = ? WHERE ... AND state IN (...)\<close>.\<close>

definition update_claim ::
  "string \<Rightarrow> ClaimOwner \<Rightarrow> ClaimState \<Rightarrow> ClaimState list \<Rightarrow> time \<Rightarrow> database \<Rightarrow> string + nat \<times> database" where
  "update_claim d w to from ts s =
     (let match = (\<lambda>c. ec_DecisionID c = d \<and> o_WorkflowID (ec_Owner c) = o_WorkflowID w
            \<and> o_RunID (ec_Owner c) = o_RunID w \<and> o_Token (ec_Owner c) = o_Token w
            \<and> ec_State c \<in> set from);
          n = length (filter match (db_claims s))
      in if n \<noteq> 0 \<and> \<not> check_state to then Inl ''CHECK constraint failed''
         else Inr (n, s\<lparr>db_claims := map (\<lambda>c. if match c
           then c\<lparr>ec_State := to, ec_UpdatedAt := ts\<rparr> else c) (db_claims s)\<rparr>))"

text \<open>\<^verbatim>\<open>INSERT INTO decision_records ... ON CONFLICT(decision_id) DO NOTHING\<close>.\<close>

definition insert_decision :: "DecisionRecord \<Rightarrow> database \<Rightarrow> string + nat \<times> database" where
  "insert_decision r s =
     (if list_ex (\<lambda>r'. dr_DecisionID r' = dr_DecisionID r) (db_decisions s) then Inr (0, s)
      else Inr (1, s\<lparr>db_decisions := db_decisions s @ [r]\<rparr>))"

text \<open>\<^verbatim>\<open>INSERT INTO audit_records ... ON CONFLICT(record_id) DO NOTHING\<close>.\<close>

definition insert_audit :: "AuditRecord \<Rightarrow> database \<Rightarrow> string + nat \<times> database" where
  "insert_audit r s =
     (if list_ex (\<lambda>r'. ar_RecordID r' = ar_RecordID r) (db_audit s) then Inr (0, s)
      else Inr (1, s\<lparr>db_audit := db_audit s @ [r]\<rparr>))"

text \<open>\<^verbatim>\<open>QueryRowContext(...).Scan\<close>: the row, \<^verbatim>\<open>sql.ErrNoRows\<close>, or another failure.\<close>

datatype 'a query_row = Row 'a | NoRows | Query_error string

definition QueryRow :: "string option \<Rightarrow> 'a option \<Rightarrow> 'a query_row" where
  "QueryRow fault row = (case fault of
       Some m \<Rightarrow> Query_error m
     | None \<Rightarrow> (case row of None \<Rightarrow> NoRows | Some r \<Rightarrow> Row r))"

definition no_rows :: string where
  "no_rows = ''sql: no rows in result set''"

section \<open>Claims (claims.go)\<close>

definition Sql_GetClaim :: "sql_env \<Rightarrow> string \<Rightarrow> database \<Rightarrow> go_error + ExecutionClaim" where
  "Sql_GetClaim env d s = (case QueryRow (se_read env) (claim_row d s) of
       NoRows \<Rightarrow> Inl claim_not_found
     | Query_error m \<Rightarrow> Inl (errors_New (''read claim: '' @ m))
     | Row c \<Rightarrow> Inr c)"

definition Sql_ClaimExecution ::
  "sql_env \<Rightarrow> string \<Rightarrow> ClaimOwner \<Rightarrow> time \<Rightarrow> database \<Rightarrow> go_error option \<times> database" where
  "Sql_ClaimExecution env d w t s =
     (if d = '''' \<or> \<not> Valid w then (Some (invalid_claim d), s)
      else case ExecContext (se_exec env) (upsert_claim (se_fk env) d w t) s of
          (Exec_error m, s') \<Rightarrow>
            if strings_Contains m fk_phrase
            then (Some (wrap_error decision_not_found (err_text decision_not_found @ '': '' @ m)), s')
            else (Some (errors_New (''claim execution: '' @ m)), s')
        | (Rows_error m, s') \<Rightarrow> (Some (errors_New (''claim execution: '' @ m)), s')
        | (Rows n, s') \<Rightarrow>
            if n = 1 then (None, s')
            else (case Sql_GetClaim env d (se_later env s') of
                Inl e \<Rightarrow> (Some (wrap_error e (''read existing claim: '' @ err_text e)), s')
              | Inr c \<Rightarrow>
                  if ec_Owner c = w \<and> ec_State c = ClaimStateClaimed then (None, s')
                  else (Some (ClaimHeldError c), s')))"

definition Sql_AdvanceClaim ::
  "sql_env \<Rightarrow> string \<Rightarrow> ClaimOwner \<Rightarrow> ClaimState \<Rightarrow> time \<Rightarrow> database \<Rightarrow> go_error option \<times> database" where
  "Sql_AdvanceClaim env d w to t s = (case ClaimSources to of
       None \<Rightarrow> (Some (invalid_target to), s)
     | Some from \<Rightarrow> (case ExecContext (se_exec env) (update_claim d w to from t) s of
         (Exec_error m, s') \<Rightarrow> (Some (errors_New (''advance claim: '' @ m)), s')
       | (Rows_error m, s') \<Rightarrow> (Some (errors_New (''advance claim: '' @ m)), s')
       | (Rows n, s') \<Rightarrow> if n \<noteq> 1 then (Some claim_not_held, s') else (None, s')))"

section \<open>Decision records (sqlite.go)\<close>

definition decision_row :: "string \<Rightarrow> database \<Rightarrow> DecisionRecord option" where
  "decision_row d s = find (\<lambda>r. dr_DecisionID r = d) (db_decisions s)"

definition Sql_AppendDecision ::
  "sql_env \<Rightarrow> DecisionRecord \<Rightarrow> database \<Rightarrow> go_error option \<times> database" where
  "Sql_AppendDecision env r s = (case Validate r of
       Some e \<Rightarrow> (Some e, s)
     | None \<Rightarrow> (case ExecContext (se_exec env) (insert_decision r) s of
         (Exec_error m, s') \<Rightarrow> (Some (errors_New (''insert decision: '' @ m)), s')
       | (Rows_error m, s') \<Rightarrow> (Some (errors_New m), s')
       | (Rows n, s') \<Rightarrow>
           if n = 1 then (None, s')
           else (case QueryRow (se_read env) (decision_row (dr_DecisionID r) (se_later env s')) of
               NoRows \<Rightarrow> (Some (errors_New (''read existing decision: '' @ no_rows)), s')
             | Query_error m \<Rightarrow> (Some (errors_New (''read existing decision: '' @ m)), s')
             | Row existing \<Rightarrow>
                 if \<not> Equal existing r then (Some decision_conflict, s') else (None, s'))))"

definition Sql_GetDecision :: "sql_env \<Rightarrow> string \<Rightarrow> database \<Rightarrow> go_error + DecisionRecord" where
  "Sql_GetDecision env d s = (case QueryRow (se_read env) (decision_row d s) of
       NoRows \<Rightarrow> Inl decision_not_found
     | Query_error m \<Rightarrow> Inl (errors_New (''read decision: '' @ m))
     | Row r \<Rightarrow> Inr r)"

definition Sql_ListDecisionsByProposal ::
  "sql_env \<Rightarrow> string \<Rightarrow> database \<Rightarrow> go_error + DecisionRecord list" where
  "Sql_ListDecisionsByProposal env p s = (case se_read env of
       Some m \<Rightarrow> Inl (errors_New m)
     | None \<Rightarrow> Inr (filter (\<lambda>r. dr_ProposalID r = p) (db_decisions s)))"

section \<open>Audit rows (sqlite.go)\<close>

definition audit_row :: "string \<Rightarrow> database \<Rightarrow> AuditRecord option" where
  "audit_row i s = find (\<lambda>r. ar_RecordID r = i) (db_audit s)"

text \<open>\<open>now\<close> is the clock, used for a record that carries no time.\<close>

definition Sql_Append :: "sql_env \<Rightarrow> time \<Rightarrow> AuditRecord \<Rightarrow> database \<Rightarrow> go_error option \<times> database" where
  "Sql_Append env now r0 s =
     (if ar_RecordID r0 = '''' \<or> ar_ProposalID r0 = '''' \<or> AuditPhase_str (ar_Phase r0) = ''''
      then (Some audit_persist_failed, s)
      else
        let r = (if IsZero (ar_RecordedAt r0) then r0\<lparr>ar_RecordedAt := now\<rparr> else r0);
            failed = (\<lambda>m. Some (wrap_error audit_persist_failed (err_text audit_persist_failed @ '': '' @ m)))
        in case ExecContext (se_exec env) (insert_audit r) s of
            (Exec_error m, s') \<Rightarrow> (failed m, s')
          | (Rows_error m, s') \<Rightarrow> (Some (errors_New m), s')
          | (Rows n, s') \<Rightarrow>
              if n = 1 then (None, s')
              else (case QueryRow (se_read env) (audit_row (ar_RecordID r) (se_later env s')) of
                  NoRows \<Rightarrow> (failed no_rows, s')
                | Query_error m \<Rightarrow> (failed m, s')
                | Row existing \<Rightarrow>
                    let sameTime = (ar_RecordedAt existing = ar_RecordedAt r)
                    in if \<not> sameTime \<or> existing\<lparr>ar_RecordedAt := zero_time\<rparr> \<noteq> r\<lparr>ar_RecordedAt := zero_time\<rparr>
                       then (failed (''record '' @ ar_RecordID r @ '' already exists with different content''), s')
                       else (None, s')))"

text \<open>\<^verbatim>\<open>ORDER BY recorded_at ASC, record_id ASC\<close> compares the texts of the columns bytewise.\<close>

definition audit_sort_key :: "AuditRecord \<Rightarrow> string \<times> string" where
  "audit_sort_key r = (formatTime (ar_RecordedAt r), ar_RecordID r)"

definition Sql_ListByProposal :: "sql_env \<Rightarrow> string \<Rightarrow> database \<Rightarrow> go_error + AuditRecord list" where
  "Sql_ListByProposal env p s = (case se_read env of
       Some m \<Rightarrow> Inl (errors_New m)
     | None \<Rightarrow> Inr (sort_key audit_sort_key (filter (\<lambda>r. ar_ProposalID r = p) (db_audit s))))"

section \<open>Invariant\<close>

definition sql_claims :: "database \<Rightarrow> claim_map" where
  "sql_claims s d = claim_row d s"

definition sql_known :: "database \<Rightarrow> string set" where
  "sql_known s = dr_DecisionID ` set (db_decisions s)"

text \<open>Primary keys, the foreign key, the CHECK, and the guards the methods enforce.\<close>

definition sql_inv :: "database \<Rightarrow> bool" where
  "sql_inv s \<longleftrightarrow>
     distinct (map ar_RecordID (db_audit s)) \<and> distinct (map dr_DecisionID (db_decisions s)) \<and>
     distinct (map ec_DecisionID (db_claims s)) \<and>
     ec_DecisionID ` set (db_claims s) \<subseteq> sql_known s \<and>
     (\<forall>c \<in> set (db_claims s). check_state (ec_State c) \<and> Valid (ec_Owner c)) \<and>
     (\<forall>r \<in> set (db_decisions s). Validate r = None)"

lemma migrate_inv [simp]: "sql_inv migrate"
  by (simp add: sql_inv_def migrate_def sql_known_def)

lemma sql_claims_eq: "sql_claims s = (\<lambda>d. find (\<lambda>c. ec_DecisionID c = d) (db_claims s))"
  by (simp add: sql_claims_def claim_row_def fun_eq_iff)

lemma list_ex_key: "list_ex (\<lambda>r. f r = k) xs \<longleftrightarrow> k \<in> f ` set xs"
  by (auto simp: list_ex_iff)

lemma owner_eq: "ec_Owner c = w \<longleftrightarrow> o_WorkflowID (ec_Owner c) = o_WorkflowID w
    \<and> o_RunID (ec_Owner c) = o_RunID w \<and> o_Token (ec_Owner c) = o_Token w"
  by (cases "ec_Owner c"; cases w) simp

lemma ClaimSources_check: "ClaimSources to = Some src \<Longrightarrow> check_state to"
  by (auto simp: ClaimSources_def check_state_def split: ClaimState.splits)

section \<open>The two claim statements\<close>

text \<open>A row-wise update of the claim table, read as a map.\<close>

lemma sql_claims_update:
  assumes "\<And>c. ec_DecisionID (u c) = ec_DecisionID c"
  shows "sql_claims (s\<lparr>db_claims := map (\<lambda>c. if P c then u c else c) (db_claims s)\<rparr>) =
    (\<lambda>d. map_option (\<lambda>c. if P c then u c else c) (sql_claims s d))"
  unfolding sql_claims_eq using assms by (simp add: find_map_key [of ec_DecisionID] fun_eq_iff)

lemma claim_update_inv:
  assumes "sql_inv s" "\<And>c. ec_DecisionID (u c) = ec_DecisionID c"
    and "\<And>c. c \<in> set (db_claims s) \<Longrightarrow> P c \<Longrightarrow> check_state (ec_State (u c)) \<and> Valid (ec_Owner (u c))"
  shows "sql_inv (s\<lparr>db_claims := map (\<lambda>c. if P c then u c else c) (db_claims s)\<rparr>)"
proof -
  let ?rows = "map (\<lambda>c. if P c then u c else c) (db_claims s)"
  have ids: "map ec_DecisionID ?rows = map ec_DecisionID (db_claims s)" by (simp add: assms(2))
  have "ec_DecisionID ` set ?rows = ec_DecisionID ` set (db_claims s)"
    using arg_cong [OF ids, of set] by (simp only: set_map)
  moreover have "distinct (map ec_DecisionID ?rows)" unfolding ids using assms(1) by (simp add: sql_inv_def)
  moreover have "\<forall>c \<in> set ?rows. check_state (ec_State c) \<and> Valid (ec_Owner c)"
    using assms(1,3) by (auto simp: sql_inv_def)
  ultimately show ?thesis
    using assms(1) by (simp only: sql_inv_def sql_known_def database.simps) simp
qed

lemma sql_claims_Some:
  assumes "sql_claims s d = Some c"
  shows "c \<in> set (db_claims s)" "ec_DecisionID c = d"
  using assms find_Some_key [of ec_DecisionID] by (auto simp: sql_claims_eq)

lemma sql_claims_row:
  assumes "sql_inv s" "c \<in> set (db_claims s)"
  shows "sql_claims s (ec_DecisionID c) = Some c"
  using assms unfolding sql_claims_eq sql_inv_def by (intro find_key_mem) simp_all

lemma upsert_claim_ok:
  assumes inv: "sql_inv s" and w: "Valid w"
  shows "case upsert_claim fk d w t s of
      Inl m \<Rightarrow> m = fk \<and> d \<notin> sql_known s \<and> claimable (sql_claims s) d
    | Inr (n, s') \<Rightarrow> sql_inv s' \<and> sql_known s' = sql_known s \<and> db_decisions s' = db_decisions s \<and> d \<in> sql_known s \<and>
        (if claimable (sql_claims s) d
         then n = 1 \<and> sql_claims s' = (sql_claims s)(d \<mapsto> new_claim d w t) else n = 0 \<and> s' = s)"
proof (cases "claim_row d s")
  case None
  then have fresh: "d \<notin> ec_DecisionID ` set (db_claims s)" by (simp add: claim_row_def find_None_key)
  let ?s' = "s\<lparr>db_claims := db_claims s @ [new_claim d w t]\<rparr>"
  have new: "ec_DecisionID (new_claim d w t) = d" "ec_Owner (new_claim d w t) = w"
    "ec_State (new_claim d w t) = ClaimStateClaimed" by (simp_all add: new_claim_def)
  have "sql_claims ?s' = (sql_claims s)(d \<mapsto> new_claim d w t)"
    using None by (auto simp: sql_claims_eq claim_row_def find_append new fun_eq_iff split: option.splits)
  moreover have "sql_inv ?s'" if "d \<in> sql_known s"
    using inv w that fresh by (simp add: sql_inv_def sql_known_def new check_state_def)
  moreover have "claimable (sql_claims s) d" using None by (simp add: claimable_def sql_claims_def)
  ultimately show ?thesis
    using None by (simp add: upsert_claim_def list_ex_key sql_known_def new_claim_def)
next
  case (Some c)
  let ?u = "\<lambda>c. c\<lparr>ec_Owner := w, ec_State := ClaimStateClaimed, ec_ClaimedAt := t, ec_UpdatedAt := t\<rparr>"
  have c: "sql_claims s d = Some c" using Some by (simp add: sql_claims_def)
  have k: "d \<in> sql_known s" using inv sql_claims_Some [OF c] by (auto simp: sql_inv_def)
  have n: "?u x = new_claim d w t" if "ec_DecisionID x = d" for x
    using that by (cases x) (simp add: new_claim_def)
  have "sql_inv (s\<lparr>db_claims := map (\<lambda>c. if ec_DecisionID c = d then ?u c else c) (db_claims s)\<rparr>)"
    using w by (intro claim_update_inv [OF inv]) (simp_all add: check_state_def)
  moreover have "sql_claims (s\<lparr>db_claims := map (\<lambda>c. if ec_DecisionID c = d then ?u c else c) (db_claims s)\<rparr>)
      = (sql_claims s)(d \<mapsto> new_claim d w t)"
    using c by (auto simp: sql_claims_update fun_eq_iff n map_option_case dest: sql_claims_Some split: option.splits)
  ultimately show ?thesis
    using c k Some inv by (simp add: upsert_claim_def claimable_def sql_known_def)
qed

lemma update_claim_ok:
  assumes inv: "sql_inv s" and src: "ClaimSources to = Some src"
  shows "\<exists>n s'. update_claim d w to src t s = Inr (n, s') \<and> sql_inv s' \<and> db_decisions s' = db_decisions s \<and>
    (if may_advance (sql_claims s) d w to
     then n = 1 \<and> sql_claims s' = (sql_claims s)(d \<mapsto> (the (sql_claims s d))\<lparr>ec_State := to, ec_UpdatedAt := t\<rparr>)
     else n = 0 \<and> sql_claims s' = sql_claims s)"
proof -
  let ?Q = "\<lambda>c. ec_Owner c = w \<and> ec_State c \<in> set src"
  let ?P = "\<lambda>c. ec_DecisionID c = d \<and> ?Q c"
  let ?u = "\<lambda>c. c\<lparr>ec_State := to, ec_UpdatedAt := t\<rparr>"
  let ?s' = "s\<lparr>db_claims := map (\<lambda>c. if ?P c then ?u c else c) (db_claims s)\<rparr>"
  have n: "length (filter ?P (db_claims s)) = (if may_advance (sql_claims s) d w to then 1 else 0)"
    using inv src by (simp add: filter_key sql_inv_def may_advance_def sql_claims_eq split: option.splits)
  have inv': "sql_inv ?s'"
    using inv ClaimSources_check [OF src] by (intro claim_update_inv) (auto simp: sql_inv_def)
  have m: "sql_claims ?s' = (if may_advance (sql_claims s) d w to then (sql_claims s)(d \<mapsto> ?u (the (sql_claims s d)))
      else sql_claims s)"
  proof (rule ext)
    fix x
    show "sql_claims ?s' x = (if may_advance (sql_claims s) d w to
        then (sql_claims s)(d \<mapsto> ?u (the (sql_claims s d))) else sql_claims s) x"
      using src sql_claims_Some(2) [of s x]
      by (cases "sql_claims s x") (auto simp: sql_claims_update may_advance_def)
  qed
  have "update_claim d w to src t s = Inr (length (filter ?P (db_claims s)), ?s')"
    using ClaimSources_check [OF src] by (simp add: update_claim_def Let_def owner_eq conj_assoc)
  with n inv' m show ?thesis by simp
qed

section \<open>The claim contract\<close>

text \<open>
  Nothing fails and nobody interferes; the driver's foreign key error carries the phrase
  \<^verbatim>\<open>ClaimExecution\<close> looks for.
\<close>

definition sql_quiet :: "sql_env \<Rightarrow> bool" where
  "sql_quiet env \<longleftrightarrow> se_exec env = Exec_ok \<and> (\<forall>s. se_later env s = s) \<and> se_read env = None \<and>
     strings_Contains (se_fk env) fk_phrase"

lemma Sql_AdvanceClaim_unfold:
  assumes inv: "sql_inv s" and src: "ClaimSources to = Some src"
  obtains n s' where "sql_inv s'" "db_decisions s' = db_decisions s"
    "Sql_AdvanceClaim env d w to t s = (case se_exec env of
        Exec_ok \<Rightarrow> if may_advance (sql_claims s) d w to then (None, s') else (Some claim_not_held, s')
      | Exec_failed m \<Rightarrow> (Some (errors_New (''advance claim: '' @ m)), s)
      | Exec_lost m \<Rightarrow> (Some (errors_New (''advance claim: '' @ m)), s')
      | Rows_failed m \<Rightarrow> (Some (errors_New (''advance claim: '' @ m)), s'))"
    "sql_claims s' = (if may_advance (sql_claims s) d w to
      then (sql_claims s)(d \<mapsto> (the (sql_claims s d))\<lparr>ec_State := to, ec_UpdatedAt := t\<rparr>) else sql_claims s)"
proof -
  obtain n s' where u: "update_claim d w to src t s = Inr (n, s')" "sql_inv s'" "db_decisions s' = db_decisions s"
    and n: "if may_advance (sql_claims s) d w to
      then n = 1 \<and> sql_claims s' = (sql_claims s)(d \<mapsto> (the (sql_claims s d))\<lparr>ec_State := to, ec_UpdatedAt := t\<rparr>)
      else n = 0 \<and> sql_claims s' = sql_claims s"
    using update_claim_ok [OF assms] by blast
  show thesis
    by (rule that [OF u(2,3)])
      (use n u(1) src in \<open>auto simp: Sql_AdvanceClaim_def ExecContext_def split: exec_fault.splits if_splits\<close>)
qed

lemma may_advance_sources: "may_advance m d w to \<Longrightarrow> \<exists>src. ClaimSources to = Some src"
  by (auto simp: may_advance_def split: option.splits)

lemma sql_claims_known: "sql_inv s \<Longrightarrow> dom (sql_claims s) \<subseteq> sql_known s"
  using sql_claims_Some by (fastforce simp: sql_inv_def)

lemma Sql_ClaimExecution_cases:
  assumes inv: "sql_inv s" and w: "Valid w" "d \<noteq> ''''" and c: "Sql_ClaimExecution env d w t s = (e, s')"
  shows "sql_inv s' \<and> db_decisions s' = db_decisions s \<and>
    (sql_claims s' = sql_claims s \<or> claimable (sql_claims s) d \<and> sql_claims s' = (sql_claims s)(d \<mapsto> new_claim d w t))"
  using upsert_claim_ok [OF inv w(1), of "se_fk env" d t] inv c w
  by (auto simp: Sql_ClaimExecution_def ExecContext_def
      split: exec_fault.splits sum.splits prod.splits if_splits)

lemma Sql_ClaimExecution_quiet:
  assumes inv: "sql_inv s" and q: "sql_quiet env" and c: "Sql_ClaimExecution env d w t s = (e, s')"
  shows "(map_option err_is e, sql_claims s') = spec_claim (sql_known s) d w t (sql_claims s)"
proof (cases "d = '''' \<or> \<not> Valid w")
  case True
  then show ?thesis using c by (auto simp: Sql_ClaimExecution_def spec_claim_def)
next
  case False
  have q': "se_exec env = Exec_ok" "\<And>s. se_later env s = s" "se_read env = None"
    "strings_Contains (se_fk env) fk_phrase" using q by (auto simp: sql_quiet_def)
  have k: "d \<in> sql_known s" if "\<not> claimable (sql_claims s) d"
    using that sql_claims_known [OF inv] by (auto simp: claimable_def split: option.splits)
  show ?thesis
    using False c k upsert_claim_ok [OF inv, of w "se_fk env" d t]
    by (auto simp: Sql_ClaimExecution_def ExecContext_def q' spec_claim_def Sql_GetClaim_def QueryRow_def
        claimable_def sql_claims_def split: sum.splits prod.splits if_splits option.splits)
qed

interpretation sql: claim_store Sql_ClaimExecution Sql_AdvanceClaim Sql_GetClaim sql_claims sql_known
  sql_quiet sql_inv
proof unfold_locales
  fix s f d w t e s'
  assume inv: "sql_inv s" and c: "Sql_ClaimExecution f d w t s = (e, s')"
  show "sql_inv s' \<and> sql_known s' = sql_known s \<and>
      (sql_claims s' = sql_claims s \<or> take_claim d w t (sql_claims s) (sql_claims s'))"
  proof (cases "Valid w \<and> d \<noteq> ''''")
    case True
    then show ?thesis
      using Sql_ClaimExecution_cases [OF inv _ _ c] by (auto simp: take_claim_def sql_known_def)
  next
    case False
    then show ?thesis using c inv by (auto simp: Sql_ClaimExecution_def)
  qed
  show "(map_option err_is e, sql_claims s') = spec_claim (sql_known s) d w t (sql_claims s)"
    if "sql_quiet f" using Sql_ClaimExecution_quiet [OF inv that c] .
next
  fix s f d w to t e s'
  assume inv: "sql_inv s" and c: "Sql_AdvanceClaim f d w to t s = (e, s')"
  show "sql_inv s' \<and> sql_known s' = sql_known s \<and>
      (sql_claims s' = sql_claims s \<or> move_claim d w to t (sql_claims s) (sql_claims s'))"
  proof (cases "ClaimSources to")
    case None
    then show ?thesis using c inv by (simp add: Sql_AdvanceClaim_def)
  next
    case (Some src)
    from inv Some show ?thesis
      by (rule Sql_AdvanceClaim_unfold [of s to src f d w t])
        (use c inv in \<open>auto simp: move_claim_def sql_known_def split: exec_fault.splits if_splits\<close>)
  qed
  show "(map_option err_is e, sql_claims s') = spec_advance d w to t (sql_claims s)" if q: "sql_quiet f"
  proof (cases "ClaimSources to")
    case None
    then show ?thesis using c by (auto simp: Sql_AdvanceClaim_def spec_advance_def may_advance_def split: option.splits)
  next
    case (Some src)
    from inv Some show ?thesis
      by (rule Sql_AdvanceClaim_unfold [of s to src f d w t])
        (use c q in \<open>auto simp: spec_advance_def sql_quiet_def split: if_splits\<close>)
  qed
next
  fix s f d w to t s'
  assume inv: "sql_inv s" and c: "Sql_AdvanceClaim f d w to t s = (None, s')"
  obtain src where src: "ClaimSources to = Some src" using c by (auto simp: Sql_AdvanceClaim_def split: option.splits)
  from inv src show "move_claim d w to t (sql_claims s) (sql_claims s')"
    by (rule Sql_AdvanceClaim_unfold [of s to src f d w t])
      (use c in \<open>auto simp: move_claim_def split: exec_fault.splits if_splits\<close>)
next
  fix s f d w to t s' e
  assume inv: "sql_inv s" and c: "Sql_AdvanceClaim f d w to t s = (Some e, s')" and e: "err_is e = ErrClaimNotHeld"
  show "sql_claims s' = sql_claims s"
  proof (cases "ClaimSources to")
    case None
    then show ?thesis using c by (simp add: Sql_AdvanceClaim_def)
  next
    case (Some src)
    from inv Some show ?thesis
      by (rule Sql_AdvanceClaim_unfold [of s to src f d w t])
        (use c e in \<open>auto split: exec_fault.splits if_splits\<close>)
  qed
next
  fix s f d
  assume "sql_quiet f"
  then show "Sql_GetClaim f d s = (case sql_claims s d of None \<Rightarrow> Inl claim_not_found | Some c \<Rightarrow> Inr c)"
    by (simp add: Sql_GetClaim_def QueryRow_def sql_quiet_def sql_claims_def split: option.splits)
qed (rule sql_claims_known)

section \<open>The record contract\<close>

text \<open>Other writers only append decision records.\<close>

definition sql_sound :: "sql_env \<Rightarrow> bool" where
  "sql_sound env \<longleftrightarrow> (\<forall>s. \<exists>rs. db_decisions (se_later env s) = db_decisions s @ rs)"

lemma decision_row_lookup: "decision_row d s = lookup_decision (db_decisions s) d"
  by (simp add: decision_row_def lookup_decision_def)

lemma insert_decision_ok:
  assumes "sql_inv s" "Validate r = None"
  shows "if fresh_id (db_decisions s) (dr_DecisionID r)
    then \<exists>s'. insert_decision r s = Inr (1, s') \<and> sql_inv s' \<and> db_decisions s' = db_decisions s @ [r] \<and>
      sql_claims s' = sql_claims s \<and> db_audit s' = db_audit s
    else insert_decision r s = Inr (0, s)"
  using assms by (auto simp: insert_decision_def list_ex_key fresh_id_def sql_inv_def sql_known_def sql_claims_eq)

lemma Sql_AppendDecision_cases:
  assumes inv: "sql_inv s" and c: "Sql_AppendDecision env r s = (e, s')"
  shows "sql_inv s' \<and> sql_claims s' = sql_claims s \<and> (db_decisions s' = db_decisions s \<or>
    db_decisions s' = db_decisions s @ [r] \<and> Validate r = None \<and> fresh_id (db_decisions s) (dr_DecisionID r))"
proof (cases "Validate r")
  case None
  show ?thesis
    using insert_decision_ok [OF inv None] inv c None
    by (cases "se_exec env"; cases "fresh_id (db_decisions s) (dr_DecisionID r)")
      (auto simp: Sql_AppendDecision_def ExecContext_def split: query_row.splits if_splits)
next
  case (Some e)
  then show ?thesis using inv c by (simp add: Sql_AppendDecision_def)
qed

lemma Sql_AppendDecision_ok:
  assumes inv: "sql_inv s" and snd: "sql_sound env" and c: "Sql_AppendDecision env r s = (None, s')"
  shows "lookup_decision (db_decisions s') (dr_DecisionID r) = Some r"
proof -
  have v: "Validate r = None" using c by (cases "Validate r") (auto simp: Sql_AppendDecision_def)
  show ?thesis
  proof (cases "fresh_id (db_decisions s) (dr_DecisionID r)")
    case True
    then obtain s1 where s1: "insert_decision r s = Inr (1, s1)" "db_decisions s1 = db_decisions s @ [r]"
      using insert_decision_ok [OF inv v] by auto
    have "s' = s1" using c s1(1) v by (auto simp: Sql_AppendDecision_def ExecContext_def split: exec_fault.splits)
    with s1(2) True show ?thesis by (simp add: lookup_append lookup_None_iff [THEN iffD2])
  next
    case False
    then obtain r' where r': "lookup_decision (db_decisions s) (dr_DecisionID r) = Some r'"
      using lookup_None_iff by blast
    obtain rs where "db_decisions (se_later env s) = db_decisions s @ rs" using snd by (auto simp: sql_sound_def)
    then have "decision_row (dr_DecisionID r) (se_later env s) = Some r'"
      using r' by (simp add: decision_row_lookup lookup_append)
    with r' c v False insert_decision_ok [OF inv v] show ?thesis
      by (auto simp: Sql_AppendDecision_def ExecContext_def QueryRow_def
          split: exec_fault.splits option.splits if_splits)
  qed
qed

lemma Sql_AppendDecision_spec:
  assumes inv: "sql_inv s" and q: "sql_quiet env"
  shows "(case Sql_AppendDecision env r s of (e, s') \<Rightarrow> (map_option err_is e, db_decisions s')) =
    spec_append r (db_decisions s)"
proof (cases r rule: Validate_cases)
  case 1
  have q': "se_exec env = Exec_ok" "\<And>s. se_later env s = s" "se_read env = None"
    using q by (auto simp: sql_quiet_def)
  show ?thesis
  proof (cases "lookup_decision (db_decisions s) (dr_DecisionID r)")
    case None
    then have "fresh_id (db_decisions s) (dr_DecisionID r)" by (simp add: lookup_None_iff)
    with insert_decision_ok [OF inv 1] 1 q' None show ?thesis
      by (auto simp: Sql_AppendDecision_def ExecContext_def spec_append_def)
  next
    case (Some r')
    then have "\<not> fresh_id (db_decisions s) (dr_DecisionID r)" by (simp flip: lookup_None_iff)
    with insert_decision_ok [OF inv 1] 1 q' Some show ?thesis
      by (simp add: Sql_AppendDecision_def ExecContext_def spec_append_def QueryRow_def decision_row_lookup)
  qed
qed (simp add: Sql_AppendDecision_def spec_append_def)

interpretation sqlr: record_store Sql_AppendDecision Sql_GetDecision Sql_ListDecisionsByProposal
  db_decisions sql_sound sql_quiet sql_inv
proof unfold_locales
  fix s f r e s'
  assume inv: "sql_inv s" and c: "Sql_AppendDecision f r s = (e, s')"
  show "sql_inv s' \<and> (db_decisions s' = db_decisions s \<or> db_decisions s' = db_decisions s @ [r] \<and>
      Validate r = None \<and> fresh_id (db_decisions s) (dr_DecisionID r))"
    using Sql_AppendDecision_cases [OF inv c] by blast
  show "(map_option err_is e, db_decisions s') = spec_append r (db_decisions s)" if "sql_quiet f"
    using c Sql_AppendDecision_spec [OF inv that, of r] by simp
next
  fix s f d r
  assume inv: "sql_inv s"
  show "Sql_GetDecision f d s = (case lookup_decision (db_decisions s) d of
      None \<Rightarrow> Inl decision_not_found | Some r \<Rightarrow> Inr r)" if "sql_quiet f"
    using that by (simp add: Sql_GetDecision_def QueryRow_def sql_quiet_def decision_row_lookup split: option.splits)
  show "lookup_decision (db_decisions s) d = Some r" if "Sql_GetDecision f d s = Inr r"
    using that by (auto simp: Sql_GetDecision_def QueryRow_def decision_row_lookup split: option.splits)
  show "Validate r = None" if "r \<in> set (db_decisions s)" using that inv by (simp add: sql_inv_def)
qed (auto intro: Sql_AppendDecision_ok simp: sql_quiet_def sql_sound_def Sql_ListDecisionsByProposal_def)

section \<open>Audit rows\<close>

definition audit_complete :: "AuditRecord \<Rightarrow> bool" where
  "audit_complete r \<longleftrightarrow> ar_RecordID r \<noteq> '''' \<and> ar_ProposalID r \<noteq> '''' \<and> AuditPhase_str (ar_Phase r) \<noteq> ''''"

definition audit_stamped :: "time \<Rightarrow> AuditRecord \<Rightarrow> AuditRecord" where
  "audit_stamped now r = (if IsZero (ar_RecordedAt r) then r\<lparr>ar_RecordedAt := now\<rparr> else r)"

lemma audit_same_iff:
  "(\<not> ar_RecordedAt a = ar_RecordedAt b \<or> a\<lparr>ar_RecordedAt := zero_time\<rparr> \<noteq> b\<lparr>ar_RecordedAt := zero_time\<rparr>) \<longleftrightarrow> a \<noteq> (b :: AuditRecord)"
  by (cases a; cases b) auto

lemma audit_stamped_id [simp]: "ar_RecordID (audit_stamped now r) = ar_RecordID r"
  by (simp add: audit_stamped_def)

text \<open>\<^verbatim>\<open>Append\<close> on an incomplete record, and on a complete one without its clock default.\<close>

lemma Sql_Append_incomplete: "\<not> audit_complete r \<Longrightarrow> Sql_Append env now r s = (Some audit_persist_failed, s)"
  by (auto simp: Sql_Append_def audit_complete_def)

lemma Sql_Append_unfold:
  assumes "audit_complete r"
  shows "Sql_Append env now r s =
    (let r' = audit_stamped now r; failed = (\<lambda>m. Some (wrap_error audit_persist_failed (err_text audit_persist_failed @ '': '' @ m)))
     in case ExecContext (se_exec env) (insert_audit r') s of
          (Exec_error m, s') \<Rightarrow> (failed m, s')
        | (Rows_error m, s') \<Rightarrow> (Some (errors_New m), s')
        | (Rows n, s') \<Rightarrow> if n = 1 then (None, s')
            else (case QueryRow (se_read env) (audit_row (ar_RecordID r) (se_later env s')) of
                NoRows \<Rightarrow> (failed no_rows, s') | Query_error m \<Rightarrow> (failed m, s')
              | Row existing \<Rightarrow>
                  if existing \<noteq> r' then (failed (''record '' @ ar_RecordID r @ '' already exists with different content''), s')
                  else (None, s')))"
proof -
  have "\<not> (ar_RecordID r = '''' \<or> ar_ProposalID r = '''' \<or> AuditPhase_str (ar_Phase r) = '''')"
    using assms by (simp add: audit_complete_def)
  then show ?thesis
    by (simp only: Sql_Append_def Let_def audit_same_iff if_False audit_stamped_def [symmetric] audit_stamped_id)
qed

lemma insert_audit_ok:
  assumes "sql_inv s"
  shows "if ar_RecordID r \<in> ar_RecordID ` set (db_audit s) then insert_audit r s = Inr (0, s)
    else insert_audit r s = Inr (1, s\<lparr>db_audit := db_audit s @ [r]\<rparr>) \<and> sql_inv (s\<lparr>db_audit := db_audit s @ [r]\<rparr>)"
  using assms by (auto simp: insert_audit_def list_ex_key sql_inv_def sql_known_def)

text \<open>
  Whatever fails, a call changes the audit table by at most its own row, appended under an ID
  that was free; rows on record are never touched.
\<close>

lemma Sql_Append_safe:
  assumes inv: "sql_inv s" and c: "Sql_Append env now r s = (e, s')"
  shows "sql_inv s' \<and> (s' = s \<or> s' = s\<lparr>db_audit := db_audit s @ [audit_stamped now r]\<rparr> \<and>
    ar_RecordID r \<notin> ar_RecordID ` set (db_audit s) \<and> audit_complete r)"
proof (cases "audit_complete r")
  case True
  show ?thesis
    using insert_audit_ok [OF inv, of "audit_stamped now r"] c inv True
    by (cases "se_exec env"; cases "ar_RecordID r \<in> ar_RecordID ` set (db_audit s)")
      (auto simp: Sql_Append_unfold [OF True] ExecContext_def Let_def split: query_row.splits if_splits)
next
  case False
  then show ?thesis using c inv by (simp add: Sql_Append_incomplete)
qed

text \<open>A success means that the row is on record, if other writers only append rows.\<close>

definition audit_sound :: "sql_env \<Rightarrow> bool" where
  "audit_sound env \<longleftrightarrow> (\<forall>s. \<exists>rs. db_audit (se_later env s) = db_audit s @ rs)"

lemma Sql_Append_ok:
  assumes inv: "sql_inv s" and snd: "audit_sound env" and c: "Sql_Append env now r s = (None, s')"
  shows "audit_complete r \<and> audit_stamped now r \<in> set (db_audit s')"
proof (cases "audit_complete r")
  case True
  show ?thesis
  proof (cases "ar_RecordID r \<in> ar_RecordID ` set (db_audit s)")
    case False
    then show ?thesis
      using insert_audit_ok [OF inv, of "audit_stamped now r"] c True
      by (cases "se_exec env") (auto simp: Sql_Append_unfold [OF True] ExecContext_def Let_def)
  next
    case known: True
    then have "audit_row (ar_RecordID r) s \<noteq> None" by (simp add: audit_row_def find_None_key)
    then obtain x where x: "audit_row (ar_RecordID r) s = Some x" by blast
    have x': "x \<in> set (db_audit s)" using find_Some_key [OF x [unfolded audit_row_def]] by (rule conjunct1)
    obtain rs where "db_audit (se_later env s) = db_audit s @ rs" using snd by (auto simp: audit_sound_def)
    then have "audit_row (ar_RecordID r) (se_later env s) = Some x"
      using x by (simp add: audit_row_def find_append)
    with x' known c insert_audit_ok [OF inv, of "audit_stamped now r"] True show ?thesis
      by (auto simp: Sql_Append_unfold [OF True] ExecContext_def QueryRow_def Let_def
          split: exec_fault.splits option.splits if_splits)
  qed
next
  case False
  then show ?thesis using c by (simp add: Sql_Append_incomplete)
qed

text \<open>Without faults: the row is inserted, or it is the same row again, or the call fails.\<close>

lemma Sql_Append_quiet:
  assumes inv: "sql_inv s" and q: "sql_quiet env" and r: "audit_complete r"
  shows "Sql_Append env now r s = (case audit_row (ar_RecordID r) s of
      None \<Rightarrow> (None, s\<lparr>db_audit := db_audit s @ [audit_stamped now r]\<rparr>)
    | Some existing \<Rightarrow> if existing = audit_stamped now r then (None, s)
        else (Some (wrap_error audit_persist_failed (err_text audit_persist_failed @ '': record '' @ ar_RecordID r
          @ '' already exists with different content'')), s))"
proof -
  have q': "se_exec env = Exec_ok" "\<And>s. se_later env s = s" "se_read env = None"
    using q by (auto simp: sql_quiet_def)
  have k: "audit_row (ar_RecordID r) s = None \<longleftrightarrow> ar_RecordID r \<notin> ar_RecordID ` set (db_audit s)"
    by (simp add: audit_row_def find_None_key)
  show ?thesis
    using insert_audit_ok [OF inv, of "audit_stamped now r"] k
    by (cases "audit_row (ar_RecordID r) s")
      (auto simp: Sql_Append_unfold [OF r] ExecContext_def QueryRow_def q' Let_def)
qed

text \<open>
  A call in which nothing fails, and sample audit rows: the text of a whole second ends in
  \<^verbatim>\<open>Z\<close> where that of half a second later has the decimal point, which is the smaller character.
\<close>

definition ok_env :: sql_env where
  "ok_env = \<lparr>se_exec = Exec_ok, se_later = (\<lambda>s. s), se_read = None, se_fk = fk_phrase\<rparr>"

lemma ok_env_quiet [simp]: "sql_quiet ok_env"
  by (simp add: sql_quiet_def ok_env_def fk_phrase_def)

definition row_at :: "string \<Rightarrow> time \<Rightarrow> AuditRecord" where
  "row_at i t = \<lparr>ar_RecordID = i, ar_ProposalID = ''p'', ar_WorkflowID = ''w'', ar_RunID = ''r'',
     ar_Phase = AuditPhaseDispatch, ar_Verdict = AuditVerdictPass, ar_TargetID = ''t'',
     ar_Command = ''c'', ar_Detail = '''', ar_RecordedAt = t\<rparr>"

section \<open>A sample database\<close>

definition sample_db :: database where
  "sample_db = snd (Sql_AppendDecision ok_env sample_record migrate)"

lemma sample_db_eq: "sample_db = migrate\<lparr>db_decisions := [sample_record]\<rparr>"
  by (simp add: sample_db_def Sql_AppendDecision_def ExecContext_def ok_env_def insert_decision_def migrate_def)

lemma sample_db_inv [simp]: "sql_inv sample_db"
  by (simp add: sample_db_eq sql_inv_def migrate_def sql_known_def)

lemma sample_db_simps [simp]: "sql_known sample_db = {''d''}" "sql_claims sample_db d = None"
  by (simp_all add: sample_db_eq migrate_def sql_known_def sql_claims_def claim_row_def)

text \<open>A run that claims and fences the decision, loses the response, and a second one that tries as well.\<close>

definition lost_env :: sql_env where
  "lost_env = ok_env\<lparr>se_exec := Exec_lost ''broken pipe''\<rparr>"

definition sample_ops :: "sql_env claim_op list" where
  "sample_ops = [OpClaim ok_env ''d'' (sample_owner ''T'') 1, OpAdvance lost_env ''d'' (sample_owner ''T'') ClaimStateExecuting 2,
     OpClaim ok_env ''d'' (sample_owner ''U'') 3, OpAdvance ok_env ''d'' (sample_owner ''U'') ClaimStateExecuting 4,
     OpAdvance ok_env ''d'' (sample_owner ''T'') ClaimStateExecuting 5]"

lemmas sql_run = sample_db_eq migrate_def ok_env_def lost_env_def ExecContext_def Sql_ClaimExecution_def Sql_AdvanceClaim_def
  Sql_GetClaim_def QueryRow_def upsert_claim_def update_claim_def claim_row_def check_state_def claim_simps Let_def

section \<open>Properties\<close>

text \<open>
  C2. However claims and transitions of any executions are interleaved, and whichever of the
  calls fail, lose their response or report no row count, at most one call acquires the fence
  (CLAIMED to EXECUTING) of a decision.
\<close>

theorem sqlite_fence_once:
  assumes "sql_inv db"
  shows "fence_successes d ops (fst (run_ops Sql_ClaimExecution Sql_AdvanceClaim ops db)) \<le> 1"
  using sql.fence_at_most_once(1) [OF assms, of ops _ _ d]
  by (cases "run_ops Sql_ClaimExecution Sql_AdvanceClaim ops db") simp

theorem sqlite_fence_once_witness:
  "fence_successes ''d'' sample_ops (fst (run_ops Sql_ClaimExecution Sql_AdvanceClaim sample_ops sample_db)) \<le> 1"
  by (rule sqlite_fence_once) simp

text \<open>
  C14. Once a decision was used (its claim reached EXECUTING or beyond) it stays used by the
  same owner, whatever is called later; once its outcome is COMPLETED or FAILED the state never
  changes again.
\<close>

theorem sqlite_used_for_ever:
  assumes "sql_inv db" "used (sql_claims db) d"
  shows "\<exists>c c'. sql_claims db d = Some c \<and>
    sql_claims (snd (run_ops Sql_ClaimExecution Sql_AdvanceClaim ops db)) d = Some c' \<and>
    used_state (ec_State c') \<and> ec_Owner c' = ec_Owner c \<and> (final_state (ec_State c) \<longrightarrow> ec_State c' = ec_State c)"
proof (cases "run_ops Sql_ClaimExecution Sql_AdvanceClaim ops db")
  case (Pair es db')
  obtain c where c: "sql_claims db d = Some c" using assms(2) by (auto simp: used_def split: option.splits)
  from sql.used_for_ever [OF assms(1) Pair assms(2)]
  obtain c' where "sql_claims db' d = Some c'" "used_state (ec_State c')" "ec_Owner c' = ec_Owner c"
    using c by (auto simp: used_def split: option.splits)
  with c sql.final_for_ever [OF assms(1) Pair c] Pair show ?thesis by auto
qed

theorem sqlite_used_for_ever_witness:
  "\<exists>c'. sql_claims (snd (run_ops Sql_ClaimExecution Sql_AdvanceClaim sample_ops
      (snd (run_ops Sql_ClaimExecution Sql_AdvanceClaim (take 2 sample_ops) sample_db)))) ''d'' = Some c' \<and>
     used_state (ec_State c')"
proof -
  let ?db = "snd (run_ops Sql_ClaimExecution Sql_AdvanceClaim (take 2 sample_ops) sample_db)"
  have "sql_inv ?db"
    using sql.ops_simulate [OF sample_db_inv] by (cases "run_ops Sql_ClaimExecution Sql_AdvanceClaim (take 2 sample_ops) sample_db") auto
  moreover have "used (sql_claims ?db) ''d''"
    by (simp add: sample_ops_def sql_run used_def used_state_def sql_claims_def)
  ultimately show ?thesis using sqlite_used_for_ever [of ?db "''d''" sample_ops] by auto
qed

text \<open>
  C15. As long as nothing fails, any sequence of calls on the two SQL statements reports the
  same errors and leaves the same claims as the abstract claim machine.
\<close>

theorem sqlite_refines_claims:
  assumes "sql_inv db" "list_all (pred_claim_op sql_quiet) ops"
  shows "(map (map_option err_is) (fst (run_ops Sql_ClaimExecution Sql_AdvanceClaim ops db)),
      sql_claims (snd (run_ops Sql_ClaimExecution Sql_AdvanceClaim ops db))) = spec_ops (sql_known db) ops (sql_claims db)"
  using sql.ops_refine [OF assms(1), of ops] assms(2)
  by (cases "run_ops Sql_ClaimExecution Sql_AdvanceClaim ops db") (auto simp: list_all_iff)

theorem sqlite_refines_claims_witness:
  "(map (map_option err_is) (fst (run_ops Sql_ClaimExecution Sql_AdvanceClaim [OpClaim ok_env ''d'' (sample_owner ''T'') 1] sample_db)),
      sql_claims (snd (run_ops Sql_ClaimExecution Sql_AdvanceClaim [OpClaim ok_env ''d'' (sample_owner ''T'') 1] sample_db)))
    = ([None], (sql_claims sample_db)(''d'' \<mapsto> new_claim ''d'' (sample_owner ''T'') 1))"
  using sqlite_refines_claims [of sample_db "[OpClaim ok_env ''d'' (sample_owner ''T'') 1]"]
  by (simp add: spec_claim_def claimable_def)

text \<open>
  Appending a decision record without faults is the append of the abstract log: invalid
  records are refused, a new ID is added at the end, the same record again changes nothing, and a
  different record under a used ID is a conflict.
\<close>

theorem sqlite_append_refines:
  assumes "sql_inv db" "sql_quiet env"
  shows "(map_option err_is (fst (Sql_AppendDecision env r db)), db_decisions (snd (Sql_AppendDecision env r db))) =
    spec_append r (db_decisions db)"
  using Sql_AppendDecision_spec [OF assms, of r] by (cases "Sql_AppendDecision env r db") simp

theorem sqlite_append_refines_witness:
  "map_option err_is (fst (Sql_AppendDecision ok_env (sample_record\<lparr>dr_Verdict := VerdictDeny\<rparr>) sample_db)) =
     Some ErrDecisionConflict"
  using sqlite_append_refines [OF sample_db_inv ok_env_quiet, of "sample_record\<lparr>dr_Verdict := VerdictDeny\<rparr>"]
  by (simp add: spec_append_def sample_db_eq Validate_None_iff [THEN iffD2] sample_record_def IsZero_def zero_time_def)

text \<open>
  C33. Every write of the store keeps the schema's invariant, also when it fails half way: unique
  keys in the three tables, claims only for recorded decisions and in a known state with a complete
  owner, and only valid decision records.
\<close>

theorem sqlite_invariant:
  assumes "sql_inv db"
  shows "sql_inv (snd (Sql_ClaimExecution env d w t db)) \<and> sql_inv (snd (Sql_AdvanceClaim env d w to t db)) \<and>
    sql_inv (snd (Sql_AppendDecision env r db)) \<and> sql_inv (snd (Sql_Append env t a db))"
proof (intro conjI)
  show "sql_inv (snd (Sql_ClaimExecution env d w t db))" by (rule sql.claim_safe [OF assms surjective_pairing, THEN conjunct1])
  show "sql_inv (snd (Sql_AdvanceClaim env d w to t db))" by (rule sql.advance_safe [OF assms surjective_pairing, THEN conjunct1])
  show "sql_inv (snd (Sql_AppendDecision env r db))" by (rule Sql_AppendDecision_cases [OF assms surjective_pairing, THEN conjunct1])
  show "sql_inv (snd (Sql_Append env t a db))" by (rule Sql_Append_safe [OF assms surjective_pairing, THEN conjunct1])
qed

theorem sqlite_invariant_witness:
  "sql_inv (snd (Sql_ClaimExecution lost_env ''d'' (sample_owner ''T'') 1 sample_db)) \<and>
   db_claims (snd (Sql_ClaimExecution lost_env ''d'' (sample_owner ''T'') 1 sample_db)) \<noteq> []"
  using sqlite_invariant [OF sample_db_inv, of lost_env "''d''" "sample_owner ''T''" 1]
  by (simp add: sql_run)

text \<open>
  C34. Whatever fails, writing an audit row never changes or removes a row on record and never
  touches decisions or claims; and if other connections only append audit rows too, a reported
  success means that exactly this row, with its time filled in if it had none, is in the table.
\<close>

theorem sqlite_audit_append_only:
  assumes "sql_inv db" "audit_sound env"
  shows "\<exists>rows. snd (Sql_Append env now r db) = db\<lparr>db_audit := db_audit db @ rows\<rparr> \<and>
    (fst (Sql_Append env now r db) = None \<longrightarrow>
       audit_complete r \<and> audit_stamped now r \<in> set (db_audit (snd (Sql_Append env now r db))))"
proof -
  obtain rows where "snd (Sql_Append env now r db) = db\<lparr>db_audit := db_audit db @ rows\<rparr>"
  proof (cases "snd (Sql_Append env now r db) = db")
    case True
    then show thesis by (intro that [of "[]"]) simp
  next
    case False
    then show thesis using Sql_Append_safe [OF assms(1) surjective_pairing, of env now r]
      by (intro that [of "[audit_stamped now r]"]) simp
  qed
  moreover have "audit_complete r \<and> audit_stamped now r \<in> set (db_audit (snd (Sql_Append env now r db)))"
    if "fst (Sql_Append env now r db) = None"
    using Sql_Append_ok [OF assms, of now r] that by (cases "Sql_Append env now r db") simp
  ultimately show ?thesis by (intro exI [of _ rows]) blast
qed

theorem sqlite_audit_append_only_witness:
  "row_at ''a'' 0 \<in> set (db_audit (snd (Sql_Append ok_env 7 (row_at ''a'' 0) sample_db)))"
proof -
  have "fst (Sql_Append ok_env 7 (row_at ''a'' 0) sample_db) = None" "audit_stamped 7 (row_at ''a'' 0) = row_at ''a'' 0"
    by (simp_all add: Sql_Append_def ok_env_def ExecContext_def insert_audit_def sample_db_eq migrate_def row_at_def
        IsZero_def zero_time_def Let_def audit_stamped_def)
  moreover have "audit_sound ok_env" by (simp add: audit_sound_def ok_env_def)
  ultimately show ?thesis using sqlite_audit_append_only [OF sample_db_inv, of ok_env 7 "row_at ''a'' 0"] by auto
qed

section \<open>The order of the audit listing\<close>

text \<open>
  The listing is ordered by the text of the time, which is not the order of insertion or of time: of a
  row written at a full second and one written later in that second, the later one comes first.
\<close>

lemma less_after_prefix: "u < v \<Longrightarrow> xs @ u < xs @ (v :: 'a :: linorder list)"
  by (induction xs) simp_all

lemma text_order_within_second:
  assumes "t mod 1000000000 = 0" "0 < f" "f < 1000000000"
  shows "formatTime (t + f) < formatTime t"
proof -
  obtain q where q: "t = q * 1000000000" using assms(1) by (auto simp: mod_eq_0_iff_dvd mult.commute)
  have "(t + f) div 1000000000 = q" "(t + f) mod 1000000000 = f" "t div 1000000000 = q" "t mod 1000000000 = 0"
    using assms(2,3) by (simp_all add: q div_pos_pos_trivial mod_pos_pos_trivial)
  moreover have "fraction f @ ''Z'' < fraction 0 @ ''Z''"
    using assms(2) by (simp add: fraction_def less_char_def)
  ultimately show ?thesis
    by (simp only: formatTime_def Let_def split_beta) (intro less_after_prefix)
qed

lemma later_row_first:
  assumes "Sql_ListByProposal env p s = Inr rows" "a \<in> set rows" "b \<in> set rows"
    and "ar_RecordedAt a mod 1000000000 = 0" "ar_RecordedAt a < ar_RecordedAt b" "ar_RecordedAt b < ar_RecordedAt a + 1000000000"
  shows "\<exists>xs ys zs. rows = xs @ b # ys @ a # zs"
proof -
  have k: "audit_sort_key b < audit_sort_key a"
    using text_order_within_second [of "ar_RecordedAt a" "ar_RecordedAt b - ar_RecordedAt a"] assms(4-6) by (simp add: audit_sort_key_def)
  have "sorted (map audit_sort_key rows)" using assms(1) by (auto simp: Sql_ListByProposal_def split: option.splits)
  moreover obtain xs ys where r: "rows = xs @ b # ys" using assms(3) by (auto simp: in_set_conv_decomp)
  ultimately have "a \<notin> set xs" using k by (auto simp: sorted_append)
  with assms(2) k r have "a \<in> set ys" by auto
  with r show ?thesis by (auto simp: in_set_conv_decomp)
qed

end
