(* ===== verification/Gateway.thy ===== *)
theory Gateway
  imports Handler Sqlite_Store
begin

text \<open>
  The gateway process as \<^verbatim>\<open>main\<close> of \<^verbatim>\<open>cmd/sentrygate/main.go\<close> wires it: the HTTP handlers over the
  SQLite store, with the Temporal client as a parameter. The property joins the two sides of the
  ingress decision: what the gateway records before it starts a workflow is exactly what the
  workflow's ingress check accepts.
\<close>

definition Sql_Ping :: "sql_env \<Rightarrow> database \<Rightarrow> go_error option" where
  "Sql_Ping env s = map_option errors_New (se_read env)"

definition gateway_api ::
  "Keyring \<Rightarrow> string \<Rightarrow> (StartWorkflowOptions \<Rightarrow> ExecutionRequest \<Rightarrow> 'w \<Rightarrow> start_result \<times> 'w) \<Rightarrow>
   (sql_env, database, 'w) apiServer" where
  "gateway_api keyring taskQueue execute =
     \<lparr>ap_keyring = keyring, ap_taskQueue = taskQueue, ap_AppendDecision = Sql_AppendDecision,
      ap_ListDecisionsByProposal = Sql_ListDecisionsByProposal, ap_ListByProposal = Sql_ListByProposal,
      ap_Ping = Sql_Ping, ap_ExecuteWorkflow = execute\<rparr>"

text \<open>A request changes the Temporal side only by a start, after an ALLOW that is on record.\<close>

lemma intercept_starts:
  assumes "intercept a jd env body ctx (s, w) = (rs, s', w')" "w' \<noteq> w"
  obtains agentID p d where "judged jd env body ctx agentID p d" "d_Verdict d = VerdictAllow"
    "ap_AppendDecision a (re_fault env) (ingress_record env agentID p d) s = (None, s')"
    "w' = snd (ap_ExecuteWorkflow a (start_options a p) (execution_request agentID p (ingress_record env agentID p d)) w)"
proof (cases rule: intercept_cases [of a jd env body ctx s w])
  case refused
  with assms show thesis by simp
next
  case (judged agentID p d e s1)
  have "d_Verdict d = VerdictAllow \<and> e = None" using judged(4) assms by (auto split: if_splits)
  with judged assms(1) that show thesis by auto
qed

lemma start_options_ID [simp]: "sw_ID (start_options a p) = ''saga-'' @ p_ID p"
  by (simp add: start_options_def)

text \<open>
  C10. A request to the gateway reaches Temporal only if the policy in force allows the
  proposal to the agent whose key was presented. It then starts the workflow of that proposal with a
  request that passes the worker's ingress check under that workflow ID, whatever decisions are
  recorded in the meantime.
\<close>

theorem gateway_binds:
  assumes "newHandler (gateway_api keyring queue execute) jd env rq (s, w) = (rs, s', w')" "w' \<noteq> w"
    and "sql_inv s" "sql_sound (re_fault env)"
  shows "\<exists>agentID p q opts. Resolve keyring (rq_apiKey rq) = Some agentID \<and>
    d_Verdict (Evaluate (sp_policy (re_proxy env)) agentID p) = VerdictAllow \<and>
    w' = snd (execute opts q w) \<and> er_AgentID q = agentID \<and> er_Proposal q = p \<and>
    (\<forall>g later. sql_quiet g \<longrightarrow>
       CheckIngress (\<lambda>i. Sql_GetDecision g i (append_all Sql_AppendDecision later s')) q (sw_ID opts) = None)"
proof -
  let ?a = "gateway_api keyring queue execute"
  have "snd (newHandler ?a jd env rq (s, w)) \<noteq> (s, w)" using assms(1,2) by simp
  from newHandler_changes [OF this] obtain agentID where k: "Resolve keyring (rq_apiKey rq) = Some agentID"
    and i: "intercept ?a jd env (rq_body rq) (Some agentID) (s, w) = (rs, s', w')"
    using assms(1) by (auto simp: gateway_api_def)
  from i assms(2) obtain ag p d where j: "judged jd env (rq_body rq) (Some agentID) ag p d" "d_Verdict d = VerdictAllow"
      "Sql_AppendDecision (re_fault env) (ingress_record env ag p d) s = (None, s')"
      "w' = snd (execute (start_options ?a p) (execution_request ag p (ingress_record env ag p d)) w)"
    by (rule intercept_starts) (auto simp: gateway_api_def)
  have ag: "ag = agentID" "d = Evaluate (sp_policy (re_proxy env)) agentID p"
    using j(1) by (simp_all add: judged_def AgentIDFromContext_def split: if_splits)
  have "CheckIngress (\<lambda>i. Sql_GetDecision g i (append_all Sql_AppendDecision later s'))
      (execution_request agentID p (ingress_record env agentID p d)) (sw_ID (start_options ?a p)) = None"
    if "sql_quiet g" for g later
    using record_store.recorded_allow_passes [OF sqlr.record_store_axioms assms(3,4) _ that j(2)] j(3) ag(1) by simp
  with k j ag show ?thesis
    by (intro exI [of _ agentID] exI [of _ p] exI [of _ "execution_request agentID p (ingress_record env agentID p d)"]
        exI [of _ "start_options ?a p"]) (simp add: execution_request_def)
qed

definition sample_gateway :: "(sql_env, database, ExecutionRequest list) apiServer" where
  "sample_gateway = gateway_api \<lparr>kr_entries = map entry_of sample_keys\<rparr> ''q'' (\<lambda>o' q w. (Started (sw_ID o') ''r1'', w @ [q]))"

lemma sample_gateway_starts:
  "snd (snd (newHandler sample_gateway sample_jd (sample_request_env ok_env) sample_rq (migrate, []))) \<noteq> []"
proof -
  let ?env = "sample_request_env ok_env" and ?d = "Evaluate (Some (document_snapshot sample_doc)) ''a'' sample_prop"
  let ?i = "intercept sample_gateway sample_jd ?env sample_body (Some ''a'') (migrate, [])"
  have nh: "newHandler sample_gateway sample_jd ?env sample_rq (migrate, []) = ?i"
    using sample_resolve
    by (simp add: newHandler_def sample_rq_def Middleware_def sample_gateway_def gateway_api_def WithAgentID_def
        protected_mux_def route_of_def)
  have v: "Validate (ingress_record ?env ''a'' sample_prop ?d) = None"
    using sample_evaluate
    by (simp add: Validate_None_iff ingress_record_def sample_request_env_def sample_prop_def IsZero_def zero_time_def)
  have ok: "fst (Sql_AppendDecision ok_env (ingress_record ?env ''a'' sample_prop ?d) migrate) = None"
    using sqlr.append_quiet [OF migrate_inv ok_env_quiet surjective_pairing, of "ingress_record ?env ''a'' sample_prop ?d"] v
    by (simp add: spec_append_def migrate_def lookup_decision_def)
  have "snd (snd ?i) \<noteq> []"
  proof (cases rule: intercept_cases [of sample_gateway sample_jd ?env sample_body "Some ''a''" migrate "[]"])
    case refused
    with sample_judged [of ok_env] show ?thesis by simp
  next
    case (judged agentID p d e s')
    with judged_unique [OF judged(1) sample_judged] sample_evaluate ok show ?thesis
      by (auto simp: sample_gateway_def gateway_api_def sample_request_env_def)
  qed
  then show ?thesis by (simp add: nh)
qed

theorem gateway_binds_witness:
  "\<exists>agentID p. Resolve \<lparr>kr_entries = map entry_of sample_keys\<rparr> (rq_apiKey sample_rq) = Some agentID \<and>
     d_Verdict (Evaluate (Some (document_snapshot sample_doc)) agentID p) = VerdictAllow"
proof -
  obtain rs s' w' where n: "newHandler sample_gateway sample_jd (sample_request_env ok_env) sample_rq (migrate, []) = (rs, s', w')"
    using prod_cases3 by blast
  then have "w' \<noteq> []" using sample_gateway_starts by simp
  from gateway_binds [OF n [unfolded sample_gateway_def] this migrate_inv]
  show ?thesis by (auto simp: sample_request_env_def sqlr.quiet_sound NewSentryProxy_def)
qed

end
