(* ===== verification/Adapter.thy ===== *)
theory Adapter
  imports Contracts
begin

text \<open>
  The infrastructure adapter: the contract of the \<^verbatim>\<open>Adapter\<close> interface of
  \<^verbatim>\<open>workflows/activities.go\<close> as a locale, and \<^verbatim>\<open>workflows/simulated.go\<close>'s
  \<^verbatim>\<open>SimulatedAdapter\<close>, its only implementation, which interprets it. \<open>ctx\<close> is the text of
  \<^verbatim>\<open>ctx.Err()\<close> when the context is done. The adapter's printed lines are not modelled.
\<close>

section \<open>SimulatedAdapter\<close>

text \<open>A missing key of the two counting maps reads as zero.\<close>

record SimulatedAdapter =
  sa_effects :: "string \<rightharpoonup> DispatchOutcome"
  sa_mutations :: "string \<Rightarrow> nat"
  sa_compensations :: "string \<Rightarrow> nat"

definition NewSimulatedAdapter :: SimulatedAdapter where
  "NewSimulatedAdapter = \<lparr>sa_effects = Map.empty, sa_mutations = (\<lambda>_. 0), sa_compensations = (\<lambda>_. 0)\<rparr>"

definition sim_apply :: "string \<Rightarrow> DispatchOutcome \<Rightarrow> SimulatedAdapter \<Rightarrow> DispatchOutcome \<times> SimulatedAdapter" where
  "sim_apply key effect s = (effect, s\<lparr>sa_effects := (sa_effects s)(key \<mapsto> effect),
     sa_mutations := (sa_mutations s)(key := sa_mutations s key + 1)\<rparr>)"

definition sim_fence :: "string \<Rightarrow> string \<Rightarrow> SimulatedAdapter \<Rightarrow> DispatchOutcome \<times> SimulatedAdapter" where
  "sim_fence key detail s =
     (let effect = \<lparr>oc_Status = OutcomeFailure, oc_PartiallyApplied = False, oc_Detail = detail\<rparr>
      in (effect, s\<lparr>sa_effects := (sa_effects s)(key \<mapsto> effect)\<rparr>))"

definition sim_success :: DispatchOutcome where
  "sim_success = \<lparr>oc_Status = OutcomeSuccess, oc_PartiallyApplied = False,
     oc_Detail = ''simulated: change applied''\<rparr>"

definition Sim_Dispatch ::
  "string option \<Rightarrow> DispatchRequest \<Rightarrow> SimulatedAdapter \<Rightarrow> DispatchOutcome \<times> SimulatedAdapter" where
  "Sim_Dispatch ctx req s =
     (let key = dq_IdempotencyKey req; target = p_TargetID (dq_Proposal req) in
      case sa_effects s key of
        Some effect \<Rightarrow> (effect, s)
      | None \<Rightarrow>
          if ctx \<noteq> None
          then sim_fence key ''simulated: not sent, context ended before dispatch; key fenced'' s
          else if target = FailingNodeID
          then sim_apply key \<lparr>oc_Status = OutcomeFailure, oc_PartiallyApplied = True,
                 oc_Detail = ''simulated: change partly applied, then rejected by target''\<rparr> s
          else if target = LostResponseNodeID
          then (UnknownOutcome ''simulated: change applied but the response was lost'',
                snd (sim_apply key sim_success s))
          else if target = UnreachableNodeID \<or> target = PartitionedNodeID
          then (UnknownOutcome ''simulated: no response from target'', s)
          else sim_apply key sim_success s)"

definition Sim_Reconcile ::
  "string option \<Rightarrow> DispatchRequest \<Rightarrow> SimulatedAdapter \<Rightarrow> DispatchOutcome \<times> SimulatedAdapter" where
  "Sim_Reconcile ctx req s =
     (if ctx \<noteq> None then (UnknownOutcome ''simulated: reconciliation cancelled'', s)
      else case sa_effects s (dq_IdempotencyKey req) of
          Some effect \<Rightarrow> (effect, s)
        | None \<Rightarrow>
            if p_TargetID (dq_Proposal req) = PartitionedNodeID
            then (UnknownOutcome ''simulated: target not reachable for status queries'', s)
            else sim_fence (dq_IdempotencyKey req)
              ''simulated: target has no record of this key; key fenced so it cannot take effect later'' s)"

definition Sim_Compensate ::
  "string option \<Rightarrow> DispatchRequest \<Rightarrow> SimulatedAdapter \<Rightarrow> go_error option \<times> SimulatedAdapter" where
  "Sim_Compensate ctx req s = (case ctx of
       Some e \<Rightarrow> (Some (errors_New e), s)
     | None \<Rightarrow> (None, s\<lparr>sa_compensations := (sa_compensations s)
         (dq_IdempotencyKey req := sa_compensations s (dq_IdempotencyKey req) + 1)\<rparr>))"

definition Mutations :: "SimulatedAdapter \<Rightarrow> string \<Rightarrow> nat" where
  "Mutations s key = sa_mutations s key"

definition Compensations :: "SimulatedAdapter \<Rightarrow> string \<Rightarrow> nat" where
  "Compensations s key = sa_compensations s key"

section \<open>Sequences of adapter calls\<close>

datatype 'c adapter_op =
    OpDispatch 'c DispatchRequest
  | OpReconcile 'c DispatchRequest
  | OpCompensate 'c DispatchRequest

fun run_adapter ::
  "('c \<Rightarrow> DispatchRequest \<Rightarrow> 's \<Rightarrow> DispatchOutcome \<times> 's) \<Rightarrow>
   ('c \<Rightarrow> DispatchRequest \<Rightarrow> 's \<Rightarrow> DispatchOutcome \<times> 's) \<Rightarrow>
   ('c \<Rightarrow> DispatchRequest \<Rightarrow> 's \<Rightarrow> go_error option \<times> 's) \<Rightarrow> 'c adapter_op list \<Rightarrow> 's \<Rightarrow> 's" where
  "run_adapter dis rcn cmp [] s = s"
| "run_adapter dis rcn cmp (OpDispatch c q # ops) s = run_adapter dis rcn cmp ops (snd (dis c q s))"
| "run_adapter dis rcn cmp (OpReconcile c q # ops) s = run_adapter dis rcn cmp ops (snd (rcn c q s))"
| "run_adapter dis rcn cmp (OpCompensate c q # ops) s = run_adapter dis rcn cmp ops (snd (cmp c q s))"

section \<open>The contract\<close>

text \<open>
  \<open>applied\<close> counts how often a key took effect on the target, and \<open>closed\<close> holds of a key that
  can no longer take effect. \<open>truthful\<close> is what a confirmed outcome must mean.
\<close>

definition truthful :: "DispatchOutcome \<Rightarrow> nat \<Rightarrow> bool \<Rightarrow> bool" where
  "truthful o' n cl \<longleftrightarrow> (case oc_Status o' of
       OutcomeSuccess \<Rightarrow> n = 1
     | OutcomeFailure \<Rightarrow> if oc_PartiallyApplied o' then n = 1 else n = 0 \<and> cl
     | _ \<Rightarrow> True)"

locale adapter_contract =
  fixes dispatch :: "'c \<Rightarrow> DispatchRequest \<Rightarrow> 's \<Rightarrow> DispatchOutcome \<times> 's"
    and reconcile :: "'c \<Rightarrow> DispatchRequest \<Rightarrow> 's \<Rightarrow> DispatchOutcome \<times> 's"
    and compensate :: "'c \<Rightarrow> DispatchRequest \<Rightarrow> 's \<Rightarrow> go_error option \<times> 's"
    and applied :: "'s \<Rightarrow> string \<Rightarrow> nat"
    and closed :: "'s \<Rightarrow> string \<Rightarrow> bool"
    and invar :: "'s \<Rightarrow> bool"
  assumes once: "invar s \<Longrightarrow> applied s k \<le> 1"
    and applied_closed: "invar s \<Longrightarrow> applied s k \<noteq> 0 \<Longrightarrow> closed s k"
    and dispatch_invar: "invar s \<Longrightarrow> dispatch c q s = (o', s') \<Longrightarrow> invar s'"
    and dispatch_other: "invar s \<Longrightarrow> dispatch c q s = (o', s') \<Longrightarrow> k \<noteq> dq_IdempotencyKey q \<Longrightarrow>
      applied s' k = applied s k \<and> closed s' k = closed s k"
    and dispatch_closed: "invar s \<Longrightarrow> dispatch c q s = (o', s') \<Longrightarrow> closed s (dq_IdempotencyKey q) \<Longrightarrow>
      applied s' (dq_IdempotencyKey q) = applied s (dq_IdempotencyKey q) \<and> closed s' (dq_IdempotencyKey q)"
    and dispatch_truthful: "invar s \<Longrightarrow> dispatch c q s = (o', s') \<Longrightarrow>
      truthful o' (applied s' (dq_IdempotencyKey q)) (closed s' (dq_IdempotencyKey q))"
    and reconcile_invar: "invar s \<Longrightarrow> reconcile c q s = (o', s') \<Longrightarrow>
      invar s' \<and> applied s' = applied s \<and> (\<forall>k. closed s k \<longrightarrow> closed s' k)"
    and reconcile_truthful: "invar s \<Longrightarrow> reconcile c q s = (o', s') \<Longrightarrow>
      truthful o' (applied s' (dq_IdempotencyKey q)) (closed s' (dq_IdempotencyKey q))"
    and compensate_invar: "invar s \<Longrightarrow> compensate c q s = (e, s') \<Longrightarrow>
      invar s' \<and> applied s' = applied s \<and> closed s' = closed s"
begin

lemma closed_step:
  assumes "invar s" "closed s k"
  shows "invar (run_adapter dispatch reconcile compensate [op] s)"
    "applied (run_adapter dispatch reconcile compensate [op] s) k = applied s k"
    "closed (run_adapter dispatch reconcile compensate [op] s) k"
proof (atomize (full), cases op)
  case (OpDispatch c q)
  obtain o' s' where d: "dispatch c q s = (o', s')" by fastforce
  show "invar (run_adapter dispatch reconcile compensate [op] s) \<and>
      applied (run_adapter dispatch reconcile compensate [op] s) k = applied s k \<and>
      closed (run_adapter dispatch reconcile compensate [op] s) k"
    using dispatch_invar [OF assms(1) d] dispatch_other [OF assms(1) d, of k] dispatch_closed [OF assms(1) d] assms
    by (cases "k = dq_IdempotencyKey q") (auto simp: OpDispatch d)
next
  case (OpReconcile c q)
  then show "invar (run_adapter dispatch reconcile compensate [op] s) \<and>
      applied (run_adapter dispatch reconcile compensate [op] s) k = applied s k \<and>
      closed (run_adapter dispatch reconcile compensate [op] s) k"
    using reconcile_invar [OF assms(1), of c q] assms by (cases "reconcile c q s") auto
next
  case (OpCompensate c q)
  then show "invar (run_adapter dispatch reconcile compensate [op] s) \<and>
      applied (run_adapter dispatch reconcile compensate [op] s) k = applied s k \<and>
      closed (run_adapter dispatch reconcile compensate [op] s) k"
    using compensate_invar [OF assms(1), of c q] assms by (cases "compensate c q s") auto
qed

lemma run_step: "run_adapter dispatch reconcile compensate (op # ops) s =
    run_adapter dispatch reconcile compensate ops (run_adapter dispatch reconcile compensate [op] s)"
  by (cases op) simp_all

lemma run_invar: "invar s \<Longrightarrow> invar (run_adapter dispatch reconcile compensate ops s)"
proof (induction ops arbitrary: s)
  case (Cons op ops)
  have "invar (run_adapter dispatch reconcile compensate [op] s)"
  proof (cases op)
    case (OpDispatch c q)
    then show ?thesis using dispatch_invar [OF Cons.prems, of c q] by (cases "dispatch c q s") auto
  next
    case (OpReconcile c q)
    then show ?thesis using reconcile_invar [OF Cons.prems, of c q] by (cases "reconcile c q s") auto
  next
    case (OpCompensate c q)
    then show ?thesis using compensate_invar [OF Cons.prems, of c q] by (cases "compensate c q s") auto
  qed
  then show ?case by (simp only: run_step [of op ops] Cons.IH)
qed simp

lemma at_most_once: "invar s \<Longrightarrow> applied (run_adapter dispatch reconcile compensate ops s) k \<le> 1"
  using run_invar once by blast

text \<open>Once a key is closed, no later call changes whether it took effect.\<close>

lemma closed_for_ever:
  "invar s \<Longrightarrow> closed s k \<Longrightarrow>
     applied (run_adapter dispatch reconcile compensate ops s) k = applied s k \<and>
     closed (run_adapter dispatch reconcile compensate ops s) k"
proof (induction ops arbitrary: s)
  case (Cons op ops)
  then show ?case using closed_step [OF Cons.prems, of op] by (simp only: run_step [of op ops])
qed simp

lemma confirmed_for_ever:
  assumes "invar s" "reconcile c q s = (o', s')" "oc_Status o' \<in> {OutcomeSuccess, OutcomeFailure}"
  shows "applied (run_adapter dispatch reconcile compensate ops s') (dq_IdempotencyKey q) =
    (if oc_Status o' = OutcomeSuccess \<or> oc_PartiallyApplied o' then 1 else 0)"
proof -
  have t: "truthful o' (applied s' (dq_IdempotencyKey q)) (closed s' (dq_IdempotencyKey q))"
    by (rule reconcile_truthful [OF assms(1,2)])
  have i: "invar s'" using reconcile_invar [OF assms(1,2)] by simp
  have "closed s' (dq_IdempotencyKey q)"
    using t assms(3) applied_closed [OF i, of "dq_IdempotencyKey q"]
    by (auto simp: truthful_def split: if_splits)
  with closed_for_ever [OF i, of "dq_IdempotencyKey q" ops] t assms(3) show ?thesis
    by (auto simp: truthful_def split: if_splits)
qed

end

section \<open>The simulated adapter meets the contract\<close>

text \<open>The count of a key is what its recorded effect says.\<close>

definition sim_ok :: "DispatchOutcome option \<Rightarrow> nat \<Rightarrow> bool" where
  "sim_ok eff n = (case eff of
       None \<Rightarrow> n = 0
     | Some e \<Rightarrow> oc_Status e \<in> {OutcomeSuccess, OutcomeFailure} \<and>
         n = (if oc_Status e = OutcomeSuccess \<or> oc_PartiallyApplied e then 1 else 0))"

definition sim_inv :: "SimulatedAdapter \<Rightarrow> bool" where
  "sim_inv s \<longleftrightarrow> (\<forall>k. sim_ok (sa_effects s k) (sa_mutations s k))"

definition sim_closed :: "SimulatedAdapter \<Rightarrow> string \<Rightarrow> bool" where
  "sim_closed s k \<longleftrightarrow> sa_effects s k \<noteq> None"

lemma NewSimulatedAdapter_inv [simp]: "sim_inv NewSimulatedAdapter"
  by (simp add: sim_inv_def sim_ok_def NewSimulatedAdapter_def)

lemma sim_invD:
  assumes "sim_inv s"
  shows "sa_effects s k = None \<Longrightarrow> sa_mutations s k = 0"
    and "sa_effects s k = Some e \<Longrightarrow> oc_Status e \<in> {OutcomeSuccess, OutcomeFailure} \<and>
      sa_mutations s k = (if oc_Status e = OutcomeSuccess \<or> oc_PartiallyApplied e then 1 else 0)"
  using assms [unfolded sim_inv_def, rule_format, of k] by (auto simp: sim_ok_def)

lemmas sim_defs = sim_apply_def sim_fence_def sim_success_def Mutations_def sim_closed_def Let_def

text \<open>A key that was open is closed with effect \<open>e\<close>.\<close>

definition effect_count :: "DispatchOutcome \<Rightarrow> nat" where
  "effect_count e = (if oc_Status e = OutcomeSuccess \<or> oc_PartiallyApplied e then 1 else 0)"

definition sim_put :: "string \<Rightarrow> DispatchOutcome \<Rightarrow> SimulatedAdapter \<Rightarrow> SimulatedAdapter" where
  "sim_put k e s = s\<lparr>sa_effects := (sa_effects s)(k \<mapsto> e), sa_mutations := (sa_mutations s)(k := effect_count e)\<rparr>"

lemma sim_put_inv:
  "sim_inv s \<Longrightarrow> oc_Status e \<in> {OutcomeSuccess, OutcomeFailure} \<Longrightarrow> sim_inv (sim_put k e s)"
  by (simp add: sim_inv_def sim_put_def) (auto simp: sim_ok_def effect_count_def)

lemma sim_put_simps [simp]:
  "Mutations (sim_put k e s) k' = (if k' = k then effect_count e else Mutations s k')"
  "sim_closed (sim_put k e s) k' = (k' = k \<or> sim_closed s k')"
  "sa_effects (sim_put k e s) k' = (if k' = k then Some e else sa_effects s k')"
  by (simp_all add: sim_put_def Mutations_def sim_closed_def)

lemma sim_apply_put:
  assumes "sim_inv s" "sa_effects s k = None" "effect_count e = 1"
  shows "sim_apply k e s = (e, sim_put k e s)"
  using sim_invD(1) [OF assms(1,2)] assms(3) by (simp add: sim_apply_def sim_put_def)

lemma sim_fence_put:
  assumes "sim_inv s" "sa_effects s k = None"
  shows "sim_fence k d s = (\<lparr>oc_Status = OutcomeFailure, oc_PartiallyApplied = False, oc_Detail = d\<rparr>,
    sim_put k \<lparr>oc_Status = OutcomeFailure, oc_PartiallyApplied = False, oc_Detail = d\<rparr> s)"
  using sim_invD(1) [OF assms] by (cases s) (simp add: sim_fence_def sim_put_def effect_count_def fun_upd_idem Let_def)

lemma sim_success_simps [simp]:
  "oc_Status sim_success = OutcomeSuccess" "effect_count sim_success = 1"
  by (simp_all add: sim_success_def effect_count_def)

text \<open>A call answers from the record, or learns nothing, or closes the key.\<close>

lemma Sim_Dispatch_cases:
  assumes inv: "sim_inv s" and d: "Sim_Dispatch ctx q s = (o', s')"
  obtains (recorded) "s' = s" "sa_effects s (dq_IdempotencyKey q) = Some o'"
    | (nothing) "s' = s" "oc_Status o' = OutcomeUnknown"
    | (put) e where "s' = sim_put (dq_IdempotencyKey q) e s" "sa_effects s (dq_IdempotencyKey q) = None"
        "oc_Status e \<in> {OutcomeSuccess, OutcomeFailure}" "o' = e \<or> oc_Status o' = OutcomeUnknown"
proof (cases "sa_effects s (dq_IdempotencyKey q)")
  case None
  note puts = sim_apply_put [OF inv None] sim_fence_put [OF inv None]
  show thesis
    using d None puts
    by (auto simp: Sim_Dispatch_def Let_def effect_count_def split: if_splits intro: put)
      (rule nothing; simp)+
next
  case (Some e)
  with d show thesis by (intro recorded) (simp_all add: Sim_Dispatch_def Let_def)
qed

lemma Sim_Reconcile_cases:
  assumes inv: "sim_inv s" and d: "Sim_Reconcile ctx q s = (o', s')"
  obtains (recorded) "s' = s" "sa_effects s (dq_IdempotencyKey q) = Some o'"
    | (nothing) "s' = s" "oc_Status o' = OutcomeUnknown"
    | (put) "s' = sim_put (dq_IdempotencyKey q) o' s" "sa_effects s (dq_IdempotencyKey q) = None"
        "oc_Status o' = OutcomeFailure" "\<not> oc_PartiallyApplied o'"
proof (cases "sa_effects s (dq_IdempotencyKey q)")
  case None
  show thesis
    using d None sim_fence_put [OF inv None]
    by (auto simp: Sim_Reconcile_def split: if_splits intro: put) (rule nothing; simp)+
next
  case (Some e)
  show thesis
  proof (cases ctx)
    case None
    with d Some show thesis by (intro recorded) (simp_all add: Sim_Reconcile_def)
  next
    case (Some err)
    with d have "s' = s" "oc_Status o' = OutcomeUnknown" by (auto simp: Sim_Reconcile_def)
    then show thesis by (rule nothing)
  qed
qed

lemma sim_known_truthful:
  assumes "sim_inv s" "sa_effects s k = Some e"
  shows "truthful e (Mutations s k) (sim_closed s k)"
  using sim_invD(2) [OF assms] assms(2) by (auto simp: truthful_def sim_defs)

lemma unknown_truthful: "oc_Status e = OutcomeUnknown \<Longrightarrow> truthful e n cl"
  by (simp add: truthful_def)

lemma put_truthful:
  "oc_Status e \<in> {OutcomeSuccess, OutcomeFailure} \<Longrightarrow> truthful e (effect_count e) True"
  by (auto simp: truthful_def effect_count_def)

interpretation sim: adapter_contract Sim_Dispatch Sim_Reconcile Sim_Compensate Mutations sim_closed sim_inv
proof unfold_locales
  fix s k
  assume inv: "sim_inv s"
  show "Mutations s k \<le> 1" "Mutations s k \<noteq> 0 \<Longrightarrow> sim_closed s k"
    using sim_invD [OF inv, of k] by (cases "sa_effects s k"; auto simp: sim_defs)+
next
  fix s c q o' s'
  assume inv: "sim_inv s" and d: "Sim_Dispatch c q s = (o', s')"
  show inv': "sim_inv s'"
    using inv d by (cases rule: Sim_Dispatch_cases) (simp_all add: inv sim_put_inv)
  show "k \<noteq> dq_IdempotencyKey q \<Longrightarrow> Mutations s' k = Mutations s k \<and> sim_closed s' k = sim_closed s k" for k
    using inv d by (cases rule: Sim_Dispatch_cases) simp_all
  show "sim_closed s (dq_IdempotencyKey q) \<Longrightarrow>
      Mutations s' (dq_IdempotencyKey q) = Mutations s (dq_IdempotencyKey q) \<and> sim_closed s' (dq_IdempotencyKey q)"
    using inv d by (cases rule: Sim_Dispatch_cases) (simp_all add: sim_closed_def)
  show "truthful o' (Mutations s' (dq_IdempotencyKey q)) (sim_closed s' (dq_IdempotencyKey q))"
    using inv d by (cases rule: Sim_Dispatch_cases)
      (auto simp: sim_known_truthful [OF inv] unknown_truthful put_truthful)
next
  fix s c q o' s'
  assume inv: "sim_inv s" and d: "Sim_Reconcile c q s = (o', s')"
  show "sim_inv s' \<and> Mutations s' = Mutations s \<and> (\<forall>k. sim_closed s k \<longrightarrow> sim_closed s' k)"
    using inv d by (cases rule: Sim_Reconcile_cases)
      (auto simp: inv sim_put_inv effect_count_def fun_eq_iff sim_invD(1) [OF inv] Mutations_def [of s])
  show "truthful o' (Mutations s' (dq_IdempotencyKey q)) (sim_closed s' (dq_IdempotencyKey q))"
    using inv d by (cases rule: Sim_Reconcile_cases)
      (auto simp: sim_known_truthful [OF inv] unknown_truthful put_truthful)
next
  fix s c q e s'
  assume inv: "sim_inv s" and d: "Sim_Compensate c q s = (e, s')"
  show "sim_inv s' \<and> Mutations s' = Mutations s \<and> sim_closed s' = sim_closed s"
    using d inv by (auto simp: Sim_Compensate_def sim_inv_def sim_closed_def Mutations_def fun_eq_iff
        split: option.splits)
qed

section \<open>Properties\<close>

text \<open>
  C13. However dispatches, reconciliations and compensations follow each other, cancelled or
  not, no idempotency key takes effect on the target more than once.
\<close>

theorem adapter_at_most_once:
  "Mutations (run_adapter Sim_Dispatch Sim_Reconcile Sim_Compensate ops NewSimulatedAdapter) key \<le> 1"
  by (rule sim.at_most_once) simp

text \<open>
  C12. An outcome confirmed by reconciliation is true and stays true: after SUCCESS or a partly
  applied FAILURE the key has taken effect exactly once, after any other FAILURE it has not and
  never will, whatever is called later.
\<close>

theorem adapter_confirmed:
  assumes "oc_Status (fst (Sim_Reconcile ctx q (run_adapter Sim_Dispatch Sim_Reconcile Sim_Compensate before NewSimulatedAdapter)))
    \<in> {OutcomeSuccess, OutcomeFailure}"
  shows "Mutations (run_adapter Sim_Dispatch Sim_Reconcile Sim_Compensate later
      (snd (Sim_Reconcile ctx q (run_adapter Sim_Dispatch Sim_Reconcile Sim_Compensate before NewSimulatedAdapter)))) (dq_IdempotencyKey q) =
    effect_count (fst (Sim_Reconcile ctx q (run_adapter Sim_Dispatch Sim_Reconcile Sim_Compensate before NewSimulatedAdapter)))"
  using sim.confirmed_for_ever [OF sim.run_invar [OF NewSimulatedAdapter_inv] surjective_pairing assms]
  by (simp add: effect_count_def)

definition sample_dispatch_request :: "string \<Rightarrow> DispatchRequest" where
  "sample_dispatch_request target = \<lparr>dq_IdempotencyKey = ''k'',
     dq_Proposal = \<lparr>p_ID = ''p'', p_Type = ''C'', p_TargetID = target, p_Payload = ''''\<rparr>\<rparr>"

text \<open>The target that applies the change but loses the response.\<close>

theorem adapter_confirmed_witness:
  "Mutations (run_adapter Sim_Dispatch Sim_Reconcile Sim_Compensate [OpDispatch None (sample_dispatch_request LostResponseNodeID)]
     (snd (Sim_Reconcile None (sample_dispatch_request LostResponseNodeID)
       (run_adapter Sim_Dispatch Sim_Reconcile Sim_Compensate [OpDispatch None (sample_dispatch_request LostResponseNodeID)]
          NewSimulatedAdapter)))) ''k'' = 1"
proof -
  let ?q = "sample_dispatch_request LostResponseNodeID"
  have "fst (Sim_Reconcile None ?q
      (run_adapter Sim_Dispatch Sim_Reconcile Sim_Compensate [OpDispatch None ?q] NewSimulatedAdapter)) = sim_success"
    by (simp add: Sim_Reconcile_def Sim_Dispatch_def sample_dispatch_request_def NewSimulatedAdapter_def sim_apply_def
        FailingNodeID_def LostResponseNodeID_def Let_def)
  then show ?thesis
    using adapter_confirmed [of None ?q "[OpDispatch None ?q]" "[OpDispatch None ?q]"]
    by (simp only: sim_success_simps) (simp add: sample_dispatch_request_def)
qed

end
