(* ===== verification/Audit_Trail.thy ===== *)
theory Audit_Trail
  imports Contracts
begin

text \<open>
  \<^verbatim>\<open>workflows/audit.go\<close>: the in-memory audit table, the construction of an audit row from
  workflow identity, and the uniqueness of the row IDs one run produces. \<open>ctx\<close> is the text of
  \<^verbatim>\<open>ctx.Err()\<close> when the context is done, \<open>now\<close> the clock.
\<close>

section \<open>MemoryAuditStore\<close>

record MemoryAuditStore =
  ma_records :: "AuditRecord list"
  ma_byProp :: "string \<rightharpoonup> nat list"

definition NewMemoryAuditStore :: MemoryAuditStore where
  "NewMemoryAuditStore = \<lparr>ma_records = [], ma_byProp = Map.empty\<rparr>"

text \<open>Reading a missing key of the index yields the nil slice.\<close>

definition index_of :: "MemoryAuditStore \<Rightarrow> string \<Rightarrow> nat list" where
  "index_of s p = (case ma_byProp s p of None \<Rightarrow> [] | Some is \<Rightarrow> is)"

definition MemAudit_Append ::
  "string option \<Rightarrow> time \<Rightarrow> AuditRecord \<Rightarrow> MemoryAuditStore \<Rightarrow> go_error option \<times> MemoryAuditStore" where
  "MemAudit_Append ctx now r0 s = (case ctx of
       Some e \<Rightarrow> (Some (errors_New e), s)
     | None \<Rightarrow>
         if ar_RecordID r0 = '''' \<or> ar_ProposalID r0 = '''' \<or> AuditPhase_str (ar_Phase r0) = ''''
         then (Some audit_persist_failed, s)
         else
           let r = (if IsZero (ar_RecordedAt r0) then r0\<lparr>ar_RecordedAt := now\<rparr> else r0);
               idx = length (ma_records s)
           in (None, s\<lparr>ma_records := ma_records s @ [r],
                       ma_byProp := (ma_byProp s)(ar_ProposalID r \<mapsto> index_of s (ar_ProposalID r) @ [idx])\<rparr>))"

definition MemAudit_ListByProposal :: "string option \<Rightarrow> string \<Rightarrow> MemoryAuditStore \<Rightarrow> go_error + AuditRecord list" where
  "MemAudit_ListByProposal ctx p s = (case ctx of
       Some e \<Rightarrow> Inl (errors_New e)
     | None \<Rightarrow> Inr (map (\<lambda>i. ma_records s ! i) (index_of s p)))"

definition MemAudit_All :: "MemoryAuditStore \<Rightarrow> AuditRecord list" where
  "MemAudit_All s = ma_records s"

section \<open>newAuditRecord\<close>

definition newAuditRecord ::
  "string \<Rightarrow> string \<Rightarrow> string \<Rightarrow> AuditPhase \<Rightarrow> AuditVerdict \<Rightarrow> AgentProposal \<Rightarrow> string \<Rightarrow> time \<Rightarrow> nat \<Rightarrow> AuditRecord" where
  "newAuditRecord proposalID workflowID runID phase verdict prop detail recordedAt seq =
     \<lparr>ar_RecordID = proposalID @ ''-'' @ runID @ ''-'' @ AuditPhase_str phase @ ''-'' @ fmt_d seq,
      ar_ProposalID = proposalID, ar_WorkflowID = workflowID, ar_RunID = runID,
      ar_Phase = phase, ar_Verdict = verdict, ar_TargetID = p_TargetID prop,
      ar_Command = p_Type prop, ar_Detail = detail, ar_RecordedAt = recordedAt\<rparr>"

section \<open>Invariant and listing\<close>

text \<open>The index of a proposal lists the positions of its rows in write order.\<close>

definition positions :: "('a \<Rightarrow> bool) \<Rightarrow> 'a list \<Rightarrow> nat list" where
  "positions P xs = filter (\<lambda>i. P (xs ! i)) [0..<length xs]"

definition maudit_inv :: "MemoryAuditStore \<Rightarrow> bool" where
  "maudit_inv s \<longleftrightarrow> (\<forall>p. index_of s p = positions (\<lambda>r. ar_ProposalID r = p) (ma_records s))"

lemma positions_snoc:
  "positions P (xs @ [x]) = positions P xs @ (if P x then [length xs] else [])"
proof -
  have "filter (\<lambda>i. P ((xs @ [x]) ! i)) [0..<length xs] = filter (\<lambda>i. P (xs ! i)) [0..<length xs]"
    by (rule filter_cong) (simp_all add: nth_append)
  then show ?thesis by (simp add: positions_def)
qed

lemma map_positions: "map (\<lambda>i. xs ! i) (positions P xs) = filter P xs"
proof (induction xs rule: rev_induct)
  case (snoc x xs)
  have "map (\<lambda>i. (xs @ [x]) ! i) (positions P xs) = map (\<lambda>i. xs ! i) (positions P xs)"
    by (auto simp: positions_def nth_append)
  with snoc show ?case by (simp add: positions_snoc)
qed (simp add: positions_def)

lemma NewMemoryAuditStore_inv [simp]: "maudit_inv NewMemoryAuditStore"
  by (simp add: maudit_inv_def NewMemoryAuditStore_def index_of_def positions_def)

lemma index_of_put [simp]:
  "index_of (s\<lparr>ma_records := rs, ma_byProp := (ma_byProp s)(p \<mapsto> is)\<rparr>) q = (if q = p then is else index_of s q)"
  by (simp add: index_of_def)

lemma MemAudit_Append_inv:
  assumes "maudit_inv s" "MemAudit_Append ctx now r s = (e, s')"
  shows "maudit_inv s'"
  using assms
  by (auto simp: MemAudit_Append_def maudit_inv_def positions_snoc Let_def split: option.splits if_splits)

lemma MemAudit_list:
  "maudit_inv s \<Longrightarrow> MemAudit_ListByProposal None p s = Inr (filter (\<lambda>r. ar_ProposalID r = p) (ma_records s))"
  by (simp add: MemAudit_ListByProposal_def maudit_inv_def map_positions)

text \<open>Append-only: a call adds its row at the end or nothing.\<close>

lemma MemAudit_Append_records:
  assumes "MemAudit_Append ctx now r s = (e, s')"
  shows "(case e of
      None \<Rightarrow> ma_records s' = ma_records s @ [if IsZero (ar_RecordedAt r) then r\<lparr>ar_RecordedAt := now\<rparr> else r]
    | Some _ \<Rightarrow> s' = s)"
  using assms by (auto simp: MemAudit_Append_def Let_def split: option.splits if_splits)

section \<open>Row IDs\<close>


text \<open>Digits carry no dash, so the sequence number can be read off the ID.\<close>

lemma fmt_d_digits: "c \<in> set (fmt_d n) \<Longrightarrow> \<exists>k<10. c = char_of (48 + k :: nat)"
proof (induction n rule: fmt_d.induct)
  case (1 n)
  show ?case
  proof (cases "n < 10")
    case True
    then show ?thesis using "1.prems" by (auto simp: fmt_d.simps [of n])
  next
    case False
    then have "c \<in> set (fmt_d (n div 10)) \<or> c = char_of (48 + n mod 10)"
      using "1.prems" by (auto simp: fmt_d.simps [of n])
    then show ?thesis using "1.IH" [OF False] by (auto intro: exI [of _ "n mod 10"])
  qed
qed

lemma fmt_d_no_dash: "CHR ''-'' \<notin> set (fmt_d n)"
proof
  assume "CHR ''-'' \<in> set (fmt_d n)"
  then obtain k where "k < 10" "CHR ''-'' = char_of (48 + k :: nat)" using fmt_d_digits by blast
  then have "(of_char CHR ''-'' :: nat) = of_char (char_of (48 + k :: nat) :: char)" by simp
  with \<open>k < 10\<close> show False by simp
qed

lemma last_field_inj:
  assumes "a @ x # b = c @ x # d" "x \<notin> set b" "x \<notin> set d"
  shows "a = c \<and> b = d"
proof -
  have "takeWhile (\<lambda>y. y \<noteq> x) (rev (a @ x # b)) = rev b" "takeWhile (\<lambda>y. y \<noteq> x) (rev (c @ x # d)) = rev d"
    using assms(2,3) by (simp_all add: takeWhile_append)
  then have "b = d" using assms(1) by simp
  with assms(1) show ?thesis by simp
qed

text \<open>Two rows of one workflow history with different sequence numbers have different IDs.\<close>

lemma newAuditRecord_seq:
  assumes "ar_RecordID (newAuditRecord p w r ph v pr d t n) = ar_RecordID (newAuditRecord p' w' r' ph' v' pr' d' t' n')"
  shows "n = n'"
proof -
  have "(p @ ''-'' @ r @ ''-'' @ AuditPhase_str ph) @ CHR ''-'' # fmt_d n =
      (p' @ ''-'' @ r' @ ''-'' @ AuditPhase_str ph') @ CHR ''-'' # fmt_d n'"
    using assms by (simp add: newAuditRecord_def)
  from last_field_inj [OF this fmt_d_no_dash fmt_d_no_dash] have "fmt_d n = fmt_d n'" ..
  then show ?thesis by (rule fmt_d_inj)
qed

end
