(* ===== verification/Activities.thy ===== *)
theory Activities
  imports Decision Claim_Store Record_Store Adapter Audit_Trail
begin

text \<open>
  The Temporal activities of the worker: \<^verbatim>\<open>workflows/decisions.go\<close>, \<^verbatim>\<open>activities.go\<close> and the
  audit activity of \<^verbatim>\<open>audit.go\<close>. An interface value of the source (\<^verbatim>\<open>decision.Store\<close>,
  \<^verbatim>\<open>decision.ClaimStore\<close>, \<^verbatim>\<open>Adapter\<close>) is a record of its methods, \<open>None\<close> when it is nil.

  \<open>activity_ctx\<close> is the context of one activity attempt: the workflow execution that
  \<^verbatim>\<open>activity.GetInfo\<close> reports, whether the context is done, what goes wrong in its first and
  second store call, what other processes do to the store in between, the context the adapter
  sees, and the clock.
\<close>

section \<open>Interfaces and context\<close>

record ('f, 's) ClaimStore =
  cs_ClaimExecution :: "'f \<Rightarrow> string \<Rightarrow> ClaimOwner \<Rightarrow> time \<Rightarrow> 's \<Rightarrow> go_error option \<times> 's"
  cs_AdvanceClaim :: "'f \<Rightarrow> string \<Rightarrow> ClaimOwner \<Rightarrow> ClaimState \<Rightarrow> time \<Rightarrow> 's \<Rightarrow> go_error option \<times> 's"
  cs_GetClaim :: "'f \<Rightarrow> string \<Rightarrow> 's \<Rightarrow> go_error + ExecutionClaim"

record ('f, 's) Store =
  st_AppendDecision :: "'f \<Rightarrow> DecisionRecord \<Rightarrow> 's \<Rightarrow> go_error option \<times> 's"
  st_GetDecision :: "'f \<Rightarrow> string \<Rightarrow> 's \<Rightarrow> go_error + DecisionRecord"

record ('c, 'a) Adapter_iface =
  ad_Dispatch :: "'c \<Rightarrow> DispatchRequest \<Rightarrow> 'a \<Rightarrow> DispatchOutcome \<times> 'a"
  ad_Reconcile :: "'c \<Rightarrow> DispatchRequest \<Rightarrow> 'a \<Rightarrow> DispatchOutcome \<times> 'a"
  ad_Compensate :: "'c \<Rightarrow> DispatchRequest \<Rightarrow> 'a \<Rightarrow> go_error option \<times> 'a"

record ('f, 's, 'c) activity_ctx =
  ax_WorkflowID :: string
  ax_RunID :: string
  ax_Err :: "string option"
  ax_Store :: 'f
  ax_Read :: 'f
  ax_Mid :: "'s \<Rightarrow> 's"
  ax_Adapter :: 'c
  ax_Now :: time

section \<open>Decision activities (decisions.go)\<close>

text \<open>\<open>snap\<close> is \<^verbatim>\<open>a.Policy.Current()\<close>, \<open>None\<close> when no policy source is configured or it has none.\<close>

definition EvaluateExecution ::
  "Snapshot option \<Rightarrow> ('f, 's, 'c) activity_ctx \<Rightarrow> ExecutionRequest \<Rightarrow> go_error + Decision" where
  "EvaluateExecution snap ctx req = (case ax_Err ctx of
       Some e \<Rightarrow> Inl (errors_New e)
     | None \<Rightarrow> Inr (Revalidate snap req))"

definition VerifyIngressDecision ::
  "('f, 's) Store option \<Rightarrow> ('f, 's, 'c) activity_ctx \<Rightarrow> ExecutionRequest \<Rightarrow> 's \<Rightarrow> go_error + IngressVerification" where
  "VerifyIngressDecision store ctx req s = (case store of
       None \<Rightarrow> Inl (errors_New ''decision store not configured'')
     | Some st \<Rightarrow>
         (case CheckIngress (\<lambda>d. st_GetDecision st (ax_Store ctx) d s) req (ax_WorkflowID ctx) of
            None \<Rightarrow> Inr \<lparr>iv_Valid = True, iv_Reason = Reason_other '''', iv_Detail = ''''\<rparr>
          | Some e \<Rightarrow> (case IngressReason e of
              Some reason \<Rightarrow> Inr \<lparr>iv_Valid = False, iv_Reason = reason, iv_Detail = err_text e\<rparr>
            | None \<Rightarrow> Inl e)))"

definition claimOwner :: "('f, 's, 'c) activity_ctx \<Rightarrow> string \<Rightarrow> ClaimOwner" where
  "claimOwner ctx token = \<lparr>o_WorkflowID = ax_WorkflowID ctx, o_RunID = ax_RunID ctx, o_Token = token\<rparr>"

definition ClaimExecution ::
  "('f, 's) ClaimStore option \<Rightarrow> ('f, 's, 'c) activity_ctx \<Rightarrow> ClaimRequest \<Rightarrow> 's \<Rightarrow> (go_error + ClaimResult) \<times> 's" where
  "ClaimExecution claims ctx req s = (case claims of
       None \<Rightarrow> (Inl (errors_New ''execution claim store not configured''), s)
     | Some cs \<Rightarrow>
         if cr_DecisionID req = '''' \<or> cr_Token req = ''''
         then (Inl (app_error ''claim request is missing the decision ID or token''
                 ExecutionClaimRejectedErrorType None), s)
         else (case cs_ClaimExecution cs (ax_Store ctx) (cr_DecisionID req)
                     (claimOwner ctx (cr_Token req)) (ax_Now ctx) s of
             (None, s') \<Rightarrow> (Inr \<lparr>cl_Claimed = True, cl_Reason = Reason_other '''', cl_Detail = ''''\<rparr>, s')
           | (Some e, s') \<Rightarrow>
               if err_is e = ErrClaimHeld
               then (Inr \<lparr>cl_Claimed = False, cl_Reason = ReasonIngressDecisionAlreadyClaimed,
                          cl_Detail = err_text e\<rparr>, s')
               else (Inl e, s')))"

definition AdvanceExecutionClaim ::
  "('f, 's) ClaimStore option \<Rightarrow> ('f, 's, 'c) activity_ctx \<Rightarrow> ClaimTransition \<Rightarrow> 's \<Rightarrow> go_error option \<times> 's" where
  "AdvanceExecutionClaim claims ctx t s = (case claims of
       None \<Rightarrow> (Some (errors_New ''execution claim store not configured''), s)
     | Some cs \<Rightarrow>
         if ct_To t = ClaimStateExecuting
         then (Some (app_error ''EXECUTING is entered only by the dispatch activity''
                 ExecutionClaimRejectedErrorType None), s)
         else (case cs_AdvanceClaim cs (ax_Store ctx) (ct_DecisionID t) (claimOwner ctx (ct_Token t))
                     (ct_To t) (ax_Now ctx) s of
             (None, s') \<Rightarrow> (None, s')
           | (Some e, s') \<Rightarrow>
               if err_is e = ErrClaimNotHeld
               then (Some (app_error (err_text e) ExecutionClaimRejectedErrorType (Some e)), s')
               else (Some e, s')))"

definition RecordDecision ::
  "('f, 's) Store option \<Rightarrow> ('f, 's, 'c) activity_ctx \<Rightarrow> DecisionRecord \<Rightarrow> 's \<Rightarrow> go_error option \<times> 's" where
  "RecordDecision store ctx r s = (case store of
       None \<Rightarrow> (Some (errors_New ''decision store not configured''), s)
     | Some st \<Rightarrow> st_AppendDecision st (ax_Store ctx) r s)"

text \<open>\<open>audit\<close> is the \<^verbatim>\<open>Append\<close> method of the configured \<^verbatim>\<open>AuditStore\<close>.\<close>

definition RecordAuditTrail ::
  "('f \<Rightarrow> time \<Rightarrow> AuditRecord \<Rightarrow> 's \<Rightarrow> go_error option \<times> 's) option \<Rightarrow> ('f, 's, 'c) activity_ctx \<Rightarrow>
   AuditRecord \<Rightarrow> 's \<Rightarrow> go_error option \<times> 's" where
  "RecordAuditTrail audit ctx r s = (case audit of
       None \<Rightarrow> (Some audit_persist_failed, s)
     | Some app \<Rightarrow> app (ax_Store ctx) (ax_Now ctx) r s)"

section \<open>Infrastructure activities (activities.go)\<close>

definition fenceRejected :: "string \<Rightarrow> go_error option \<Rightarrow> go_error" where
  "fenceRejected msg cause = app_error (''adapter not called: '' @ msg) ExecutionFenceRejectedErrorType cause"

definition fenceUnknown :: "string \<Rightarrow> go_error option \<Rightarrow> go_error" where
  "fenceUnknown msg cause = app_error (''adapter not called: '' @ msg) ExecutionFenceUnknownErrorType cause"

text \<open>The checks of \<^verbatim>\<open>DispatchConfig\<close> before it touches the claim.\<close>

definition dispatch_guard ::
  "('c, 'a) Adapter_iface option \<Rightarrow> ('f, 's) ClaimStore option \<Rightarrow> FencedDispatch \<Rightarrow> go_error option" where
  "dispatch_guard adapter claims req =
     (if Option.is_none adapter then Some (fenceRejected ''no infrastructure adapter configured'' None)
      else if Option.is_none claims then Some (fenceRejected ''execution claim store not configured'' None)
      else if fd_DecisionID req = '''' \<or> fd_Token req = ''''
      then Some (fenceRejected ''request is missing the decision ID or claim token'' None)
      else if dq_IdempotencyKey (fd_Dispatch req) \<noteq> ExecutionKey (fd_DecisionID req)
      then Some (fenceRejected ''idempotency key does not belong to the fenced decision'' None)
      else None)"

text \<open>The compare-and-set on the claim, and how its failure is classified.\<close>

definition acquire_fence ::
  "('f, 's) ClaimStore \<Rightarrow> ('f, 's, 'c) activity_ctx \<Rightarrow> FencedDispatch \<Rightarrow> 's \<Rightarrow> go_error option \<times> 's" where
  "acquire_fence cs ctx req s =
     (let owner = claimOwner ctx (fd_Token req) in
      case cs_AdvanceClaim cs (ax_Store ctx) (fd_DecisionID req) owner ClaimStateExecuting (ax_Now ctx) s of
        (None, s') \<Rightarrow> (None, s')
      | (Some e, s') \<Rightarrow>
          if err_is e \<noteq> ErrClaimNotHeld
          then (Some (fenceUnknown ''execution fence write failed and may have committed'' (Some e)), s')
          else
            let rejected = fenceRejected ''execution fence is not held by this run'' (Some e) in
            (case cs_GetClaim cs (ax_Read ctx) (fd_DecisionID req) (ax_Mid ctx s') of
               Inl g \<Rightarrow>
                 if err_is g = ErrClaimNotFound then (Some rejected, s')
                 else (Some (fenceUnknown ''execution fence rejected and the claim could not be read'' (Some g)), s')
             | Inr held \<Rightarrow>
                 if ec_Owner held = owner \<and> ec_State held \<noteq> ClaimStateReleased
                 then (Some (fenceUnknown ''this run already acquired the execution fence'' (Some e)), s')
                 else (Some rejected, s')))"

definition DispatchConfig ::
  "('c, 'a) Adapter_iface option \<Rightarrow> ('f, 's) ClaimStore option \<Rightarrow> ('f, 's, 'c) activity_ctx \<Rightarrow>
   FencedDispatch \<Rightarrow> 's \<times> 'a \<Rightarrow> (go_error + DispatchOutcome) \<times> 's \<times> 'a" where
  "DispatchConfig adapter claims ctx req w = (case dispatch_guard adapter claims req of
       Some e \<Rightarrow> (Inl e, w)
     | None \<Rightarrow> (case acquire_fence (the claims) ctx req (fst w) of
         (Some e, s') \<Rightarrow> (Inl e, s', snd w)
       | (None, s') \<Rightarrow>
           (case ad_Dispatch (the adapter) (ax_Adapter ctx) (fd_Dispatch req) (snd w) of
              (o', a') \<Rightarrow> (Inr (Checked o'), s', a'))))"

definition ReconcileDispatch ::
  "('c, 'a) Adapter_iface option \<Rightarrow> ('f, 's, 'c) activity_ctx \<Rightarrow> DispatchRequest \<Rightarrow> 'a \<Rightarrow> DispatchOutcome \<times> 'a" where
  "ReconcileDispatch adapter ctx req a = (case adapter of
       None \<Rightarrow> (UnknownOutcome ''cannot reconcile: no infrastructure adapter configured'', a)
     | Some ad \<Rightarrow>
         if dq_IdempotencyKey req = ''''
         then (UnknownOutcome ''cannot reconcile: request has no idempotency key'', a)
         else (case ad_Reconcile ad (ax_Adapter ctx) req a of (o', a') \<Rightarrow> (Checked o', a')))"

definition RevertStateCompensation ::
  "('c, 'a) Adapter_iface option \<Rightarrow> ('f, 's, 'c) activity_ctx \<Rightarrow> DispatchRequest \<Rightarrow> 'a \<Rightarrow> go_error option \<times> 'a" where
  "RevertStateCompensation adapter ctx req a = (case adapter of
       None \<Rightarrow> (Some (errors_New ''cannot compensate: no infrastructure adapter configured''), a)
     | Some ad \<Rightarrow> ad_Compensate ad (ax_Adapter ctx) req a)"

section \<open>The dispatch activity\<close>

lemma fence_errors [simp]:
  "err_type (fenceRejected m c) = ExecutionFenceRejectedErrorType"
  "err_type (fenceUnknown m c) = ExecutionFenceUnknownErrorType"
  "err_nonretryable (fenceRejected m c)" "err_nonretryable (fenceUnknown m c)"
  by (simp_all add: fenceRejected_def fenceUnknown_def)

lemma dispatch_guard_None_iff:
  "dispatch_guard adapter claims req = None \<longleftrightarrow> (\<exists>ad cs. adapter = Some ad \<and> claims = Some cs) \<and>
     fd_DecisionID req \<noteq> '''' \<and> fd_Token req \<noteq> '''' \<and>
     dq_IdempotencyKey (fd_Dispatch req) = ExecutionKey (fd_DecisionID req)"
  by (cases adapter; cases claims) (auto simp: dispatch_guard_def)

lemma dispatch_guard_type:
  "dispatch_guard adapter claims req = Some e \<Longrightarrow>
     err_type e = ExecutionFenceRejectedErrorType \<and> err_nonretryable e"
  by (auto simp: dispatch_guard_def split: if_splits)

text \<open>The activity calls the adapter exactly when it acquired the fence, and then returns no error.\<close>

lemma DispatchConfig_outcome:
  assumes "DispatchConfig adapter claims ctx req (s, a) = (Inr o', s', a')"
  obtains ad cs o1 where "adapter = Some ad" "claims = Some cs"
    "dispatch_guard adapter claims req = None" "acquire_fence cs ctx req s = (None, s')"
    "ad_Dispatch ad (ax_Adapter ctx) (fd_Dispatch req) a = (o1, a')" "o' = Checked o1"
proof -
  have g: "dispatch_guard adapter claims req = None"
    using assms by (cases "dispatch_guard adapter claims req") (auto simp: DispatchConfig_def)
  then obtain ad cs where ac: "adapter = Some ad" "claims = Some cs" by (auto simp: dispatch_guard_None_iff)
  obtain e s1 where f: "acquire_fence cs ctx req s = (e, s1)" by fastforce
  obtain o1 a1 where d: "ad_Dispatch ad (ax_Adapter ctx) (fd_Dispatch req) a = (o1, a1)" by fastforce
  have "e = None" "s1 = s'" "a1 = a'" "o' = Checked o1"
    using assms g ac f d by (auto simp: DispatchConfig_def split: option.splits)
  with that [OF ac g] f d show thesis by simp
qed

lemma DispatchConfig_error:
  assumes "DispatchConfig adapter claims ctx req (s, a) = (Inl e, s', a')"
  shows "a' = a" "err_nonretryable e"
    "err_type e \<in> {ExecutionFenceRejectedErrorType, ExecutionFenceUnknownErrorType}"
proof -
  have "a' = a \<and> err_nonretryable e \<and> err_type e \<in> {ExecutionFenceRejectedErrorType, ExecutionFenceUnknownErrorType}"
  proof (cases "dispatch_guard adapter claims req")
    case None
    obtain f s1 where f: "acquire_fence (the claims) ctx req s = (f, s1)" by fastforce
    from assms None f have "f = Some e" "a' = a" by (auto simp: DispatchConfig_def split: option.splits prod.splits)
    moreover have "err_nonretryable e \<and> err_type e \<in> {ExecutionFenceRejectedErrorType, ExecutionFenceUnknownErrorType}"
      using f \<open>f = Some e\<close> unfolding acquire_fence_def Let_def
      by (auto split: prod.splits option.splits if_splits sum.splits)
    ultimately show ?thesis by simp
  next
    case (Some g)
    then show ?thesis using assms dispatch_guard_type [OF Some] by (auto simp: DispatchConfig_def)
  qed
  then show "a' = a" "err_nonretryable e"
    "err_type e \<in> {ExecutionFenceRejectedErrorType, ExecutionFenceUnknownErrorType}" by simp_all
qed

section \<open>Activities over a claim store\<close>

text \<open>What the activities do to the claims of a store that keeps the contract.\<close>

context claim_store
begin

abbreviation cs :: "('f, 's) ClaimStore" where
  "cs \<equiv> \<lparr>cs_ClaimExecution = claim, cs_AdvanceClaim = advance, cs_GetClaim = get\<rparr>"

lemma acquire_fence_ok:
  assumes "invar s" "acquire_fence cs ctx req s = (None, s')"
  shows "invar s'" "move_claim (fd_DecisionID req) (claimOwner ctx (fd_Token req)) ClaimStateExecuting (ax_Now ctx) (claims s) (claims s')"
proof -
  have "advance (ax_Store ctx) (fd_DecisionID req) (claimOwner ctx (fd_Token req)) ClaimStateExecuting (ax_Now ctx) s = (None, s')"
    using assms(2) unfolding acquire_fence_def Let_def
    by (auto split: prod.splits option.splits if_splits sum.splits)
  with advance_ok [OF assms(1)] advance_safe [OF assms(1)]
  show "invar s'" "move_claim (fd_DecisionID req) (claimOwner ctx (fd_Token req)) ClaimStateExecuting (ax_Now ctx) (claims s) (claims s')"
    by blast+
qed

lemma acquire_fence_rejected:
  assumes "invar s" "acquire_fence cs ctx req s = (Some e, s')" "err_type e = ExecutionFenceRejectedErrorType"
  shows "claims s' = claims s"
proof -
  obtain e1 where "advance (ax_Store ctx) (fd_DecisionID req) (claimOwner ctx (fd_Token req)) ClaimStateExecuting (ax_Now ctx) s = (Some e1, s')"
      "err_is e1 = ErrClaimNotHeld"
    using assms(2,3) unfolding acquire_fence_def Let_def
    by (auto split: prod.splits option.splits if_splits sum.splits)
  then show ?thesis using advance_refused [OF assms(1)] by blast
qed

lemma acquire_fence_safe:
  assumes "invar s" "acquire_fence cs ctx req s = (e, s')"
  shows "invar s'" "claims s' = claims s \<or>
    move_claim (fd_DecisionID req) (claimOwner ctx (fd_Token req)) ClaimStateExecuting (ax_Now ctx) (claims s) (claims s')"
proof -
  obtain e1 where "advance (ax_Store ctx) (fd_DecisionID req) (claimOwner ctx (fd_Token req)) ClaimStateExecuting (ax_Now ctx) s = (e1, s')"
    using assms(2) unfolding acquire_fence_def Let_def
    by (auto split: prod.splits option.splits if_splits sum.splits)
  with advance_safe [OF assms(1)]
  show "invar s'" "claims s' = claims s \<or>
    move_claim (fd_DecisionID req) (claimOwner ctx (fd_Token req)) ClaimStateExecuting (ax_Now ctx) (claims s) (claims s')"
    by blast+
qed

lemma dispatch_means_fenced:
  assumes "invar s" "DispatchConfig adapter (Some cs) ctx req (s, a) = (Inr o', s', a')"
  shows "\<exists>c. claims s (fd_DecisionID req) = Some c \<and> ec_State c = ClaimStateClaimed \<and>
      ec_Owner c = claimOwner ctx (fd_Token req) \<and>
      claims s' = (claims s)(fd_DecisionID req \<mapsto> c\<lparr>ec_State := ClaimStateExecuting, ec_UpdatedAt := ax_Now ctx\<rparr>)"
  using assms(2)
proof (rule DispatchConfig_outcome)
  fix ad cs' o1
  assume "Some cs = Some cs'" "acquire_fence cs' ctx req s = (None, s')"
  then have "move_claim (fd_DecisionID req) (claimOwner ctx (fd_Token req)) ClaimStateExecuting (ax_Now ctx) (claims s) (claims s')"
    using acquire_fence_ok(2) [OF assms(1)] by simp
  then show ?thesis by (auto simp: move_claim_def may_advance_def claim_simps split: option.splits)
qed

lemma rejected_means_unchanged:
  assumes "invar s" "DispatchConfig adapter (Some cs) ctx req (s, a) = (Inl e, s', a')"
    "err_type e = ExecutionFenceRejectedErrorType"
  shows "claims s' = claims s"
proof (cases "dispatch_guard adapter (Some cs) req")
  case None
  then have "acquire_fence cs ctx req s = (Some e, s')"
    using assms(2) by (auto simp: DispatchConfig_def split: option.splits prod.splits)
  then show ?thesis by (rule acquire_fence_rejected [OF assms(1) _ assms(3)])
next
  case (Some g)
  then show ?thesis using assms(2) by (simp add: DispatchConfig_def)
qed

end

end
