(* ===== verification/Worker.thy ===== *)
theory Worker
  imports Gateway Activities
begin

text \<open>
  The worker process as \<^verbatim>\<open>main\<close> of \<^verbatim>\<open>cmd/worker/main.go\<close> wires it: the activities over the SQLite
  store it shares with the gateway and over one simulated adapter, and its health endpoints.

  The whole system is the database, the adapter's memory, the worker's policy and the dispatch
  activities in flight. Everything that can happen to it is an operation \<open>sys_op\<close>: an attempt of
  an activity on behalf of any workflow run (retried, timed out or abandoned attempts included), a
  record written by the gateway, a policy reload, or a restart of the worker, which loses the
  adapter's memory and the dispatches in flight. A dispatch activity is two operations, the fence
  and the call of the adapter, so others may act in between. Operations come in any order.
\<close>

section \<open>The stores and the adapter of the worker\<close>

type_synonym attempt = "(sql_env, database, string option) activity_ctx"

definition sql_Store :: "(sql_env, database) Store" where
  "sql_Store = \<lparr>st_AppendDecision = Sql_AppendDecision, st_GetDecision = Sql_GetDecision\<rparr>"

definition sql_Claims :: "(sql_env, database) ClaimStore" where
  "sql_Claims = \<lparr>cs_ClaimExecution = Sql_ClaimExecution, cs_AdvanceClaim = Sql_AdvanceClaim, cs_GetClaim = Sql_GetClaim\<rparr>"

definition sim_Adapter :: "(string option, SimulatedAdapter) Adapter_iface" where
  "sim_Adapter = \<lparr>ad_Dispatch = Sim_Dispatch, ad_Reconcile = Sim_Reconcile, ad_Compensate = Sim_Compensate\<rparr>"

text \<open>\<open>sy_calls\<close> lists the calls of the adapter's \<^verbatim>\<open>Dispatch\<close> so far; no code reads it.\<close>

record system =
  sy_db :: database
  sy_adapter :: SimulatedAdapter
  sy_policy :: "Snapshot option"
  sy_pending :: "FencedDispatch list"
  sy_calls :: "DispatchRequest list"

definition worker_boot :: "database \<Rightarrow> Snapshot option \<Rightarrow> system" where
  "worker_boot db snap = \<lparr>sy_db = db, sy_adapter = NewSimulatedAdapter, sy_policy = snap, sy_pending = [], sy_calls = []\<rparr>"

section \<open>The registered activities\<close>

definition wk_VerifyIngressDecision :: "attempt \<Rightarrow> ExecutionRequest \<Rightarrow> system \<Rightarrow> go_error + IngressVerification" where
  "wk_VerifyIngressDecision ctx req w = VerifyIngressDecision (Some sql_Store) ctx req (sy_db w)"

definition wk_EvaluateExecution :: "attempt \<Rightarrow> ExecutionRequest \<Rightarrow> system \<Rightarrow> go_error + Decision" where
  "wk_EvaluateExecution ctx req w = EvaluateExecution (sy_policy w) ctx req"

definition wk_ClaimExecution :: "attempt \<Rightarrow> ClaimRequest \<Rightarrow> system \<Rightarrow> (go_error + ClaimResult) \<times> system" where
  "wk_ClaimExecution ctx req w = (case ClaimExecution (Some sql_Claims) ctx req (sy_db w) of (r, db) \<Rightarrow> (r, w\<lparr>sy_db := db\<rparr>))"

definition wk_AdvanceExecutionClaim :: "attempt \<Rightarrow> ClaimTransition \<Rightarrow> system \<Rightarrow> go_error option \<times> system" where
  "wk_AdvanceExecutionClaim ctx t w =
     (case AdvanceExecutionClaim (Some sql_Claims) ctx t (sy_db w) of (r, db) \<Rightarrow> (r, w\<lparr>sy_db := db\<rparr>))"

definition wk_RecordDecision :: "attempt \<Rightarrow> DecisionRecord \<Rightarrow> system \<Rightarrow> go_error option \<times> system" where
  "wk_RecordDecision ctx r w =
     (case RecordDecision (Some sql_Store) ctx r (sy_db w) of (e, db) \<Rightarrow> (e, w\<lparr>sy_db := db\<rparr>))"

definition wk_RecordAuditTrail :: "attempt \<Rightarrow> AuditRecord \<Rightarrow> system \<Rightarrow> go_error option \<times> system" where
  "wk_RecordAuditTrail ctx r w =
     (case RecordAuditTrail (Some Sql_Append) ctx r (sy_db w) of (e, db) \<Rightarrow> (e, w\<lparr>sy_db := db\<rparr>))"

text \<open>\<^verbatim>\<open>DispatchConfig\<close> up to the fence, and the call of the adapter after it.\<close>

definition wk_fence :: "attempt \<Rightarrow> FencedDispatch \<Rightarrow> system \<Rightarrow> go_error option \<times> system" where
  "wk_fence ctx req w = (case dispatch_guard (Some sim_Adapter) (Some sql_Claims) req of
       Some e \<Rightarrow> (Some e, w)
     | None \<Rightarrow> (case acquire_fence sql_Claims ctx req (sy_db w) of
         (Some e, db) \<Rightarrow> (Some e, w\<lparr>sy_db := db\<rparr>)
       | (None, db) \<Rightarrow> (None, w\<lparr>sy_db := db, sy_pending := sy_pending w @ [req]\<rparr>)))"

definition wk_send :: "attempt \<Rightarrow> FencedDispatch \<Rightarrow> system \<Rightarrow> DispatchOutcome option \<times> system" where
  "wk_send ctx req w =
     (if req \<in> set (sy_pending w)
      then case ad_Dispatch sim_Adapter (ax_Adapter ctx) (fd_Dispatch req) (sy_adapter w) of
          (o', a) \<Rightarrow> (Some (Checked o'), w\<lparr>sy_adapter := a, sy_pending := remove1 req (sy_pending w),
             sy_calls := sy_calls w @ [fd_Dispatch req]\<rparr>)
      else (None, w))"

definition wk_ReconcileDispatch :: "attempt \<Rightarrow> DispatchRequest \<Rightarrow> system \<Rightarrow> DispatchOutcome \<times> system" where
  "wk_ReconcileDispatch ctx req w =
     (case ReconcileDispatch (Some sim_Adapter) ctx req (sy_adapter w) of (o', a) \<Rightarrow> (o', w\<lparr>sy_adapter := a\<rparr>))"

definition wk_RevertStateCompensation :: "attempt \<Rightarrow> DispatchRequest \<Rightarrow> system \<Rightarrow> go_error option \<times> system" where
  "wk_RevertStateCompensation ctx req w =
     (case RevertStateCompensation (Some sim_Adapter) ctx req (sy_adapter w) of (e, a) \<Rightarrow> (e, w\<lparr>sy_adapter := a\<rparr>))"

section \<open>Operations of the system\<close>

datatype sys_op =
    DoClaim attempt ClaimRequest
  | DoAdvance attempt ClaimTransition
  | DoDecision attempt DecisionRecord
  | DoAudit attempt AuditRecord
  | DoFence attempt FencedDispatch
  | DoSend attempt FencedDispatch
  | DoReconcile attempt DispatchRequest
  | DoCompensate attempt DispatchRequest
  | DoIngress sql_env DecisionRecord
  | DoReload "Snapshot option"
  | DoRestart

fun sys_exec :: "sys_op \<Rightarrow> system \<Rightarrow> system" where
  "sys_exec (DoClaim ctx req) w = snd (wk_ClaimExecution ctx req w)"
| "sys_exec (DoAdvance ctx t) w = snd (wk_AdvanceExecutionClaim ctx t w)"
| "sys_exec (DoDecision ctx r) w = snd (wk_RecordDecision ctx r w)"
| "sys_exec (DoAudit ctx r) w = snd (wk_RecordAuditTrail ctx r w)"
| "sys_exec (DoFence ctx req) w = snd (wk_fence ctx req w)"
| "sys_exec (DoSend ctx req) w = snd (wk_send ctx req w)"
| "sys_exec (DoReconcile ctx req) w = snd (wk_ReconcileDispatch ctx req w)"
| "sys_exec (DoCompensate ctx req) w = snd (wk_RevertStateCompensation ctx req w)"
| "sys_exec (DoIngress env r) w = w\<lparr>sy_db := snd (Sql_AppendDecision env r (sy_db w))\<rparr>"
| "sys_exec (DoReload snap) w = w\<lparr>sy_policy := snap\<rparr>"
| "sys_exec DoRestart w = w\<lparr>sy_adapter := NewSimulatedAdapter, sy_pending := []\<rparr>"

definition sys_run :: "sys_op list \<Rightarrow> system \<Rightarrow> system" where
  "sys_run ops w = fold sys_exec ops w"

section \<open>Health endpoints\<close>

definition worker_health_addr :: "string \<Rightarrow> string" where
  "worker_health_addr env = (if env = '''' then '':8081'' else env)"

definition serveWorkerHealth :: "sql_env \<Rightarrow> http_request \<Rightarrow> database \<Rightarrow> http_response" where
  "serveWorkerHealth env rq db =
     (if rq_path rq = [''healthz'']
      then if is_get rq then \<lparr>hr_status = 200, hr_body = BodyText ''ok''\<rparr> else method_not_allowed
      else if rq_path rq = [''readyz'']
      then if \<not> is_get rq then method_not_allowed
        else (case Sql_Ping env db of
            Some _ \<Rightarrow> \<lparr>hr_status = 503, hr_body = BodyText (''audit db not ready'' @ [CHR 0x0A])\<rparr>
          | None \<Rightarrow> \<lparr>hr_status = 200, hr_body = BodyText ''ready''\<rparr>)
      else not_found)"

section \<open>Facts on one operation\<close>

lemmas wk_defs = wk_ClaimExecution_def wk_AdvanceExecutionClaim_def wk_RecordDecision_def wk_RecordAuditTrail_def
  wk_fence_def wk_send_def wk_ReconcileDispatch_def wk_RevertStateCompensation_def

lemma sys_run_simps [simp]:
  "sys_run [] w = w" "sys_run (op # ops) w = sys_run ops (sys_exec op w)" "sys_run (xs @ ys) w = sys_run ys (sys_run xs w)"
  by (simp_all add: sys_run_def)

lemma sim_Adapter_simps [simp]:
  "ad_Dispatch sim_Adapter = Sim_Dispatch" "ad_Reconcile sim_Adapter = Sim_Reconcile" "ad_Compensate sim_Adapter = Sim_Compensate"
  by (simp_all add: sim_Adapter_def)

text \<open>The two halves of a dispatch, one right after the other, are the activity.\<close>

lemma dispatch_halves:
  "DispatchConfig (Some sim_Adapter) (Some sql_Claims) ctx req (sy_db w, sy_adapter w) =
     (case wk_fence ctx req w of
        (Some e, w1) \<Rightarrow> (Inl e, sy_db w1, sy_adapter w1)
      | (None, w1) \<Rightarrow> (case wk_send ctx req w1 of
          (o', w2) \<Rightarrow> (Inr (the o'), sy_db w2, sy_adapter w2)))"
  by (auto simp: DispatchConfig_def wk_fence_def wk_send_def split: option.splits prod.splits)

text \<open>What an operation does to the claims is a run of the abstract claim machine.\<close>

lemma claim_run_refl: "\<exists>tr. claim_run m tr m"
  using claim_run.run_nil by blast

lemmas sql_fence_ok = claim_store.acquire_fence_ok [OF sql.claim_store_axioms, folded sql_Claims_def]
lemmas sql_fence_safe = claim_store.acquire_fence_safe [OF sql.claim_store_axioms, folded sql_Claims_def]

lemma db_claim:
  assumes "sql_inv db" "ClaimExecution (Some sql_Claims) ctx req db = (r, db')"
  shows "sql_inv db' \<and> (\<exists>tr. claim_run (sql_claims db) tr (sql_claims db'))"
proof -
  obtain e db1 where c: "Sql_ClaimExecution (ax_Store ctx) (cr_DecisionID req) (claimOwner ctx (cr_Token req)) (ax_Now ctx) db = (e, db1)"
    by fastforce
  have "db' = db \<or> db' = db1"
    using assms(2) c by (auto simp: ClaimExecution_def sql_Claims_def split: option.splits if_splits)
  with sql.claim_safe [OF assms(1) c] sql.claim_run_claim [OF assms(1) c] assms(1) show ?thesis
    using claim_run_refl by blast
qed

lemma db_advance:
  assumes "sql_inv db" "AdvanceExecutionClaim (Some sql_Claims) ctx t db = (r, db')"
  shows "sql_inv db' \<and> (\<exists>tr. claim_run (sql_claims db) tr (sql_claims db'))"
proof -
  obtain e db1 where c: "Sql_AdvanceClaim (ax_Store ctx) (ct_DecisionID t) (claimOwner ctx (ct_Token t)) (ct_To t) (ax_Now ctx) db = (e, db1)"
    by fastforce
  have "db' = db \<or> db' = db1"
    using assms(2) c by (auto simp: AdvanceExecutionClaim_def sql_Claims_def split: option.splits if_splits)
  with sql.advance_safe [OF assms(1) c] sql.claim_run_advance [OF assms(1) c] assms(1) show ?thesis
    using claim_run_refl by blast
qed

lemma db_fence:
  assumes "sql_inv db" "acquire_fence sql_Claims ctx req db = (e, db')"
  shows "sql_inv db' \<and> (\<exists>tr. claim_run (sql_claims db) tr (sql_claims db'))"
  using sql_fence_safe [OF assms] claim_run_refl claim_run_single claim_step.moved by metis

lemma db_append:
  assumes "sql_inv db" "Sql_AppendDecision env r db = (e, db')"
  shows "sql_inv db' \<and> (\<exists>tr. claim_run (sql_claims db) tr (sql_claims db'))"
  using Sql_AppendDecision_cases [OF assms] claim_run_refl by metis

lemma db_audit_row:
  assumes "sql_inv db" "Sql_Append env now r db = (e, db')"
  shows "sql_inv db' \<and> (\<exists>tr. claim_run (sql_claims db) tr (sql_claims db'))"
proof -
  have "sql_claims db' = sql_claims db" using Sql_Append_safe [OF assms] by (auto simp: sql_claims_eq)
  then show ?thesis using Sql_Append_safe [OF assms] claim_run_refl by metis
qed

lemma sys_exec_db:
  assumes "sql_inv (sy_db w)"
  shows "sql_inv (sy_db (sys_exec op w)) \<and> (\<exists>tr. claim_run (sql_claims (sy_db w)) tr (sql_claims (sy_db (sys_exec op w))))"
proof (cases op)
  case (DoClaim ctx req)
  obtain r db where c: "ClaimExecution (Some sql_Claims) ctx req (sy_db w) = (r, db)" by fastforce
  from db_claim [OF assms c] show ?thesis by (simp add: DoClaim wk_ClaimExecution_def c)
next
  case (DoAdvance ctx t)
  obtain r db where c: "AdvanceExecutionClaim (Some sql_Claims) ctx t (sy_db w) = (r, db)" by fastforce
  from db_advance [OF assms c] show ?thesis by (simp add: DoAdvance wk_AdvanceExecutionClaim_def c)
next
  case (DoDecision ctx r)
  obtain e db where c: "Sql_AppendDecision (ax_Store ctx) r (sy_db w) = (e, db)" by fastforce
  from db_append [OF assms c] show ?thesis by (simp add: DoDecision wk_RecordDecision_def RecordDecision_def sql_Store_def c)
next
  case (DoAudit ctx r)
  obtain e db where c: "Sql_Append (ax_Store ctx) (ax_Now ctx) r (sy_db w) = (e, db)" by fastforce
  from db_audit_row [OF assms c] show ?thesis by (simp add: DoAudit wk_RecordAuditTrail_def RecordAuditTrail_def c)
next
  case (DoFence ctx req)
  obtain e db where c: "acquire_fence sql_Claims ctx req (sy_db w) = (e, db)" by fastforce
  from db_fence [OF assms c] assms show ?thesis
    by (simp add: DoFence wk_fence_def c claim_run_refl split: option.splits)
next
  case (DoIngress env r)
  obtain e db where c: "Sql_AppendDecision env r (sy_db w) = (e, db)" by fastforce
  from db_append [OF assms c] show ?thesis by (simp add: DoIngress c)
qed (use assms claim_run_refl in \<open>simp_all add: wk_send_def wk_ReconcileDispatch_def wk_RevertStateCompensation_def split: prod.splits\<close>)

lemma sys_run_db:
  assumes "sql_inv (sy_db w)"
  shows "sql_inv (sy_db (sys_run ops w)) \<and> (\<exists>tr. claim_run (sql_claims (sy_db w)) tr (sql_claims (sy_db (sys_run ops w))))"
  using assms
proof (induction ops arbitrary: w)
  case (Cons op ops)
  then show ?case using sys_exec_db [OF Cons.prems, of op] claim_run_append by (simp, blast)
qed (simp add: claim_run_refl)

section \<open>The invariant of the system\<close>

definition for_decision :: "string \<Rightarrow> DispatchRequest \<Rightarrow> bool" where
  "for_decision d q \<longleftrightarrow> dq_IdempotencyKey q = ExecutionKey d"

definition calls_for :: "string \<Rightarrow> system \<Rightarrow> nat" where
  "calls_for d w = length (filter (for_decision d) (sy_calls w))"

definition pending_for :: "string \<Rightarrow> system \<Rightarrow> nat" where
  "pending_for d w = length (filter (for_decision d \<circ> fd_Dispatch) (sy_pending w))"

text \<open>\<open>U\<close> are the decisions that were used before the worker started.\<close>

definition sys_inv :: "string set \<Rightarrow> system \<Rightarrow> bool" where
  "sys_inv U w \<longleftrightarrow> sql_inv (sy_db w) \<and> sim_inv (sy_adapter w) \<and>
     (\<forall>d. (d \<in> U \<longrightarrow> used (sql_claims (sy_db w)) d) \<and>
       calls_for d w + pending_for d w \<le> (if used (sql_claims (sy_db w)) d \<and> d \<notin> U then 1 else 0)) \<and>
     (\<forall>k. Mutations (sy_adapter w) k \<le> length (filter (\<lambda>q. dq_IdempotencyKey q = k) (sy_calls w)))"

lemma worker_boot_inv: "sql_inv db \<Longrightarrow> sys_inv {d. used (sql_claims db) d} (worker_boot db snap)"
  by (simp add: sys_inv_def worker_boot_def calls_for_def pending_for_def NewSimulatedAdapter_def Mutations_def sim_inv_def sim_ok_def)

lemma used_run: "claim_run m tr m' \<Longrightarrow> used m d \<Longrightarrow> used m' d"
  using run_fences(2) by blast

text \<open>An operation that leaves the adapter's record and the calls alone.\<close>

lemma sys_inv_db:
  assumes "sys_inv U w" "sql_inv db" "claim_run (sql_claims (sy_db w)) tr (sql_claims db)"
  shows "sys_inv U (w\<lparr>sy_db := db\<rparr>)"
proof -
  have "(d \<in> U \<longrightarrow> used (sql_claims db) d) \<and> calls_for d w + pending_for d w \<le> (if used (sql_claims db) d \<and> d \<notin> U then 1 else 0)" for d
    using assms(1) used_run [OF assms(3), of d] by (auto simp: sys_inv_def split: if_splits dest: spec [of _ d])
  with assms show ?thesis by (simp add: sys_inv_def calls_for_def pending_for_def)
qed

lemma sys_inv_adapter:
  assumes "sys_inv U w" "sim_inv a" "Mutations a = Mutations (sy_adapter w)"
  shows "sys_inv U (w\<lparr>sy_adapter := a\<rparr>)"
  using assms by (simp add: sys_inv_def calls_for_def pending_for_def)

text \<open>The fence is acquired only for a decision that was not used, and makes it used.\<close>

lemma fence_takes:
  assumes "sql_inv db" "acquire_fence sql_Claims ctx req db = (None, db')"
  shows "\<not> used (sql_claims db) (fd_DecisionID req)" "used (sql_claims db') (fd_DecisionID req)"
    "used (sql_claims db) d \<Longrightarrow> used (sql_claims db') d"
proof -
  have "claim_step (sql_claims db) (Moved (fd_DecisionID req) (claimOwner ctx (fd_Token req)) ClaimStateExecuting) (sql_claims db')"
    using sql_fence_ok(2) [OF assms] by (rule claim_step.moved)
  note st = step_used [OF this]
  show "\<not> used (sql_claims db) (fd_DecisionID req)" using st(2) by (simp add: is_fence_def)
  show "used (sql_claims db') (fd_DecisionID req)" using st(1) by (simp add: is_fence_def)
  show "used (sql_claims db) d \<Longrightarrow> used (sql_claims db') d" using st(1) by simp
qed

lemma wk_fence_inv:
  assumes "sys_inv U w"
  shows "sys_inv U (snd (wk_fence ctx req w))"
proof (cases "dispatch_guard (Some sim_Adapter) (Some sql_Claims) req")
  case None
  obtain e db where f: "acquire_fence sql_Claims ctx req (sy_db w) = (e, db)" by fastforce
  have inv: "sql_inv (sy_db w)" using assms by (simp add: sys_inv_def)
  obtain tr where tr: "sql_inv db" "claim_run (sql_claims (sy_db w)) tr (sql_claims db)" using db_fence [OF inv f] by blast
  show ?thesis
  proof (cases e)
    case None
    have key: "for_decision d (fd_Dispatch req) \<longleftrightarrow> d = fd_DecisionID req" for d
      using \<open>dispatch_guard _ _ req = None\<close> by (auto simp: dispatch_guard_None_iff for_decision_def ExecutionKey_inj)
    have "(d \<in> U \<longrightarrow> used (sql_claims db) d) \<and>
      calls_for d w + pending_for d w + (if d = fd_DecisionID req then 1 else 0) \<le> (if used (sql_claims db) d \<and> d \<notin> U then 1 else 0)" for d
    proof (cases "d = fd_DecisionID req")
      case True
      have "calls_for d w + pending_for d w = 0" "d \<notin> U"
        using assms fence_takes(1) [OF inv f [unfolded None]] True by (auto simp: sys_inv_def dest: spec [of _ d])
      then show ?thesis using fence_takes(2) [OF inv f [unfolded None]] True by simp
    next
      case False
      then show ?thesis
        using assms fence_takes(3) [OF inv f [unfolded None], of d] by (auto simp: sys_inv_def split: if_splits dest: spec [of _ d])
    qed
    moreover have "calls_for d (w\<lparr>sy_db := db, sy_pending := sy_pending w @ [req]\<rparr>) +
        pending_for d (w\<lparr>sy_db := db, sy_pending := sy_pending w @ [req]\<rparr>) =
      calls_for d w + pending_for d w + (if d = fd_DecisionID req then 1 else 0)" for d
      by (simp add: calls_for_def pending_for_def key)
    ultimately have "sys_inv U (w\<lparr>sy_db := db, sy_pending := sy_pending w @ [req]\<rparr>)"
      using assms tr(1) unfolding sys_inv_def by simp
    then show ?thesis using \<open>dispatch_guard _ _ req = None\<close> f None by (simp add: wk_fence_def)
  next
    case (Some e')
    then show ?thesis
      using sys_inv_db [OF assms tr] \<open>dispatch_guard _ _ req = None\<close> f by (simp add: wk_fence_def)
  qed
qed (simp add: wk_fence_def assms)

lemma length_filter_remove1:
  "x \<in> set xs \<Longrightarrow> length (filter P (remove1 x xs)) + (if P x then 1 else 0) = length (filter P xs)"
  by (induction xs) auto

lemma wk_send_inv:
  assumes "sys_inv U w"
  shows "sys_inv U (snd (wk_send ctx req w))"
proof (cases "req \<in> set (sy_pending w)")
  case True
  let ?k = "dq_IdempotencyKey (fd_Dispatch req)"
  obtain o' a where d: "Sim_Dispatch (ax_Adapter ctx) (fd_Dispatch req) (sy_adapter w) = (o', a)" by fastforce
  have inv: "sim_inv (sy_adapter w)" using assms by (simp add: sys_inv_def)
  have a: "sim_inv a" by (rule sim.dispatch_invar [OF inv d])
  let ?w = "w\<lparr>sy_adapter := a, sy_pending := remove1 req (sy_pending w), sy_calls := sy_calls w @ [fd_Dispatch req]\<rparr>"
  have "calls_for d ?w + pending_for d ?w = calls_for d w + pending_for d w" for d
    using length_filter_remove1 [OF True, of "for_decision d \<circ> fd_Dispatch"]
    by (auto simp: calls_for_def pending_for_def split: if_splits)
  moreover have "Mutations a k \<le> length (filter (\<lambda>q. dq_IdempotencyKey q = k) (sy_calls ?w))" for k
  proof (cases "k = ?k")
    case True
    then show ?thesis using sim.once [OF a, of k] by simp
  next
    case False
    then show ?thesis using sim.dispatch_other [OF inv d False] assms by (simp add: sys_inv_def)
  qed
  ultimately have "sys_inv U ?w" using assms a by (simp add: sys_inv_def)
  then show ?thesis using True by (simp add: wk_send_def d)
qed (simp add: wk_send_def assms)

lemma sys_exec_inv:
  assumes "sys_inv U w"
  shows "sys_inv U (sys_exec op w)"
proof -
  have inv: "sql_inv (sy_db w)" "sim_inv (sy_adapter w)" using assms by (simp_all add: sys_inv_def)
  have only_db: "sys_inv U (sys_exec op w)" if "\<exists>db. sys_exec op w = w\<lparr>sy_db := db\<rparr>"
    using sys_exec_db [OF inv(1), of op] sys_inv_db [OF assms] that by auto
  show ?thesis
  proof (cases op)
    case (DoFence ctx req)
    then show ?thesis using wk_fence_inv [OF assms] by simp
  next
    case (DoSend ctx req)
    then show ?thesis using wk_send_inv [OF assms] by simp
  next
    case (DoReconcile ctx req)
    obtain o' a where r: "Sim_Reconcile (ax_Adapter ctx) req (sy_adapter w) = (o', a)" by fastforce
    have "sys_inv U (w\<lparr>sy_adapter := a\<rparr>)" using sim.reconcile_invar [OF inv(2) r] by (intro sys_inv_adapter [OF assms]) simp_all
    moreover have "w\<lparr>sy_adapter := sy_adapter w\<rparr> = w" by simp
    ultimately show ?thesis using assms by (simp add: DoReconcile wk_ReconcileDispatch_def ReconcileDispatch_def r)
  next
    case (DoCompensate ctx req)
    obtain e a where r: "Sim_Compensate (ax_Adapter ctx) req (sy_adapter w) = (e, a)" by fastforce
    have "sys_inv U (w\<lparr>sy_adapter := a\<rparr>)" using sim.compensate_invar [OF inv(2) r] by (intro sys_inv_adapter [OF assms]) simp_all
    then show ?thesis by (simp add: DoCompensate wk_RevertStateCompensation_def RevertStateCompensation_def r)
  next
    case (DoReload snap)
    then show ?thesis using assms by (simp add: sys_inv_def calls_for_def pending_for_def)
  next
    case DoRestart
    have "(d \<in> U \<longrightarrow> used (sql_claims (sy_db w)) d) \<and>
      calls_for d w \<le> (if used (sql_claims (sy_db w)) d \<and> d \<notin> U then 1 else 0)" for d
      using assms by (auto simp: sys_inv_def dest!: spec [of _ d] split: if_splits)
    then show ?thesis
      using inv by (simp add: DoRestart sys_inv_def calls_for_def pending_for_def NewSimulatedAdapter_def Mutations_def sim_inv_def sim_ok_def)
  qed (rule only_db, simp add: wk_ClaimExecution_def wk_AdvanceExecutionClaim_def wk_RecordDecision_def
      wk_RecordAuditTrail_def case_prod_beta, blast)+
qed

lemma sys_run_inv: "sys_inv U w \<Longrightarrow> sys_inv U (sys_run ops w)"
  by (induction ops arbitrary: w) (simp_all add: sys_exec_inv)

section \<open>Properties of the system\<close>

text \<open>
  C3. Whatever the activities of any number of workflow runs do, in whatever order, with
  retries, lost responses, abandoned attempts and worker restarts: the adapter is asked to execute
  a decision at most once, never if the decision was used before the worker started, only after
  the decision's execution fence was acquired, and what it does not ask for never takes effect.
\<close>

theorem system_dispatch_once:
  assumes "sql_inv db"
  shows "calls_for d (sys_run ops (worker_boot db snap)) \<le> 1 \<and>
    (used (sql_claims db) d \<longrightarrow> calls_for d (sys_run ops (worker_boot db snap)) = 0) \<and>
    (calls_for d (sys_run ops (worker_boot db snap)) = 1 \<longrightarrow> used (sql_claims (sy_db (sys_run ops (worker_boot db snap)))) d) \<and>
    Mutations (sy_adapter (sys_run ops (worker_boot db snap))) (ExecutionKey d) \<le> calls_for d (sys_run ops (worker_boot db snap))"
proof -
  let ?U = "{d. used (sql_claims db) d}"
  have i: "sys_inv ?U (sys_run ops (worker_boot db snap))" by (rule sys_run_inv [OF worker_boot_inv [OF assms]])
  then have "Mutations (sy_adapter (sys_run ops (worker_boot db snap))) (ExecutionKey d) \<le> calls_for d (sys_run ops (worker_boot db snap))"
    by (simp add: sys_inv_def calls_for_def for_decision_def [abs_def])
  with i show ?thesis by (auto simp: sys_inv_def dest!: spec [of _ d] split: if_splits)
qed

text \<open>A run claims, is fenced and calls the adapter; its retry after a restart is refused the fence.\<close>

definition sample_attempt :: attempt where
  "sample_attempt = \<lparr>ax_WorkflowID = ''saga-p'', ax_RunID = ''r'', ax_Err = None, ax_Store = ok_env, ax_Read = ok_env,
     ax_Mid = (\<lambda>s. s), ax_Adapter = None, ax_Now = 1\<rparr>"

definition sample_fenced :: FencedDispatch where
  "sample_fenced = \<lparr>fd_DecisionID = ''d'', fd_Token = ''T'', fd_Dispatch = \<lparr>dq_IdempotencyKey = ExecutionKey ''d'',
     dq_Proposal = \<lparr>p_ID = ''p'', p_Type = ''C'', p_TargetID = ''t'', p_Payload = ''''\<rparr>\<rparr>\<rparr>"

definition sample_work :: "sys_op list" where
  "sample_work = [DoClaim sample_attempt \<lparr>cr_DecisionID = ''d'', cr_Token = ''T''\<rparr>,
     DoFence sample_attempt sample_fenced, DoSend sample_attempt sample_fenced, DoRestart,
     DoFence sample_attempt sample_fenced, DoSend sample_attempt sample_fenced]"

theorem system_dispatch_once_witness:
  "calls_for ''d'' (sys_run sample_work (worker_boot sample_db None)) = 1 \<and>
   used (sql_claims (sy_db (sys_run sample_work (worker_boot sample_db None)))) ''d''"
proof -
  have "calls_for ''d'' (sys_run sample_work (worker_boot sample_db None)) = 1"
    by (simp add: sample_work_def worker_boot_def wk_ClaimExecution_def ClaimExecution_def sql_Claims_def sample_attempt_def
        claimOwner_def sql_run wk_fence_def dispatch_guard_def sample_fenced_def acquire_fence_def wk_send_def
        Sim_Dispatch_def NewSimulatedAdapter_def sim_apply_def calls_for_def for_decision_def Valid_def
        FailingNodeID_def LostResponseNodeID_def UnreachableNodeID_def PartitionedNodeID_def)
  with system_dispatch_once [OF sample_db_inv, of "''d''" sample_work None] show ?thesis by simp
qed

end
