(* ===== verification/Startup.thy ===== *)
theory Startup
  imports Config Worker
begin

text \<open>
  How the two processes come up: \<^verbatim>\<open>main\<close> of \<^verbatim>\<open>cmd/sentrygate/main.go\<close> and of \<^verbatim>\<open>cmd/worker/main.go\<close>, with
  \<^verbatim>\<open>Setup\<close> of \<^verbatim>\<open>internal/telemetry/otel.go\<close>, \<^verbatim>\<open>Open\<close> of \<^verbatim>\<open>internal/audit/sqlite.go\<close> and the choice
  of \<^verbatim>\<open>NewLoader\<close> whether to reload. What the machine and the libraries answer is the record \<open>host\<close>; a
  failing step ends the process with exit code 1 and the message it logs. Serving and shutting down
  are not part of the model.
\<close>

section \<open>Telemetry\<close>

datatype tracer = NoopProvider | StdoutProvider string

text \<open>\<open>merge\<close> and \<open>stdout\<close> give the error, if any, of building the resource and of the exporter.\<close>

definition Setup :: "(string \<Rightarrow> string option) \<Rightarrow> string option \<Rightarrow> string \<Rightarrow> string \<Rightarrow> go_error + tracer" where
  "Setup merge stdout serviceName exporter =
     (if exporter = '''' \<or> exporter = ''none'' then Inr NoopProvider
      else case merge serviceName of
        Some e \<Rightarrow> Inl (errors_New (''otel resource: '' @ e))
      | None \<Rightarrow>
        if exporter = ''stdout''
        then (case stdout of
            Some e \<Rightarrow> Inl (errors_New (''stdout exporter: '' @ e))
          | None \<Rightarrow> Inr (StdoutProvider serviceName))
        else Inl (errors_New (''unsupported OTEL_EXPORTER '' @ fmt_q exporter @ '' (use stdout|none)'')))"

section \<open>The database file\<close>

text \<open>
  \<open>oe_file\<close> is what the file at a path holds before, if it has tables at all: \<^verbatim>\<open>CREATE TABLE IF NOT EXISTS\<close> leaves
  existing ones alone. \<open>oe_mkdir\<close> is \<^verbatim>\<open>os.MkdirAll(filepath.Dir(path))\<close>.
\<close>

record open_env =
  oe_mkdir :: "string \<Rightarrow> string option"
  oe_sqlOpen :: "string \<Rightarrow> string option"
  oe_exec :: "string option"
  oe_file :: "string \<Rightarrow> database option"

definition busyTimeoutMillis :: nat where "busyTimeoutMillis = 5000"

definition dsn :: "string \<Rightarrow> string" where
  "dsn path = path @ ''?_pragma=busy_timeout('' @ fmt_d busyTimeoutMillis @ '')&_pragma=journal_mode(WAL)&_pragma=foreign_keys(1)''"

definition Open :: "open_env \<Rightarrow> string \<Rightarrow> go_error + database" where
  "Open env path = (case oe_mkdir env path of
       Some e \<Rightarrow> Inl (errors_New (''audit db dir: '' @ e))
     | None \<Rightarrow> (case oe_sqlOpen env (dsn path) of
         Some e \<Rightarrow> Inl (errors_New (''open sqlite: '' @ e))
       | None \<Rightarrow> (case oe_exec env of
           Some e \<Rightarrow> Inl (errors_New e)
         | None \<Rightarrow> Inr (case oe_file env path of None \<Rightarrow> migrate | Some db \<Rightarrow> db))))"

section \<open>The two programs\<close>

record host =
  ho_getenv :: "string \<Rightarrow> string"
  ho_ReadFile :: "string \<Rightarrow> string + string"
  ho_yaml :: yaml_decoder
  ho_now :: time
  ho_merge :: "string \<Rightarrow> string option"
  ho_stdout :: "string option"
  ho_open :: open_env
  ho_dial :: "string \<Rightarrow> string \<Rightarrow> string option"

datatype 'p process = Exited string | Running 'p

text \<open>The loop of \<^verbatim>\<open>NewLoader\<close> runs on a positive interval only.\<close>

definition reload_interval :: "int \<Rightarrow> int option" where
  "reload_interval interval = (if 0 < interval then Some interval else None)"

definition policy_at :: "yaml_decoder \<Rightarrow> int option \<Rightarrow> (Policy.read_result \<times> time) list \<Rightarrow> Loader \<Rightarrow> Loader" where
  "policy_at y interval ticks l = (case interval of None \<Rightarrow> l | Some _ \<Rightarrow> loop y ticks l)"

record http_server =
  hs_Addr :: string
  hs_ReadHeaderTimeout :: int
  hs_ReadTimeout :: int
  hs_IdleTimeout :: int

record gateway =
  gw_keyring :: Keyring
  gw_tracer :: tracer
  gw_loader :: Loader
  gw_reload :: "int option"
  gw_warned :: "string list"
  gw_proxy :: SentryProxy
  gw_db :: database
  gw_temporal :: "string \<times> string"
  gw_taskQueue :: string
  gw_server :: http_server
  gw_shutdownTimeout :: int

definition gateway_main :: "host \<Rightarrow> gateway process" where
  "gateway_main ho = (case LoadFromEnv (ho_getenv ho) of
     Inl _ \<Rightarrow> Exited ''config''
   | Inr cfg \<Rightarrow> (case ParseAgentKeys (cf_AgentKeys cfg) of
     Inl _ \<Rightarrow> Exited ''invalid SENTRYGATE_AGENT_KEYS''
   | Inr keyring \<Rightarrow> (case Setup (ho_merge ho) (ho_stdout ho) (cf_OTelServiceName cfg @ ''-proxy'') (cf_OTelExporter cfg) of
     Inl _ \<Rightarrow> Exited ''telemetry setup failed''
   | Inr tracer \<Rightarrow> (case NewLoader (ho_yaml ho) (ho_ReadFile ho (cf_PolicyPath cfg)) (ho_now ho) of
     Inl _ \<Rightarrow> Exited ''policy load failed''
   | Inr policyLoader \<Rightarrow>
     (let pol = l_current policyLoader;
          warned = filter (\<lambda>a. \<not> HasAgent pol a) (AgentIDs keyring);
          sentry = NewSentryProxy (Some pol) (s_maxParallelTasks pol)
      in case Open (ho_open ho) (cf_AuditDBPath cfg) of
     Inl _ \<Rightarrow> Exited ''audit db open failed''
   | Inr auditStore \<Rightarrow> (case ho_dial ho (cf_TemporalHostPort cfg) (cf_TemporalNamespace cfg) of
     Some _ \<Rightarrow> Exited ''temporal dial failed''
   | None \<Rightarrow> Running \<lparr>gw_keyring = keyring, gw_tracer = tracer, gw_loader = policyLoader,
       gw_reload = reload_interval (cf_PolicyReloadEvery cfg), gw_warned = warned, gw_proxy = sentry, gw_db = auditStore,
       gw_temporal = (cf_TemporalHostPort cfg, cf_TemporalNamespace cfg), gw_taskQueue = cf_TaskQueue cfg,
       gw_server = \<lparr>hs_Addr = cf_Addr cfg, hs_ReadHeaderTimeout = 5 * Second, hs_ReadTimeout = 30 * Second, hs_IdleTimeout = 120 * Second\<rparr>,
       gw_shutdownTimeout = cf_ShutdownTimeout cfg\<rparr>))))))"

record worker =
  wr_tracer :: tracer
  wr_loader :: Loader
  wr_reload :: "int option"
  wr_temporal :: "string \<times> string"
  wr_taskQueue :: string
  wr_healthAddr :: string
  wr_system :: system

definition worker_main :: "host \<Rightarrow> worker process" where
  "worker_main ho =
     (let cfg = LoadWorkerFromEnv (ho_getenv ho) in
      case Setup (ho_merge ho) (ho_stdout ho) (cf_OTelServiceName cfg @ ''-worker'') (cf_OTelExporter cfg) of
     Inl _ \<Rightarrow> Exited ''telemetry setup failed''
   | Inr tracer \<Rightarrow> (case NewLoader (ho_yaml ho) (ho_ReadFile ho (cf_PolicyPath cfg)) (ho_now ho) of
     Inl _ \<Rightarrow> Exited ''policy load failed''
   | Inr policyLoader \<Rightarrow> (case Open (ho_open ho) (cf_AuditDBPath cfg) of
     Inl _ \<Rightarrow> Exited ''audit db open failed''
   | Inr auditStore \<Rightarrow> (case ho_dial ho (cf_TemporalHostPort cfg) (cf_TemporalNamespace cfg) of
     Some _ \<Rightarrow> Exited ''unable to create Temporal client''
   | None \<Rightarrow> Running \<lparr>wr_tracer = tracer, wr_loader = policyLoader, wr_reload = reload_interval (cf_PolicyReloadEvery cfg),
       wr_temporal = (cf_TemporalHostPort cfg, cf_TemporalNamespace cfg), wr_taskQueue = cf_TaskQueue cfg,
       wr_healthAddr = worker_health_addr (ho_getenv ho ''SENTRYGATE_WORKER_HEALTH_ADDR''),
       wr_system = worker_boot auditStore (Some (l_current policyLoader))\<rparr>))))"

section \<open>Facts\<close>

lemma NewLoader_Inr:
  "NewLoader y rd now = Inr l \<Longrightarrow> \<exists>raw. rd = Inr raw \<and> Parse y raw = Inr (l_current l)"
  by (auto simp: NewLoader_def Load_def split: sum.splits)

lemma policy_at_wf:
  assumes "wf_snapshot (l_current l)"
  shows "wf_snapshot (l_current (policy_at y iv ticks l))"
  using assms loop_current [of y ticks l] Parse_wf by (fastforce simp: policy_at_def split: option.splits)

lemma LoadFromEnv_Inr:
  "LoadFromEnv g = Inr cfg \<Longrightarrow> cfg = (baseFromEnv g)\<lparr>cf_AgentKeys := g ''SENTRYGATE_AGENT_KEYS''\<rparr>"
  by (auto simp: LoadFromEnv_def Let_def split: if_splits)

lemma gateway_main_Running:
  assumes "gateway_main ho = Running g"
  obtains cfg where "LoadFromEnv (ho_getenv ho) = Inr cfg" "ParseAgentKeys (cf_AgentKeys cfg) = Inr (gw_keyring g)"
    "NewLoader (ho_yaml ho) (ho_ReadFile ho (cf_PolicyPath cfg)) (ho_now ho) = Inr (gw_loader g)"
    "gw_warned g = filter (\<lambda>a. \<not> HasAgent (l_current (gw_loader g)) a) (AgentIDs (gw_keyring g))"
    "gw_proxy g = NewSentryProxy (Some (l_current (gw_loader g))) (s_maxParallelTasks (l_current (gw_loader g)))"
    "Open (ho_open ho) (cf_AuditDBPath cfg) = Inr (gw_db g)"
  using assms by (auto simp: gateway_main_def Let_def split: sum.splits option.splits)

lemma worker_main_Running:
  assumes "worker_main ho = Running k"
  shows "NewLoader (ho_yaml ho) (ho_ReadFile ho (cf_PolicyPath (baseFromEnv (ho_getenv ho)))) (ho_now ho) = Inr (wr_loader k)"
    "\<exists>db. Open (ho_open ho) (cf_AuditDBPath (baseFromEnv (ho_getenv ho))) = Inr db \<and> wr_system k = worker_boot db (Some (l_current (wr_loader k)))"
  using assms by (auto simp: worker_main_def LoadWorkerFromEnv_def Let_def split: sum.splits option.splits)

lemma undeclared_denied: "\<not> HasAgent s a \<Longrightarrow> d_Verdict (Evaluate (Some s) a p) \<noteq> VerdictAllow"
  by (auto simp: Evaluate_allow_iff HasAgent_def)

section \<open>A sample host\<close>

definition other_keys :: "(string \<times> string) list" where
  "other_keys = [(''b'', ''0123456789abcdef'')]"

lemma other_keys_ok: "valid_pairs other_keys" "list_all (\<lambda>p. CHR '','' \<notin> set (snd p)) other_keys"
  by (simp_all add: other_keys_def valid_pairs_def valid_pair_def keyAgentIDPattern_def class_match_def is_alnum_def
      is_upper_def is_lower_def is_digit_def in_range_def of_char_def MinKeyLength_def maxKeyLength_def
      strip_prefix_None_iff space_seqs_eq bytes_def starts_with_def char_of_def)

definition sample_host :: host where
  "sample_host = \<lparr>ho_getenv = (\<lambda>k. if k = ''SENTRYGATE_AGENT_KEYS'' then print_keys other_keys else if k = ''OTEL_EXPORTER'' then ''none'' else ''''),
     ho_ReadFile = (\<lambda>_. Inr ''policy''), ho_yaml = sample_yaml, ho_now = 0, ho_merge = (\<lambda>_. None), ho_stdout = None,
     ho_open = \<lparr>oe_mkdir = (\<lambda>_. None), oe_sqlOpen = (\<lambda>_. None), oe_exec = None, oe_file = (\<lambda>_. None)\<rparr>, ho_dial = (\<lambda>_ _. None)\<rparr>"

definition sample_snapshot :: Snapshot where
  "sample_snapshot = (document_snapshot sample_doc)\<lparr>s_digest := rawDigest ''policy''\<rparr>"

lemma sample_gateway_runs:
  obtains g where "gateway_main sample_host = Running g" "gw_keyring g = \<lparr>kr_entries = map entry_of other_keys\<rparr>"
    "l_current (gw_loader g) = sample_snapshot" "gw_warned g = [''b'']"
proof -
  have p: "ParseAgentKeys (print_keys other_keys) = Inr \<lparr>kr_entries = map entry_of other_keys\<rparr>"
    by (rule parse_print [OF _ other_keys_ok]) (simp add: other_keys_def)
  have n: "print_keys other_keys \<noteq> ''''" by (simp add: print_keys_def other_keys_def)
  obtain l where l: "NewLoader sample_yaml (Inr ''policy'') 0 = Inr l" "l_current l = sample_snapshot"
    by (simp add: NewLoader_def Load_def sample_parse sample_snapshot_def)
  have w: "filter (\<lambda>a. \<not> HasAgent sample_snapshot a) (AgentIDs \<lparr>kr_entries = map entry_of other_keys\<rparr>) = [''b'']"
    by (simp add: AgentIDs_def other_keys_def entry_of_def HasAgent_def sample_snapshot_def document_snapshot_def sample_doc_def)
  show thesis
    using p n l w by (intro that [of "the_elem (case gateway_main sample_host of Running g \<Rightarrow> {g} | _ \<Rightarrow> {})"])
      (simp_all add: gateway_main_def LoadFromEnv_def baseFromEnv_def envOr_def sample_host_def Setup_def Open_def Let_def)
qed

section \<open>Properties\<close>

text \<open>
  C29. A gateway or a worker that has started runs on a policy that was read from the configured file and
  validated, and on a well formed one ever after, whatever the file becomes; a policy file that cannot
  be read or is not valid stops the process. The gateway's agent keys are the configured ones, and it
  has exactly the evaluation slots the policy asks for. Both work on the database file at the configured
  path: the rows it had, or empty tables.
\<close>

theorem start_policy:
  "(\<forall>g. gateway_main ho = Running g \<longrightarrow>
      (\<exists>raw. ho_ReadFile ho (cf_PolicyPath (baseFromEnv (ho_getenv ho))) = Inr raw \<and> Parse (ho_yaml ho) raw = Inr (l_current (gw_loader g))) \<and>
      (\<forall>ticks. wf_snapshot (l_current (policy_at (ho_yaml ho) (gw_reload g) ticks (gw_loader g)))) \<and>
      int (MaxParallel (gw_proxy g)) = s_maxParallelTasks (l_current (gw_loader g)) \<and>
      ParseAgentKeys (ho_getenv ho ''SENTRYGATE_AGENT_KEYS'') = Inr (gw_keyring g) \<and>
      gw_db g = (case oe_file (ho_open ho) (cf_AuditDBPath (baseFromEnv (ho_getenv ho))) of None \<Rightarrow> migrate | Some db \<Rightarrow> db)) \<and>
   (\<forall>k. worker_main ho = Running k \<longrightarrow>
      (\<exists>raw. ho_ReadFile ho (cf_PolicyPath (baseFromEnv (ho_getenv ho))) = Inr raw \<and> Parse (ho_yaml ho) raw = Inr (l_current (wr_loader k))) \<and>
      (\<forall>ticks. wf_snapshot (l_current (policy_at (ho_yaml ho) (wr_reload k) ticks (wr_loader k)))) \<and>
      sy_policy (wr_system k) = Some (l_current (wr_loader k)) \<and>
      sy_db (wr_system k) = (case oe_file (ho_open ho) (cf_AuditDBPath (baseFromEnv (ho_getenv ho))) of None \<Rightarrow> migrate | Some db \<Rightarrow> db))"
proof (intro conjI allI impI)
  fix g ticks
  assume "gateway_main ho = Running g"
  then obtain cfg where c: "LoadFromEnv (ho_getenv ho) = Inr cfg" "ParseAgentKeys (cf_AgentKeys cfg) = Inr (gw_keyring g)"
    "NewLoader (ho_yaml ho) (ho_ReadFile ho (cf_PolicyPath cfg)) (ho_now ho) = Inr (gw_loader g)"
    "gw_proxy g = NewSentryProxy (Some (l_current (gw_loader g))) (s_maxParallelTasks (l_current (gw_loader g)))"
    "Open (ho_open ho) (cf_AuditDBPath cfg) = Inr (gw_db g)"
    by (rule gateway_main_Running)
  note cfg = LoadFromEnv_Inr [OF c(1)]
  show r: "\<exists>raw. ho_ReadFile ho (cf_PolicyPath (baseFromEnv (ho_getenv ho))) = Inr raw \<and> Parse (ho_yaml ho) raw = Inr (l_current (gw_loader g))"
    using NewLoader_Inr [OF c(3)] cfg by simp
  then have w: "wf_snapshot (l_current (gw_loader g))" using Parse_wf by blast
  then show "wf_snapshot (l_current (policy_at (ho_yaml ho) (gw_reload g) ticks (gw_loader g)))" by (rule policy_at_wf)
  show "int (MaxParallel (gw_proxy g)) = s_maxParallelTasks (l_current (gw_loader g))"
    using c(4) w by (simp add: MaxParallel_def NewSentryProxy_def wf_snapshot_def Let_def)
  show "ParseAgentKeys (ho_getenv ho ''SENTRYGATE_AGENT_KEYS'') = Inr (gw_keyring g)" using c(2) cfg by simp
  show "gw_db g = (case oe_file (ho_open ho) (cf_AuditDBPath (baseFromEnv (ho_getenv ho))) of None \<Rightarrow> migrate | Some db \<Rightarrow> db)"
    using c(5) cfg by (auto simp: Open_def split: option.splits)
next
  fix k ticks
  assume "worker_main ho = Running k"
  note m = worker_main_Running [OF this]
  show "\<exists>raw. ho_ReadFile ho (cf_PolicyPath (baseFromEnv (ho_getenv ho))) = Inr raw \<and> Parse (ho_yaml ho) raw = Inr (l_current (wr_loader k))"
    using NewLoader_Inr [OF m(1)] .
  then have w: "wf_snapshot (l_current (wr_loader k))" using Parse_wf by blast
  then show "wf_snapshot (l_current (policy_at (ho_yaml ho) (wr_reload k) ticks (wr_loader k)))" by (rule policy_at_wf)
  show "sy_policy (wr_system k) = Some (l_current (wr_loader k))" using m(2) by (auto simp: worker_boot_def)
  show "sy_db (wr_system k) = (case oe_file (ho_open ho) (cf_AuditDBPath (baseFromEnv (ho_getenv ho))) of None \<Rightarrow> migrate | Some db \<Rightarrow> db)"
    using m(2) by (auto simp: worker_boot_def Open_def split: option.splits)
qed

theorem start_policy_witness:
  "\<exists>g. gateway_main sample_host = Running g \<and> int (MaxParallel (gw_proxy g)) = 2"
proof -
  obtain g where g: "gateway_main sample_host = Running g" "l_current (gw_loader g) = sample_snapshot"
    by (rule sample_gateway_runs)
  then have "int (MaxParallel (gw_proxy g)) = s_maxParallelTasks sample_snapshot"
    using start_policy [of sample_host] by auto
  then show ?thesis using g by (auto simp: sample_snapshot_def document_snapshot_def sample_doc_def)
qed

text \<open>
  C30. The warning at start-up is exact: it names the agents that have a key but are not declared in the
  policy, and while that policy is in force no request with such a key starts a workflow.
\<close>

theorem start_warning:
  assumes "gateway_main ho = Running g"
  shows "set (gw_warned g) = {a \<in> set (AgentIDs (gw_keyring g)). \<not> HasAgent (l_current (gw_loader g)) a} \<and>
    (Resolve (gw_keyring g) (rq_apiKey rq) = Some a \<and> a \<in> set (gw_warned g) \<and> re_proxy env = gw_proxy g \<longrightarrow>
      snd (snd (newHandler (gateway_api (gw_keyring g) (gw_taskQueue g) execute) jd env rq (s, w))) = w)"
proof (intro conjI impI)
  obtain cfg where c: "gw_warned g = filter (\<lambda>a. \<not> HasAgent (l_current (gw_loader g)) a) (AgentIDs (gw_keyring g))"
    "gw_proxy g = NewSentryProxy (Some (l_current (gw_loader g))) (s_maxParallelTasks (l_current (gw_loader g)))"
    by (rule gateway_main_Running [OF assms])
  then show "set (gw_warned g) = {a \<in> set (AgentIDs (gw_keyring g)). \<not> HasAgent (l_current (gw_loader g)) a}" by auto
  assume "Resolve (gw_keyring g) (rq_apiKey rq) = Some a \<and> a \<in> set (gw_warned g) \<and> re_proxy env = gw_proxy g"
  then have r: "Resolve (gw_keyring g) (rq_apiKey rq) = Some a" "a \<in> set (gw_warned g)" "re_proxy env = gw_proxy g" by simp_all
  let ?a = "gateway_api (gw_keyring g) (gw_taskQueue g) execute"
  obtain rs s' w' where h: "newHandler ?a jd env rq (s, w) = (rs, s', w')" using prod_cases3 by metis
  show "snd (snd (newHandler ?a jd env rq (s, w))) = w"
  proof (rule ccontr)
    assume "snd (snd (newHandler ?a jd env rq (s, w))) \<noteq> w"
    then have w: "w' \<noteq> w" and "snd (newHandler ?a jd env rq (s, w)) \<noteq> (s, w)" using h by auto
    from newHandler_changes [OF this(2)] r(1) have "intercept ?a jd env (rq_body rq) (Some a) (s, w) = (rs, s', w')"
      using h by (auto simp: gateway_api_def)
    then obtain p where "d_Verdict (Evaluate (sp_policy (re_proxy env)) a p) = VerdictAllow"
      using w by (rule intercept_starts) (auto simp: judged_def AgentIDFromContext_def split: if_splits)
    moreover have "\<not> HasAgent (l_current (gw_loader g)) a" using r(2) c(1) by simp
    ultimately show False using undeclared_denied r(3) c(2) by (simp add: NewSentryProxy_def Let_def)
  qed
qed

theorem start_warning_witness:
  "\<exists>g. gateway_main sample_host = Running g \<and> gw_warned g = [''b''] \<and>
     snd (snd (newHandler (gateway_api (gw_keyring g) (gw_taskQueue g) (\<lambda>_ q ws. (Started ''w'' ''r'', q # ws))) sample_jd
        ((sample_request_env ok_env)\<lparr>re_proxy := gw_proxy g\<rparr>) sample_rq (migrate, []))) = []"
proof -
  obtain g where g: "gateway_main sample_host = Running g" "gw_keyring g = \<lparr>kr_entries = map entry_of other_keys\<rparr>" "gw_warned g = [''b'']"
    by (rule sample_gateway_runs)
  have "Resolve (gw_keyring g) (rq_apiKey sample_rq) = Some ''b''"
    unfolding g(2) by (subst Resolve_iff) (simp_all add: other_keys_def sample_rq_def)
  then show ?thesis
    using g start_warning [OF g(1), where rq = sample_rq and a = "''b''" and env = "(sample_request_env ok_env)\<lparr>re_proxy := gw_proxy g\<rparr>"
        and execute = "\<lambda>_ q ws. (Started ''w'' ''r'', q # ws)" and jd = sample_jd and s = migrate and w = "[]"]
    by (intro exI [of _ g]) simp
qed

end
