(* ===== verification/Saga.thy ===== *)
theory Saga
  imports Activities
begin

text \<open>
  \<^verbatim>\<open>workflows/saga.go\<close>: the workflow \<^verbatim>\<open>SentryGateSagaWorkflow\<close>, phase by phase, and its
  reconciliation loop.

  Temporal is a parameter: \<open>temporal\<close> gives, for each activity the workflow schedules, the
  result that \<^verbatim>\<open>Get\<close> delivers (after whatever attempts, timeouts and lost workers), how long it
  took, and what happened to the world \<open>'w\<close>, about which nothing is assumed. An error of
  \<^verbatim>\<open>Get\<close> carries in \<open>err_type\<close> the type of the application error that \<^verbatim>\<open>errors.As\<close> finds in
  it, or the empty string. \<^verbatim>\<open>workflow.Now\<close> never goes back, and a timer fires no earlier than
  its duration. The state of a run is the world, the clock, the audit sequence number and the
  history of what it scheduled with the results; logging is not modelled.
\<close>

section \<open>Activity options and contexts\<close>

record ActivityOptions =
  ao_StartToCloseTimeout :: nat
  ao_InitialInterval :: nat
  ao_BackoffCoefficient :: nat
  ao_MaximumAttempts :: nat
  ao_NonRetryableErrorTypes :: "string list"

text \<open>Durations in nanoseconds.\<close>

definition millis :: nat where "millis = 1000000"
definition seconds :: nat where "seconds = 1000 * millis"
definition minutes :: nat where "minutes = 60 * seconds"
definition hours :: nat where "hours = 60 * minutes"

definition NonRetryableErrorType :: string where
  "NonRetryableErrorType = ''NON_RETRYABLE_INFRASTRUCTURE_FAULT''"

definition activityOpts :: ActivityOptions where
  "activityOpts = \<lparr>ao_StartToCloseTimeout = 10 * seconds, ao_InitialInterval = 1 * seconds,
     ao_BackoffCoefficient = 2, ao_MaximumAttempts = 1, ao_NonRetryableErrorTypes = [NonRetryableErrorType]\<rparr>"

definition bookkeepingOpts :: ActivityOptions where
  "bookkeepingOpts = \<lparr>ao_StartToCloseTimeout = 5 * seconds, ao_InitialInterval = 500 * millis,
     ao_BackoffCoefficient = 2, ao_MaximumAttempts = 3, ao_NonRetryableErrorTypes = []\<rparr>"

record workflow_ctx =
  wc_disconnected :: bool
  wc_opts :: ActivityOptions

definition mainCtx :: workflow_ctx where
  "mainCtx = \<lparr>wc_disconnected = False, wc_opts = activityOpts\<rparr>"

definition bookCtx :: workflow_ctx where
  "bookCtx = \<lparr>wc_disconnected = False, wc_opts = bookkeepingOpts\<rparr>"

definition claimCtx :: workflow_ctx where
  "claimCtx = \<lparr>wc_disconnected = True, wc_opts = bookkeepingOpts\<rparr>"

definition compCtx :: workflow_ctx where
  "compCtx = \<lparr>wc_disconnected = True, wc_opts = activityOpts\<rparr>"

section \<open>Environment, history and state\<close>

record 'w temporal =
  te_SideEffect :: "'w \<Rightarrow> (go_error + string) \<times> nat \<times> 'w"
  te_VerifyIngressDecision :: "workflow_ctx \<Rightarrow> ExecutionRequest \<Rightarrow> 'w \<Rightarrow> (go_error + IngressVerification) \<times> nat \<times> 'w"
  te_ClaimExecution :: "workflow_ctx \<Rightarrow> ClaimRequest \<Rightarrow> 'w \<Rightarrow> (go_error + ClaimResult) \<times> nat \<times> 'w"
  te_AdvanceExecutionClaim :: "workflow_ctx \<Rightarrow> ClaimTransition \<Rightarrow> 'w \<Rightarrow> go_error option \<times> nat \<times> 'w"
  te_EvaluateExecution :: "workflow_ctx \<Rightarrow> ExecutionRequest \<Rightarrow> 'w \<Rightarrow> (go_error + Decision) \<times> nat \<times> 'w"
  te_RecordDecision :: "workflow_ctx \<Rightarrow> DecisionRecord \<Rightarrow> 'w \<Rightarrow> go_error option \<times> nat \<times> 'w"
  te_RecordAuditTrail :: "workflow_ctx \<Rightarrow> AuditRecord \<Rightarrow> 'w \<Rightarrow> go_error option \<times> nat \<times> 'w"
  te_DispatchConfig :: "workflow_ctx \<Rightarrow> FencedDispatch \<Rightarrow> 'w \<Rightarrow> (go_error + DispatchOutcome) \<times> nat \<times> 'w"
  te_ReconcileDispatch :: "workflow_ctx \<Rightarrow> DispatchRequest \<Rightarrow> 'w \<Rightarrow> (go_error + DispatchOutcome) \<times> nat \<times> 'w"
  te_RevertStateCompensation :: "workflow_ctx \<Rightarrow> DispatchRequest \<Rightarrow> 'w \<Rightarrow> go_error option \<times> nat \<times> 'w"
  te_Sleep :: "nat \<Rightarrow> 'w \<Rightarrow> go_error option \<times> nat \<times> 'w"

datatype saga_event =
    EvToken "go_error + string"
  | EvVerify workflow_ctx ExecutionRequest "go_error + IngressVerification"
  | EvClaim workflow_ctx ClaimRequest "go_error + ClaimResult"
  | EvAdvance workflow_ctx ClaimTransition "go_error option"
  | EvEvaluate workflow_ctx ExecutionRequest "go_error + Decision"
  | EvDecision workflow_ctx DecisionRecord "go_error option"
  | EvAudit workflow_ctx AuditRecord "go_error option"
  | EvDispatch workflow_ctx FencedDispatch "go_error + DispatchOutcome"
  | EvReconcile workflow_ctx DispatchRequest "go_error + DispatchOutcome"
  | EvCompensate workflow_ctx DispatchRequest "go_error option"
  | EvSleep nat "go_error option"

record 'w saga_state =
  sg_world :: 'w
  sg_now :: time
  sg_auditSeq :: nat
  sg_history :: "saga_event list"

record saga_info =
  si_req :: ExecutionRequest
  si_WorkflowID :: string
  si_RunID :: string

text \<open>\<^verbatim>\<open>workflow.ExecuteActivity(ctx, ...).Get(ctx, ...)\<close>: the clock moves on, the history grows.\<close>

definition sg_step :: "('r \<Rightarrow> saga_event) \<Rightarrow> ('w \<Rightarrow> 'r \<times> nat \<times> 'w) \<Rightarrow> 'w saga_state \<Rightarrow> 'r \<times> 'w saga_state" where
  "sg_step ev act s = (case act (sg_world s) of (r, dt, w) \<Rightarrow>
     (r, s\<lparr>sg_world := w, sg_now := sg_now s + int dt, sg_history := sg_history s @ [ev r]\<rparr>))"

text \<open>\<^verbatim>\<open>workflow.Sleep\<close>: on success at least the duration has passed.\<close>

definition sg_sleep :: "'w temporal \<Rightarrow> nat \<Rightarrow> 'w saga_state \<Rightarrow> go_error option \<times> 'w saga_state" where
  "sg_sleep te d s = (case te_Sleep te d (sg_world s) of (r, late, w) \<Rightarrow>
     (r, s\<lparr>sg_world := w, sg_now := sg_now s + int (case r of None \<Rightarrow> d + late | Some _ \<Rightarrow> late),
          sg_history := sg_history s @ [EvSleep d r]\<rparr>))"

section \<open>Helpers of the workflow\<close>

definition fenceFailure :: "go_error + DispatchOutcome \<Rightarrow> string" where
  "fenceFailure r = (case r of
       Inl e \<Rightarrow> if err_type e \<in> {ExecutionFenceRejectedErrorType, ExecutionFenceUnknownErrorType}
                then err_type e else ''''
     | Inr _ \<Rightarrow> '''')"

definition auditVerdict :: "DispatchOutcome \<Rightarrow> AuditVerdict" where
  "auditVerdict o' = (case oc_Status o' of
       OutcomeSuccess \<Rightarrow> AuditVerdictPass
     | OutcomeFailure \<Rightarrow> AuditVerdictFail
     | _ \<Rightarrow> AuditVerdictUnknown)"

definition outcomeDetail :: "DispatchRequest \<Rightarrow> DispatchOutcome \<Rightarrow> string" where
  "outcomeDetail q o' = ''outcome='' @ OutcomeStatus_str (oc_Status o')
     @ '' partially_applied='' @ fmt_t (oc_PartiallyApplied o')
     @ '' idempotency_key='' @ dq_IdempotencyKey q @ '' target='' @ p_TargetID (dq_Proposal q)
     @ '' detail='' @ fmt_q (oc_Detail o')"

definition joinReasons :: "ReasonCode list \<Rightarrow> string" where
  "joinReasons r = strings_Join (map ReasonCode_str r) '',''"

definition audit_failed :: "go_error \<Rightarrow> go_error" where
  "audit_failed e = wrap_error audit_persist_failed (err_text audit_persist_failed @ '': '' @ err_text e)"

text \<open>The closures \<^verbatim>\<open>record\<close>, \<^verbatim>\<open>recordDecision\<close>, \<^verbatim>\<open>reject\<close> and \<^verbatim>\<open>transition\<close>.\<close>

definition record_phase ::
  "'w temporal \<Rightarrow> saga_info \<Rightarrow> workflow_ctx \<Rightarrow> AuditPhase \<Rightarrow> AuditVerdict \<Rightarrow> string \<Rightarrow> 'w saga_state \<Rightarrow>
     go_error option \<times> 'w saga_state" where
  "record_phase te i auditCtx phase verdict detail s0 =
     (let s = s0\<lparr>sg_auditSeq := sg_auditSeq s0 + 1\<rparr>;
          prop = er_Proposal (si_req i);
          r = newAuditRecord (p_ID prop) (si_WorkflowID i) (si_RunID i) phase verdict prop detail
                (sg_now s) (sg_auditSeq s)
      in sg_step (EvAudit auditCtx r) (te_RecordAuditTrail te auditCtx r) s)"

definition decision_record :: "saga_info \<Rightarrow> Decision \<Rightarrow> time \<Rightarrow> DecisionRecord" where
  "decision_record i dec now =
     (let req = si_req i; prop = er_Proposal req in
      \<lparr>dr_DecisionID = ''wf_'' @ si_WorkflowID i @ ''_'' @ si_RunID i, dr_Stage = StageWorkflowRevalidation,
       dr_ProposalID = p_ID prop, dr_AgentID = er_AgentID req, dr_RequestHash = RequestHash prop,
       dr_Command = p_Type prop, dr_TargetID = p_TargetID prop, dr_Environment = d_Environment dec,
       dr_Verdict = d_Verdict dec, dr_Reasons = d_Reasons dec, dr_PolicyVersion = d_PolicyVersion dec,
       dr_PolicyDigest = d_PolicyDigest dec, dr_WorkflowID = si_WorkflowID i, dr_TraceID = '''',
       dr_RecordedAt = now\<rparr>)"

definition recordDecision ::
  "'w temporal \<Rightarrow> saga_info \<Rightarrow> Decision \<Rightarrow> 'w saga_state \<Rightarrow> go_error option \<times> 'w saga_state" where
  "recordDecision te i dec s =
     (let r = decision_record i dec (sg_now s)
      in sg_step (EvDecision bookCtx r) (te_RecordDecision te bookCtx r) s)"

definition reject ::
  "'w temporal \<Rightarrow> saga_info \<Rightarrow> string \<Rightarrow> ReasonCode \<Rightarrow> string \<Rightarrow> 'w saga_state \<Rightarrow> go_error \<times> 'w saga_state" where
  "reject te i errType reason detail s =
     (let rejection = zero_Decision\<lparr>d_Verdict := VerdictDeny, d_Reasons := [reason]\<rparr>;
          (_, s) = recordDecision te i rejection s;
          auditDetail = ''execution rejected: reason='' @ ReasonCode_str reason @ '' detail='' @ fmt_q detail
            @ '' ingress_decision_id='' @ fmt_q (er_IngressDecisionID (si_req i));
          (_, s) = record_phase te i bookCtx AuditPhaseRevalidation AuditVerdictFail auditDetail s
      in (app_error (''execution rejected: '' @ ReasonCode_str reason) errType None, s))"

definition transition ::
  "'w temporal \<Rightarrow> saga_info \<Rightarrow> string \<Rightarrow> ClaimState \<Rightarrow> 'w saga_state \<Rightarrow> go_error option \<times> 'w saga_state" where
  "transition te i token to s =
     (let t = \<lparr>ct_DecisionID = er_IngressDecisionID (si_req i), ct_Token = token, ct_To = to\<rparr>
      in sg_step (EvAdvance claimCtx t) (te_AdvanceExecutionClaim te claimCtx t) s)"

definition dispatch_request :: "saga_info \<Rightarrow> DispatchRequest" where
  "dispatch_request i = \<lparr>dq_IdempotencyKey = ExecutionKey (er_IngressDecisionID (si_req i)),
     dq_Proposal = er_Proposal (si_req i)\<rparr>"

definition fenced_dispatch :: "saga_info \<Rightarrow> string \<Rightarrow> FencedDispatch" where
  "fenced_dispatch i token = \<lparr>fd_DecisionID = er_IngressDecisionID (si_req i), fd_Token = token,
     fd_Dispatch = dispatch_request i\<rparr>"

section \<open>Reconciliation\<close>

definition reconcileFirstWait :: nat where "reconcileFirstWait = 10 * seconds"
definition reconcileMaxWait :: nat where "reconcileMaxWait = 30 * minutes"
definition reconcileWindow :: nat where "reconcileWindow = 24 * hours"

text \<open>The value of \<^verbatim>\<open>wait\<close> in round \<open>n\<close> of the loop.\<close>

primrec reconcile_wait :: "nat \<Rightarrow> nat" where
  "reconcile_wait 0 = reconcileFirstWait"
| "reconcile_wait (Suc n) = min (2 * reconcile_wait n) reconcileMaxWait"

lemmas duration_defs = millis_def seconds_def minutes_def hours_def reconcileFirstWait_def
  reconcileMaxWait_def reconcileWindow_def

lemma reconcile_wait_pos: "0 < reconcile_wait n"
  by (induction n) (auto simp: duration_defs)

text \<open>One question to the adapter.\<close>

definition reconcile_ask ::
  "'w temporal \<Rightarrow> DispatchRequest \<Rightarrow> 'w saga_state \<Rightarrow> DispatchOutcome \<times> 'w saga_state" where
  "reconcile_ask te q s =
     (case sg_step (EvReconcile bookCtx q) (te_ReconcileDispatch te bookCtx q) s of (r, s) \<Rightarrow>
        (Checked (case r of
            Inl e \<Rightarrow> UnknownOutcome (''reconciliation activity returned no outcome: '' @ err_text e)
          | Inr o' \<Rightarrow> o'), s))"

lemma sg_step_now: "sg_step ev act s = (r, s') \<Longrightarrow> sg_now s \<le> sg_now s'"
  by (auto simp: sg_step_def split: prod.splits)

lemma reconcile_ask_now: "reconcile_ask te q s = (o', s') \<Longrightarrow> sg_now s \<le> sg_now s'"
  by (auto simp: reconcile_ask_def dest: sg_step_now split: prod.splits)

lemma sg_sleep_now: "sg_sleep te d s = (None, s') \<Longrightarrow> sg_now s + int d \<le> sg_now s'"
  by (auto simp: sg_sleep_def split: prod.splits)

function reconcile_loop ::
  "'w temporal \<Rightarrow> DispatchRequest \<Rightarrow> time \<Rightarrow> nat \<Rightarrow> 'w saga_state \<Rightarrow> DispatchOutcome \<times> 'w saga_state" where
  "reconcile_loop te q start n s =
     (case reconcile_ask te q s of (o', s1) \<Rightarrow>
        if oc_Status o' \<noteq> OutcomeUnknown \<or> sg_now s1 - start + int (reconcile_wait n) > int reconcileWindow
        then (o', s1)
        else (case sg_sleep te (reconcile_wait n) s1 of
            (Some _, s2) \<Rightarrow> (o', s2)
          | (None, s2) \<Rightarrow> reconcile_loop te q start (Suc n) s2))"
  by pat_completeness auto

termination
proof (relation "measure (\<lambda>(te, q, start, n, s). nat (int reconcileWindow + 1 - (sg_now s - start)))", goal_cases)
  case 1
  show ?case by simp
next
  case (2 te q start n s o' s1 r s2)
  have "sg_now s \<le> sg_now s1" using 2 by (intro reconcile_ask_now) (rule sym)
  moreover have "sg_now s1 + int (reconcile_wait n) \<le> sg_now s2" using 2 by (intro sg_sleep_now) simp
  ultimately show ?case using 2 reconcile_wait_pos [of n] by simp
qed

declare reconcile_loop.simps [simp del]

definition reconcileDispatch ::
  "'w temporal \<Rightarrow> DispatchRequest \<Rightarrow> 'w saga_state \<Rightarrow> DispatchOutcome \<times> 'w saga_state" where
  "reconcileDispatch te q s = reconcile_loop te q (sg_now s) 0 s"

section \<open>The phases after dispatch\<close>

definition success_phase ::
  "'w temporal \<Rightarrow> saga_info \<Rightarrow> string \<Rightarrow> go_error option \<Rightarrow> 'w saga_state \<Rightarrow> go_error option \<times> 'w saga_state" where
  "success_phase te i token auditErr s =
     (case transition te i token ClaimStateCompleted s of
        (Some e, s) \<Rightarrow> (Some (audit_failed e), s)
      | (None, s) \<Rightarrow> (case auditErr of
          Some e \<Rightarrow> (Some (audit_failed e), s)
        | None \<Rightarrow> (case record_phase te i claimCtx AuditPhaseWorkflowComplete AuditVerdictPass
              ''workflow completed without compensation'' s of
            (Some e, s) \<Rightarrow> (Some (audit_failed e), s)
          | (None, s) \<Rightarrow> (None, s))))"

definition fail_workflow ::
  "'w temporal \<Rightarrow> saga_info \<Rightarrow> string \<Rightarrow> 'w saga_state \<Rightarrow> go_error option \<times> 'w saga_state" where
  "fail_workflow te i failure s =
     (case record_phase te i claimCtx AuditPhaseWorkflowFailed AuditVerdictFail failure s of
        (_, s) \<Rightarrow> (Some (app_error failure DispatchFailedErrorType None), s))"

definition failure_phase ::
  "'w temporal \<Rightarrow> saga_info \<Rightarrow> string \<Rightarrow> DispatchOutcome \<Rightarrow> 'w saga_state \<Rightarrow> go_error option \<times> 'w saga_state" where
  "failure_phase te i token outcome s =
     (case transition te i token ClaimStateFailed s of (_, s) \<Rightarrow>
        if oc_PartiallyApplied outcome
        then (case sg_step (EvCompensate compCtx (dispatch_request i))
                     (te_RevertStateCompensation te compCtx (dispatch_request i)) s of
            (Some e, s) \<Rightarrow>
              (case record_phase te i claimCtx AuditPhaseCompensation AuditVerdictFail (err_text e) s of (_, s) \<Rightarrow>
                 fail_workflow te i (''dispatch partly applied and compensation failed: '' @ err_text e) s)
          | (None, s) \<Rightarrow>
              (case record_phase te i claimCtx AuditPhaseCompensation AuditVerdictPass
                      ''compensation activity completed'' s of (_, s) \<Rightarrow>
                 fail_workflow te i (''dispatch partly applied and compensation ran: '' @ oc_Detail outcome) s))
        else fail_workflow te i (''dispatch failed: '' @ oc_Detail outcome) s)"

definition confirmed_phase ::
  "'w temporal \<Rightarrow> saga_info \<Rightarrow> string \<Rightarrow> DispatchOutcome \<Rightarrow> go_error option \<Rightarrow> 'w saga_state \<Rightarrow>
     go_error option \<times> 'w saga_state" where
  "confirmed_phase te i token outcome auditErr s =
     (if oc_Status outcome = OutcomeFailure then failure_phase te i token outcome s
      else success_phase te i token auditErr s)"

definition unknown_phase ::
  "'w temporal \<Rightarrow> saga_info \<Rightarrow> string \<Rightarrow> 'w saga_state \<Rightarrow> go_error option \<times> 'w saga_state" where
  "unknown_phase te i token s =
     (case transition te i token ClaimStateReconciliationRequired s of (_, s) \<Rightarrow>
      case reconcileDispatch te (dispatch_request i) s of (outcome, s) \<Rightarrow>
      case record_phase te i claimCtx AuditPhaseReconciliation (auditVerdict outcome)
             (outcomeDetail (dispatch_request i) outcome) s of (auditErr, s) \<Rightarrow>
        if oc_Status outcome = OutcomeUnknown
        then (Some (app_error
                ''dispatch outcome unknown after reconciliation; execution claim left in RECONCILIATION_REQUIRED''
                DispatchOutcomeUnknownErrorType None), s)
        else confirmed_phase te i token outcome auditErr s)"

definition outcome_phase ::
  "'w temporal \<Rightarrow> saga_info \<Rightarrow> string \<Rightarrow> DispatchOutcome \<Rightarrow> go_error option \<Rightarrow> 'w saga_state \<Rightarrow>
     go_error option \<times> 'w saga_state" where
  "outcome_phase te i token outcome auditErr s =
     (if oc_Status outcome = OutcomeUnknown then unknown_phase te i token s
      else confirmed_phase te i token outcome auditErr s)"

section \<open>Dispatch\<close>

definition fence_failed_phase ::
  "'w temporal \<Rightarrow> saga_info \<Rightarrow> string \<Rightarrow> go_error \<Rightarrow> 'w saga_state \<Rightarrow> go_error option \<times> 'w saga_state" where
  "fence_failed_phase te i token e s =
     (case transition te i token ClaimStateReleased s of (releaseErr, s) \<Rightarrow>
        if releaseErr = None \<or> err_type e = ExecutionFenceRejectedErrorType
        then (case record_phase te i claimCtx AuditPhaseExecutionFence AuditVerdictFail
                (''adapter not called: released='' @ fmt_t (releaseErr = None) @ '' ingress_decision_id=''
                  @ er_IngressDecisionID (si_req i) @ '' error='' @ fmt_q (err_text e)) s of (_, s) \<Rightarrow>
              (Some (app_error ''execution fence not acquired; proposal not executed''
                 ExecutionClaimRejectedErrorType (Some e)), s))
        else
          let outcome = UnknownOutcome (''execution fence may have committed; adapter not called: '' @ err_text e)
          in case record_phase te i claimCtx AuditPhaseExecutionFence AuditVerdictUnknown
                    (outcomeDetail (dispatch_request i) outcome) s of (auditErr, s) \<Rightarrow>
               outcome_phase te i token outcome auditErr s)"

definition dispatch_phase ::
  "'w temporal \<Rightarrow> saga_info \<Rightarrow> string \<Rightarrow> 'w saga_state \<Rightarrow> go_error option \<times> 'w saga_state" where
  "dispatch_phase te i token s =
     (let fenced = fenced_dispatch i token in
      case sg_step (EvDispatch mainCtx fenced) (te_DispatchConfig te mainCtx fenced) s of (r, s) \<Rightarrow>
        if fenceFailure r \<noteq> '''' then fence_failed_phase te i token (projl r) s
        else
          let outcome = Checked (case r of
                  Inl e \<Rightarrow> UnknownOutcome (''dispatch activity returned no outcome: '' @ err_text e)
                | Inr o' \<Rightarrow> o')
          in case record_phase te i claimCtx AuditPhaseDispatch (auditVerdict outcome)
                    (outcomeDetail (dispatch_request i) outcome) s of (auditErr, s) \<Rightarrow>
               outcome_phase te i token outcome auditErr s)"

section \<open>The phases before dispatch\<close>

text \<open>
  From the claim on, a phase also says whether the deferred function has to give the claim back:
  \<^verbatim>\<open>mayHoldClaim && !dispatching\<close> at the return.
\<close>

definition revalidate_phase ::
  "'w temporal \<Rightarrow> saga_info \<Rightarrow> string \<Rightarrow> 'w saga_state \<Rightarrow> go_error option \<times> bool \<times> 'w saga_state" where
  "revalidate_phase te i token s =
     (let req = si_req i in
      case sg_step (EvEvaluate bookCtx req) (te_EvaluateExecution te bookCtx req) s of
        (Inl e, s) \<Rightarrow> (Some (app_error ''re-validation unavailable; proposal not executed''
           RevalidationDeniedErrorType (Some e)), True, s)
      | (Inr dec, s) \<Rightarrow>
          (case recordDecision te i dec s of (recErr, s) \<Rightarrow>
           let detail = ''verdict='' @ Verdict_str (d_Verdict dec) @ '' reasons='' @ joinReasons (d_Reasons dec)
                 @ '' policy_version='' @ d_PolicyVersion dec @ '' ingress_decision_id='' @ er_IngressDecisionID req
           in if d_Verdict dec \<noteq> VerdictAllow
              then (case record_phase te i bookCtx AuditPhaseRevalidation AuditVerdictFail detail s of (_, s) \<Rightarrow>
                (Some (app_error (''proposal denied at workflow re-validation: '' @ Verdict_str (d_Verdict dec)
                   @ '' '' @ joinReasons (d_Reasons dec)) RevalidationDeniedErrorType None), True, s))
              else (case recErr of
                  Some e \<Rightarrow> (Some (audit_failed e), True, s)
                | None \<Rightarrow>
                    (case record_phase te i bookCtx AuditPhaseRevalidation AuditVerdictPass detail s of
                       (Some e, s) \<Rightarrow> (Some (audit_failed e), True, s)
                     | (None, s) \<Rightarrow> (case dispatch_phase te i token s of (r, s) \<Rightarrow> (r, False, s))))))"

definition claim_phase ::
  "'w temporal \<Rightarrow> saga_info \<Rightarrow> string \<Rightarrow> 'w saga_state \<Rightarrow> go_error option \<times> bool \<times> 'w saga_state" where
  "claim_phase te i token s =
     (let q = \<lparr>cr_DecisionID = er_IngressDecisionID (si_req i), cr_Token = token\<rparr> in
      case sg_step (EvClaim bookCtx q) (te_ClaimExecution te bookCtx q) s of
        (Inl e, s) \<Rightarrow> (Some (app_error ''execution claim could not be acquired; proposal not executed''
           ExecutionClaimRejectedErrorType (Some e)), True, s)
      | (Inr claim, s) \<Rightarrow>
          if \<not> cl_Claimed claim
          then (case reject te i ExecutionClaimRejectedErrorType (cl_Reason claim) (cl_Detail claim) s of
              (e, s) \<Rightarrow> (Some e, False, s))
          else revalidate_phase te i token s)"

text \<open>The claim with its deferred release.\<close>

definition claimed_run ::
  "'w temporal \<Rightarrow> saga_info \<Rightarrow> string \<Rightarrow> 'w saga_state \<Rightarrow> go_error option \<times> 'w saga_state" where
  "claimed_run te i token s =
     (case claim_phase te i token s of (r, release, s) \<Rightarrow>
        if release then (r, snd (transition te i token ClaimStateReleased s)) else (r, s))"

definition SentryGateSagaWorkflow ::
  "'w temporal \<Rightarrow> saga_info \<Rightarrow> 'w saga_state \<Rightarrow> go_error option \<times> 'w saga_state" where
  "SentryGateSagaWorkflow te i s =
     (let req = si_req i in
      case sg_step (EvVerify bookCtx req) (te_VerifyIngressDecision te bookCtx req) s of
        (Inl e, s) \<Rightarrow> (Some (app_error ''ingress decision could not be verified; proposal not executed''
           IngressDecisionInvalidErrorType (Some e)), s)
      | (Inr ingress, s) \<Rightarrow>
          if \<not> iv_Valid ingress
          then (case reject te i IngressDecisionInvalidErrorType (iv_Reason ingress) (iv_Detail ingress) s of
              (e, s) \<Rightarrow> (Some e, s))
          else (case sg_step EvToken (te_SideEffect te) s of
              (Inl e, s) \<Rightarrow> (Some (app_error ''execution token unavailable; proposal not executed''
                 ExecutionClaimRejectedErrorType (Some e)), s)
            | (Inr token, s) \<Rightarrow> claimed_run te i token s))"

definition start_state :: "'w \<Rightarrow> time \<Rightarrow> 'w saga_state" where
  "start_state w now = \<lparr>sg_world = w, sg_now = now, sg_auditSeq = 0, sg_history = []\<rparr>"

end
