(* ===== verification/Saga_Protocol.thy ===== *)
theory Saga_Protocol
  imports Saga
begin

text \<open>
  The protocol a run of the workflow keeps, whatever its environment does. \<open>allowed\<close> says, event
  by event, what must already have happened in the history when the workflow schedules it;
  \<open>legal\<close> is a history in which every event was allowed. The main fact is that every run of
  \<^verbatim>\<open>SentryGateSagaWorkflow\<close> produces a legal history; the safety properties of the workflow are
  read off \<open>allowed\<close>.
\<close>

section \<open>Questions to a history\<close>

definition verified :: "saga_info \<Rightarrow> saga_event list \<Rightarrow> bool" where
  "verified i h = list_ex (\<lambda>e. case e of
     EvVerify _ q (Inr v) \<Rightarrow> q = si_req i \<and> iv_Valid v | _ \<Rightarrow> False) h"

definition has_token :: "saga_event list \<Rightarrow> string \<Rightarrow> bool" where
  "has_token h t = list_ex (\<lambda>e. e = EvToken (Inr t)) h"

definition is_claim :: "saga_event \<Rightarrow> bool" where
  "is_claim e = (case e of EvClaim _ _ _ \<Rightarrow> True | _ \<Rightarrow> False)"

definition claim_granted :: "saga_info \<Rightarrow> saga_event list \<Rightarrow> string \<Rightarrow> bool" where
  "claim_granted i h t = list_ex (\<lambda>e. case e of
     EvClaim _ q (Inr c) \<Rightarrow> q = \<lparr>cr_DecisionID = er_IngressDecisionID (si_req i), cr_Token = t\<rparr> \<and> cl_Claimed c
   | _ \<Rightarrow> False) h"

definition revalidated :: "saga_info \<Rightarrow> saga_event list \<Rightarrow> bool" where
  "revalidated i h = list_ex (\<lambda>e. case e of
     EvEvaluate _ q (Inr d) \<Rightarrow> q = si_req i \<and> d_Verdict d = VerdictAllow | _ \<Rightarrow> False) h"

definition is_decision :: "saga_event \<Rightarrow> bool" where
  "is_decision e = (case e of EvDecision _ _ _ \<Rightarrow> True | _ \<Rightarrow> False)"

definition allow_recorded :: "saga_event list \<Rightarrow> bool" where
  "allow_recorded h = list_ex (\<lambda>e. case e of
     EvDecision _ r None \<Rightarrow> dr_Verdict r = VerdictAllow \<and> dr_Stage r = StageWorkflowRevalidation | _ \<Rightarrow> False) h"

definition allow_audited :: "saga_event list \<Rightarrow> bool" where
  "allow_audited h = list_ex (\<lambda>e. case e of
     EvAudit _ r None \<Rightarrow> ar_Phase r = AuditPhaseRevalidation \<and> ar_Verdict r = AuditVerdictPass | _ \<Rightarrow> False) h"

definition is_dispatch :: "saga_event \<Rightarrow> bool" where
  "is_dispatch e = (case e of EvDispatch _ _ _ \<Rightarrow> True | _ \<Rightarrow> False)"

definition fence_failed :: "saga_event list \<Rightarrow> bool" where
  "fence_failed h = list_ex (\<lambda>e. case e of EvDispatch _ _ r \<Rightarrow> fenceFailure r \<noteq> '''' | _ \<Rightarrow> False) h"

text \<open>The outcomes that the adapter reported through an activity.\<close>

definition reported :: "saga_event \<Rightarrow> DispatchOutcome option" where
  "reported e = (case e of
     EvDispatch _ _ (Inr o') \<Rightarrow> Some (Checked o') | EvReconcile _ _ (Inr o') \<Rightarrow> Some (Checked o') | _ \<Rightarrow> None)"

definition confirmed :: "saga_event list \<Rightarrow> OutcomeStatus \<Rightarrow> bool" where
  "confirmed h st = list_ex (\<lambda>e. case reported e of Some o' \<Rightarrow> oc_Status o' = st | None \<Rightarrow> False) h"

definition partly_applied :: "saga_event list \<Rightarrow> bool" where
  "partly_applied h = list_ex (\<lambda>e. case reported e of
     Some o' \<Rightarrow> oc_Status o' = OutcomeFailure \<and> oc_PartiallyApplied o' | None \<Rightarrow> False) h"

definition is_compensate :: "saga_event \<Rightarrow> bool" where
  "is_compensate e = (case e of EvCompensate _ _ _ \<Rightarrow> True | _ \<Rightarrow> False)"

definition audit_ids :: "saga_event list \<Rightarrow> string list" where
  "audit_ids h = List.map_filter (\<lambda>e. case e of EvAudit _ r _ \<Rightarrow> Some (ar_RecordID r) | _ \<Rightarrow> None) h"

definition undecided :: "saga_event list \<Rightarrow> bool" where
  "undecided h \<longleftrightarrow> \<not> confirmed h OutcomeSuccess \<and> \<not> confirmed h OutcomeFailure"

section \<open>The protocol\<close>

fun allowed :: "saga_info \<Rightarrow> saga_event list \<Rightarrow> saga_event \<Rightarrow> bool" where
  "allowed i h (EvVerify c q r) \<longleftrightarrow> h = [] \<and> q = si_req i"
| "allowed i h (EvToken r) \<longleftrightarrow> verified i h"
| "allowed i h (EvClaim c q r) \<longleftrightarrow> verified i h \<and> \<not> list_ex is_claim h \<and>
     cr_DecisionID q = er_IngressDecisionID (si_req i) \<and> has_token h (cr_Token q)"
| "allowed i h (EvEvaluate c q r) \<longleftrightarrow> q = si_req i \<and> (\<exists>t. claim_granted i h t)"
| "allowed i h (EvDecision c d r) \<longleftrightarrow> \<not> list_ex is_decision h \<and> dr_Stage d = StageWorkflowRevalidation"
| "allowed i h (EvAudit c a r) \<longleftrightarrow> ar_RecordID a \<notin> set (audit_ids h) \<and>
     (list_ex is_dispatch h \<longrightarrow> wc_disconnected c)"
| "allowed i h (EvDispatch c f r) \<longleftrightarrow> \<not> list_ex is_dispatch h \<and> verified i h \<and> revalidated i h \<and>
     allow_recorded h \<and> allow_audited h \<and> ao_MaximumAttempts (wc_opts c) = 1 \<and>
     claim_granted i h (fd_Token f) \<and> f = fenced_dispatch i (fd_Token f)"
| "allowed i h (EvAdvance c t r) \<longleftrightarrow> wc_disconnected c \<and>
     ct_DecisionID t = er_IngressDecisionID (si_req i) \<and> has_token h (ct_Token t) \<and>
     (case ct_To t of
        ClaimStateReleased \<Rightarrow> list_ex is_claim h \<and> (\<not> list_ex is_dispatch h \<or> fence_failed h)
      | ClaimStateReconciliationRequired \<Rightarrow> list_ex is_dispatch h \<and> undecided h
      | ClaimStateCompleted \<Rightarrow> confirmed h OutcomeSuccess \<and> \<not> confirmed h OutcomeFailure
      | ClaimStateFailed \<Rightarrow> confirmed h OutcomeFailure \<and> \<not> confirmed h OutcomeSuccess
      | _ \<Rightarrow> False)"
| "allowed i h (EvReconcile c q r) \<longleftrightarrow> list_ex is_dispatch h \<and> undecided h \<and> q = dispatch_request i"
| "allowed i h (EvCompensate c q r) \<longleftrightarrow> partly_applied h \<and> \<not> list_ex is_compensate h \<and>
     q = dispatch_request i \<and> wc_disconnected c \<and> ao_MaximumAttempts (wc_opts c) = 1"
| "allowed i h (EvSleep d r) \<longleftrightarrow> list_ex is_dispatch h \<and> undecided h"

fun legal_from :: "saga_info \<Rightarrow> saga_event list \<Rightarrow> saga_event list \<Rightarrow> bool" where
  "legal_from i past [] = True"
| "legal_from i past (e # es) = (allowed i past e \<and> legal_from i (past @ [e]) es)"

definition legal :: "saga_info \<Rightarrow> saga_event list \<Rightarrow> bool" where
  "legal i h = legal_from i [] h"

section \<open>Library\<close>

lemma legal_from_snoc: "legal_from i past (es @ [e]) \<longleftrightarrow> legal_from i past es \<and> allowed i (past @ es) e"
  by (induction es arbitrary: past) auto

lemma legal_snoc [simp]: "legal i (h @ [e]) \<longleftrightarrow> legal i h \<and> allowed i h e"
  by (simp add: legal_def legal_from_snoc)

lemma legal_Nil [simp]: "legal i []"
  by (simp add: legal_def)

lemma legal_from_split: "legal_from i past (h1 @ e # h2) \<Longrightarrow> allowed i (past @ h1) e"
proof (induction h1 arbitrary: past)
  case (Cons a h1)
  from Cons.IH [of "past @ [a]"] Cons.prems show ?case by simp
qed simp

lemma legal_split: "legal i (h1 @ e # h2) \<Longrightarrow> allowed i h1 e"
  using legal_from_split [of i "[]" h1 e h2] by (simp add: legal_def)

lemmas question_defs = verified_def has_token_def is_claim_def claim_granted_def revalidated_def
  is_decision_def allow_recorded_def allow_audited_def is_dispatch_def fence_failed_def reported_def
  confirmed_def partly_applied_def is_compensate_def undecided_def

lemma audit_ids_simps [simp]:
  "audit_ids [] = []"
  "audit_ids (e # h) = (case e of EvAudit _ r _ \<Rightarrow> [ar_RecordID r] | _ \<Rightarrow> []) @ audit_ids h"
  "audit_ids (h @ k) = audit_ids h @ audit_ids k"
  by (simp_all add: audit_ids_def List.map_filter_def split: saga_event.splits)

text \<open>The audit rows of a run carry the sequence numbers up to the counter, each once.\<close>

definition seq_ok :: "'w saga_state \<Rightarrow> bool" where
  "seq_ok s \<longleftrightarrow> (\<forall>x \<in> set (audit_ids (sg_history s)). \<exists>n \<le> sg_auditSeq s.
     \<exists>p w r ph v pr d t. x = ar_RecordID (newAuditRecord p w r ph v pr d t n))"

definition good :: "saga_info \<Rightarrow> 'w saga_state \<Rightarrow> bool" where
  "good i s \<longleftrightarrow> legal i (sg_history s) \<and> seq_ok s"

lemma good_start [simp]: "good i (start_state w t)"
  by (simp add: good_def start_state_def seq_ok_def)

text \<open>One scheduled activity other than an audit write.\<close>

lemma sg_stepE:
  assumes "sg_step ev act s = (r, s')"
  obtains "sg_history s' = sg_history s @ [ev r]" "sg_auditSeq s' = sg_auditSeq s"
  using assms by (auto simp: sg_step_def split: prod.splits)

lemma good_step:
  assumes "sg_step ev act s = (r, s')" "good i s" "allowed i (sg_history s) (ev r)"
    and "\<And>c a x. ev r \<noteq> EvAudit c a x"
  shows "good i s'" "sg_history s' = sg_history s @ [ev r]"
proof -
  from assms(1) have h: "sg_history s' = sg_history s @ [ev r]" and n: "sg_auditSeq s' = sg_auditSeq s"
    by (auto elim: sg_stepE)
  have "audit_ids (sg_history s') = audit_ids (sg_history s)"
    using assms(4) by (cases "ev r") (auto simp: h)
  then show "good i s'" "sg_history s' = sg_history s @ [ev r]"
    using assms(2,3) h n by (auto simp: good_def seq_ok_def)
qed

lemma good_audit:
  assumes "record_phase te i c ph v d s = (r, s')" "good i s"
    and "list_ex is_dispatch (sg_history s) \<Longrightarrow> wc_disconnected c"
  obtains a where "good i s'" "sg_history s' = sg_history s @ [EvAudit c a r]" "ar_Phase a = ph" "ar_Verdict a = v"
proof -
  define s1 where "s1 = s\<lparr>sg_auditSeq := sg_auditSeq s + 1\<rparr>"
  define a where "a = newAuditRecord (p_ID (er_Proposal (si_req i))) (si_WorkflowID i) (si_RunID i) ph v
    (er_Proposal (si_req i)) d (sg_now s1) (sg_auditSeq s1)"
  have st: "sg_step (EvAudit c a) (te_RecordAuditTrail te c a) s1 = (r, s')"
    using assms(1) by (simp add: record_phase_def a_def s1_def Let_def)
  then have h: "sg_history s' = sg_history s @ [EvAudit c a r]" and n: "sg_auditSeq s' = Suc (sg_auditSeq s)"
    by (auto elim!: sg_stepE simp: s1_def)
  have fresh: "ar_RecordID a \<notin> set (audit_ids (sg_history s))"
  proof
    assume "ar_RecordID a \<in> set (audit_ids (sg_history s))"
    with assms(2) obtain m p w r ph v pr d t where m: "m \<le> sg_auditSeq s"
      "ar_RecordID a = ar_RecordID (newAuditRecord p w r ph v pr d t m)"
      unfolding good_def seq_ok_def by blast
    have "sg_auditSeq s1 = m" by (rule newAuditRecord_seq [OF m(2) [unfolded a_def]])
    with m(1) show False by (simp add: s1_def)
  qed
  have "seq_ok s'"
    unfolding seq_ok_def
  proof
    fix x
    assume "x \<in> set (audit_ids (sg_history s'))"
    then consider "x \<in> set (audit_ids (sg_history s))" | "x = ar_RecordID a" by (auto simp: h)
    then show "\<exists>m \<le> sg_auditSeq s'. \<exists>p w r ph v pr d t. x = ar_RecordID (newAuditRecord p w r ph v pr d t m)"
    proof cases
      case 1
      then obtain m where "m \<le> sg_auditSeq s"
        "\<exists>p w r ph v pr d t. x = ar_RecordID (newAuditRecord p w r ph v pr d t m)"
        using assms(2) unfolding good_def seq_ok_def by blast
      then show ?thesis unfolding n by (intro exI [of _ m]) auto
    next
      case 2
      then show ?thesis unfolding n a_def s1_def by (intro exI [of _ "Suc (sg_auditSeq s)"] conjI) (simp, simp, blast)
    qed
  qed
  with fresh assms(2,3) have "good i s'" by (simp add: good_def h)
  then show thesis using h by (rule that) (simp_all add: a_def newAuditRecord_def)
qed

text \<open>How the questions change when the history grows.\<close>

lemma question_append:
  "verified i (h @ k) \<longleftrightarrow> verified i h \<or> verified i k"
  "has_token (h @ k) t \<longleftrightarrow> has_token h t \<or> has_token k t"
  "claim_granted i (h @ k) t \<longleftrightarrow> claim_granted i h t \<or> claim_granted i k t"
  "revalidated i (h @ k) \<longleftrightarrow> revalidated i h \<or> revalidated i k"
  "allow_recorded (h @ k) \<longleftrightarrow> allow_recorded h \<or> allow_recorded k"
  "allow_audited (h @ k) \<longleftrightarrow> allow_audited h \<or> allow_audited k"
  "fence_failed (h @ k) \<longleftrightarrow> fence_failed h \<or> fence_failed k"
  "confirmed (h @ k) st \<longleftrightarrow> confirmed h st \<or> confirmed k st"
  "partly_applied (h @ k) \<longleftrightarrow> partly_applied h \<or> partly_applied k"
  by (simp_all add: question_defs)

lemma question_Cons:
  "verified i (e # h) \<longleftrightarrow> (case e of EvVerify _ q (Inr v) \<Rightarrow> q = si_req i \<and> iv_Valid v | _ \<Rightarrow> False) \<or> verified i h"
  "has_token (e # h) t \<longleftrightarrow> e = EvToken (Inr t) \<or> has_token h t"
  "claim_granted i (e # h) t \<longleftrightarrow> (case e of
     EvClaim _ q (Inr c) \<Rightarrow> q = \<lparr>cr_DecisionID = er_IngressDecisionID (si_req i), cr_Token = t\<rparr> \<and> cl_Claimed c
   | _ \<Rightarrow> False) \<or> claim_granted i h t"
  "revalidated i (e # h) \<longleftrightarrow> (case e of
     EvEvaluate _ q (Inr d) \<Rightarrow> q = si_req i \<and> d_Verdict d = VerdictAllow | _ \<Rightarrow> False) \<or> revalidated i h"
  "allow_recorded (e # h) \<longleftrightarrow> (case e of
     EvDecision _ r None \<Rightarrow> dr_Verdict r = VerdictAllow \<and> dr_Stage r = StageWorkflowRevalidation | _ \<Rightarrow> False)
     \<or> allow_recorded h"
  "allow_audited (e # h) \<longleftrightarrow> (case e of
     EvAudit _ r None \<Rightarrow> ar_Phase r = AuditPhaseRevalidation \<and> ar_Verdict r = AuditVerdictPass | _ \<Rightarrow> False)
     \<or> allow_audited h"
  "fence_failed (e # h) \<longleftrightarrow> (case e of EvDispatch _ _ r \<Rightarrow> fenceFailure r \<noteq> '''' | _ \<Rightarrow> False) \<or> fence_failed h"
  "confirmed (e # h) st \<longleftrightarrow> (case reported e of Some o' \<Rightarrow> oc_Status o' = st | None \<Rightarrow> False) \<or> confirmed h st"
  "partly_applied (e # h) \<longleftrightarrow> (case reported e of
     Some o' \<Rightarrow> oc_Status o' = OutcomeFailure \<and> oc_PartiallyApplied o' | None \<Rightarrow> False) \<or> partly_applied h"
  by (simp_all add: verified_def has_token_def claim_granted_def revalidated_def allow_recorded_def
      allow_audited_def fence_failed_def confirmed_def partly_applied_def)

lemma question_Nil:
  "\<not> verified i []" "\<not> has_token [] t" "\<not> claim_granted i [] t" "\<not> revalidated i []" "\<not> allow_recorded []"
  "\<not> allow_audited []" "\<not> fence_failed []" "\<not> confirmed [] st" "\<not> partly_applied []"
  by (simp_all add: question_defs)

lemmas question_snoc = question_append question_Cons question_Nil

lemmas question_simps = question_snoc is_claim_def is_decision_def is_dispatch_def
  reported_def is_compensate_def undecided_def

section \<open>After dispatch\<close>

text \<open>The dispatch was scheduled under this token and no compensation has run.\<close>

definition after :: "saga_info \<Rightarrow> string \<Rightarrow> 'w saga_state \<Rightarrow> bool" where
  "after i token s \<longleftrightarrow> good i s \<and> has_token (sg_history s) token \<and> list_ex is_claim (sg_history s) \<and>
     list_ex is_dispatch (sg_history s) \<and> \<not> list_ex is_compensate (sg_history s)"

lemma ctx_simps [simp]:
  "wc_disconnected claimCtx" "wc_disconnected compCtx" "\<not> wc_disconnected bookCtx" "\<not> wc_disconnected mainCtx"
  "ao_MaximumAttempts (wc_opts mainCtx) = 1" "ao_MaximumAttempts (wc_opts compCtx) = 1"
  by (simp_all add: claimCtx_def compCtx_def bookCtx_def mainCtx_def activityOpts_def)

lemma after_audit:
  assumes "record_phase te i claimCtx ph v d s = (r, s')" "after i token s"
  obtains a where "after i token s'" "sg_history s' = sg_history s @ [EvAudit claimCtx a r]"
    "ar_Phase a = ph" "ar_Verdict a = v"
proof -
  have g: "good i s" using assms(2) by (simp add: after_def)
  from assms(1) g obtain a where a: "good i s'" "sg_history s' = sg_history s @ [EvAudit claimCtx a r]"
      "ar_Phase a = ph" "ar_Verdict a = v"
    by (rule good_audit) simp
  with assms(2) have "after i token s'" by (simp add: after_def question_simps)
  with a show thesis by (intro that)
qed

abbreviation to_state :: "saga_info \<Rightarrow> string \<Rightarrow> ClaimState \<Rightarrow> ClaimTransition" where
  "to_state i token to \<equiv> \<lparr>ct_DecisionID = er_IngressDecisionID (si_req i), ct_Token = token, ct_To = to\<rparr>"

lemma after_transition:
  assumes "transition te i token to s = (r, s')" "after i token s"
    and "case to of
        ClaimStateReleased \<Rightarrow> fence_failed (sg_history s)
      | ClaimStateReconciliationRequired \<Rightarrow> undecided (sg_history s)
      | ClaimStateCompleted \<Rightarrow> confirmed (sg_history s) OutcomeSuccess \<and> \<not> confirmed (sg_history s) OutcomeFailure
      | ClaimStateFailed \<Rightarrow> confirmed (sg_history s) OutcomeFailure \<and> \<not> confirmed (sg_history s) OutcomeSuccess
      | _ \<Rightarrow> False"
  shows "after i token s'" "sg_history s' = sg_history s @ [EvAdvance claimCtx (to_state i token to) r]"
proof -
  have g: "good i s" using assms(2) by (simp add: after_def)
  have "allowed i (sg_history s) (EvAdvance claimCtx (to_state i token to) r)"
    using assms(2,3) by (cases to) (simp_all add: after_def)
  from good_step [OF assms(1) [unfolded transition_def Let_def] g this]
  show "sg_history s' = sg_history s @ [EvAdvance claimCtx (to_state i token to) r]" and "after i token s'"
    using assms(2) by (auto simp: after_def question_simps)
qed

text \<open>What the history shows of an outcome the workflow acts on.\<close>

definition settled :: "saga_event list \<Rightarrow> DispatchOutcome \<Rightarrow> bool" where
  "settled h o' \<longleftrightarrow> (case oc_Status o' of
       OutcomeUnknown \<Rightarrow> undecided h
     | OutcomeSuccess \<Rightarrow> confirmed h OutcomeSuccess \<and> \<not> confirmed h OutcomeFailure
     | OutcomeFailure \<Rightarrow> confirmed h OutcomeFailure \<and> \<not> confirmed h OutcomeSuccess \<and>
         (oc_PartiallyApplied o' \<longrightarrow> partly_applied h)
     | Outcome_other _ \<Rightarrow> False)"

lemma settled_snoc: "reported e = None \<Longrightarrow> settled (h @ [e]) o' = settled h o'"
  by (simp add: settled_def undecided_def question_snoc split: OutcomeStatus.splits)

text \<open>The first answer with an outcome settles what was undecided.\<close>

lemma settled_report:
  assumes "undecided h" "reported e = Some (Checked o')"
  shows "settled (h @ [e]) (Checked o')"
  using assms by (cases o' rule: Checked_cases)
    (auto simp: settled_def undecided_def question_snoc split: OutcomeStatus.splits)

lemma settled_silence: "undecided h \<Longrightarrow> reported e = None \<Longrightarrow> settled (h @ [e]) (UnknownOutcome d)"
  by (simp add: settled_def undecided_def question_snoc)

lemma settled_unknown: "settled h o' \<Longrightarrow> oc_Status o' = OutcomeUnknown \<Longrightarrow> undecided h"
  by (simp add: settled_def)

lemma reported_None [simp]:
  "reported (EvToken x) = None" "reported (EvVerify c q v) = None" "reported (EvClaim c k l) = None"
  "reported (EvAdvance c t r) = None" "reported (EvEvaluate c q d) = None" "reported (EvDecision c e r) = None"
  "reported (EvAudit c a r) = None" "reported (EvCompensate c p r) = None" "reported (EvSleep n r) = None"
  "reported (EvDispatch c f (Inl e')) = None" "reported (EvReconcile c p (Inl e')) = None"
  by (simp_all add: reported_def)

lemma after_ask:
  assumes "reconcile_ask te (dispatch_request i) s = (o', s')" "after i token s" "undecided (sg_history s)"
  shows "after i token s'" "settled (sg_history s') o'"
proof -
  obtain r where st: "sg_step (EvReconcile bookCtx (dispatch_request i)) (te_ReconcileDispatch te bookCtx (dispatch_request i)) s = (r, s')"
    and o': "o' = Checked (case r of Inl e \<Rightarrow> UnknownOutcome (''reconciliation activity returned no outcome: '' @ err_text e) | Inr o1 \<Rightarrow> o1)"
    using assms(1) by (auto simp: reconcile_ask_def split: prod.splits)
  have h: "good i s'" "sg_history s' = sg_history s @ [EvReconcile bookCtx (dispatch_request i) r]"
    using assms(2,3) by (auto intro!: good_step [OF st] simp: after_def)
  with assms(2) show "after i token s'" by (simp add: after_def question_simps)
  show "settled (sg_history s') o'"
    unfolding h(2) o' using assms(3)
    by (cases r) (simp_all add: settled_silence settled_report reported_def)
qed

lemma after_loop:
  "reconcile_loop te (dispatch_request i) start n s = (o', s') \<Longrightarrow> after i token s \<Longrightarrow> undecided (sg_history s) \<Longrightarrow>
     after i token s' \<and> settled (sg_history s') o'"
proof (induction te "dispatch_request i" start n s arbitrary: o' s' rule: reconcile_loop.induct)
  case (1 te start n s)
  obtain o1 s1 where ask: "reconcile_ask te (dispatch_request i) s = (o1, s1)" by fastforce
  note a1 = after_ask [OF ask "1.prems"(2,3)]
  show ?case
  proof (cases "oc_Status o1 \<noteq> OutcomeUnknown \<or> sg_now s1 - start + int (reconcile_wait n) > int reconcileWindow")
    case True
    then show ?thesis using a1 "1.prems"(1) ask by (simp add: reconcile_loop.simps [of te])
  next
    case False
    obtain r s2 where sl: "sg_sleep te (reconcile_wait n) s1 = (r, s2)" by fastforce
    have u: "undecided (sg_history s1)" using settled_unknown a1(2) False by simp
    have h2: "sg_history s2 = sg_history s1 @ [EvSleep (reconcile_wait n) r]" "sg_auditSeq s2 = sg_auditSeq s1"
      using sl by (auto simp: sg_sleep_def split: prod.splits)
    have a2: "after i token s2"
      using a1(1) u h2 by (simp add: after_def good_def seq_ok_def question_simps)
    show ?thesis
    proof (cases r)
      case None
      have rest: "reconcile_loop te (dispatch_request i) start (Suc n) s2 = (o', s')"
        using "1.prems"(1) ask False sl None by (simp add: reconcile_loop.simps [of te _ _ n])
      have "undecided (sg_history s2)" using u by (simp add: h2 undecided_def question_snoc)
      from "1.hyps" [OF ask [symmetric] False sl [symmetric] None rest a2 this] show ?thesis .
    next
      case (Some e)
      then have "o' = o1" "s' = s2"
        using "1.prems"(1) ask False sl by (simp_all add: reconcile_loop.simps [of te])
      with a1 a2 show ?thesis by (simp add: h2(1) settled_snoc)
    qed
  qed
qed

section \<open>Results\<close>

text \<open>The claim was moved to \<open>to\<close>, and the activity reported no error.\<close>

definition moved_to :: "saga_event list \<Rightarrow> ClaimState \<Rightarrow> bool" where
  "moved_to h to = list_ex (\<lambda>e. case e of EvAdvance _ t None \<Rightarrow> ct_To t = to | _ \<Rightarrow> False) h"

definition phase_audited :: "saga_event list \<Rightarrow> AuditPhase \<Rightarrow> bool" where
  "phase_audited h ph = list_ex (\<lambda>e. case e of EvAudit _ a None \<Rightarrow> ar_Phase a = ph | _ \<Rightarrow> False) h"

text \<open>What the history shows when the workflow returns \<open>r\<close>.\<close>

definition result_ok :: "go_error option \<Rightarrow> saga_event list \<Rightarrow> bool" where
  "result_ok r h \<longleftrightarrow> (case r of
       None \<Rightarrow> confirmed h OutcomeSuccess \<and> \<not> confirmed h OutcomeFailure \<and> \<not> list_ex is_compensate h \<and>
         moved_to h ClaimStateCompleted \<and> phase_audited h AuditPhaseWorkflowComplete
     | Some e \<Rightarrow>
         (err_type e = DispatchFailedErrorType \<longrightarrow> confirmed h OutcomeFailure \<and> \<not> confirmed h OutcomeSuccess) \<and>
         (err_type e = DispatchOutcomeUnknownErrorType \<longrightarrow> list_ex is_dispatch h \<and> undecided h) \<and>
         (err_type e = ExecutionClaimRejectedErrorType \<longrightarrow> \<not> list_ex is_dispatch h \<or> fence_failed h) \<and>
         (err_type e \<in> {IngressDecisionInvalidErrorType, RevalidationDeniedErrorType} \<longrightarrow> \<not> list_ex is_dispatch h))"

definition finished :: "saga_info \<Rightarrow> go_error option \<Rightarrow> 'w saga_state \<Rightarrow> bool" where
  "finished i r s \<longleftrightarrow> good i s \<and> result_ok r (sg_history s) \<and> list_ex is_dispatch (sg_history s)"

lemma error_type_neqs [simp]:
  "DispatchFailedErrorType \<noteq> DispatchOutcomeUnknownErrorType" "DispatchOutcomeUnknownErrorType \<noteq> DispatchFailedErrorType"
  "DispatchFailedErrorType \<noteq> ''''" "DispatchOutcomeUnknownErrorType \<noteq> ''''" "ExecutionClaimRejectedErrorType \<noteq> ''''"
  "IngressDecisionInvalidErrorType \<noteq> ''''" "RevalidationDeniedErrorType \<noteq> ''''"
  "DispatchFailedErrorType \<noteq> ExecutionClaimRejectedErrorType" "ExecutionClaimRejectedErrorType \<noteq> DispatchFailedErrorType"
  "DispatchFailedErrorType \<noteq> IngressDecisionInvalidErrorType" "IngressDecisionInvalidErrorType \<noteq> DispatchFailedErrorType"
  "DispatchFailedErrorType \<noteq> RevalidationDeniedErrorType" "RevalidationDeniedErrorType \<noteq> DispatchFailedErrorType"
  "DispatchOutcomeUnknownErrorType \<noteq> ExecutionClaimRejectedErrorType" "ExecutionClaimRejectedErrorType \<noteq> DispatchOutcomeUnknownErrorType"
  "DispatchOutcomeUnknownErrorType \<noteq> IngressDecisionInvalidErrorType" "IngressDecisionInvalidErrorType \<noteq> DispatchOutcomeUnknownErrorType"
  "DispatchOutcomeUnknownErrorType \<noteq> RevalidationDeniedErrorType" "RevalidationDeniedErrorType \<noteq> DispatchOutcomeUnknownErrorType"
  "ExecutionClaimRejectedErrorType \<noteq> IngressDecisionInvalidErrorType" "IngressDecisionInvalidErrorType \<noteq> ExecutionClaimRejectedErrorType"
  "ExecutionClaimRejectedErrorType \<noteq> RevalidationDeniedErrorType" "RevalidationDeniedErrorType \<noteq> ExecutionClaimRejectedErrorType"
  by (simp_all add: error_type_defs)

lemma audit_failed_type [simp]: "err_type (audit_failed e) = ''''"
  by (simp add: audit_failed_def audit_persist_failed_def)

lemmas error_type_empty [simp] = error_type_neqs(3-7) [symmetric]

lemma result_ok_audit_failed [simp]: "result_ok (Some (audit_failed e)) h"
  by (simp add: result_ok_def)

lemma moved_to_simps:
  "moved_to (h @ k) to \<longleftrightarrow> moved_to h to \<or> moved_to k to" "\<not> moved_to [] to"
  "moved_to (e # h) to \<longleftrightarrow> (case e of EvAdvance _ t None \<Rightarrow> ct_To t = to | _ \<Rightarrow> False) \<or> moved_to h to"
  by (simp_all add: moved_to_def)

lemma phase_audited_simps:
  "phase_audited (h @ k) ph \<longleftrightarrow> phase_audited h ph \<or> phase_audited k ph" "\<not> phase_audited [] ph"
  "phase_audited (e # h) ph \<longleftrightarrow> (case e of EvAudit _ a None \<Rightarrow> ar_Phase a = ph | _ \<Rightarrow> False) \<or> phase_audited h ph"
  by (simp_all add: phase_audited_def)

lemma success_phase_ok:
  assumes "success_phase te i token auditErr s = (r, s')" "after i token s" "settled (sg_history s) o'"
    "oc_Status o' = OutcomeSuccess"
  shows "finished i r s'"
proof -
  have c: "confirmed (sg_history s) OutcomeSuccess" "\<not> confirmed (sg_history s) OutcomeFailure"
    using assms(3,4) by (simp_all add: settled_def)
  obtain r1 s1 where t: "transition te i token ClaimStateCompleted s = (r1, s1)" by fastforce
  have a1: "after i token s1" "sg_history s1 = sg_history s @ [EvAdvance claimCtx (to_state i token ClaimStateCompleted) r1]"
    using c by (simp_all add: after_transition [OF t assms(2)])
  show ?thesis
  proof (cases "r1 = None \<and> auditErr = None")
    case True
    obtain r2 s2 where p: "record_phase te i claimCtx AuditPhaseWorkflowComplete AuditVerdictPass
        ''workflow completed without compensation'' s1 = (r2, s2)" by fastforce
    from p a1(1) obtain a where a2: "after i token s2" "sg_history s2 = sg_history s1 @ [EvAudit claimCtx a r2]"
        "ar_Phase a = AuditPhaseWorkflowComplete" by (rule after_audit)
    have "s' = s2" "r = map_option audit_failed r2"
      using assms(1) t True p by (auto simp: success_phase_def split: option.splits)
    then show ?thesis using a1 a2 c True
      by (cases r2) (auto simp: after_def finished_def result_ok_def [of None] question_simps moved_to_simps phase_audited_simps)
  next
    case False
    then have "s' = s1" "\<exists>e. r = Some (audit_failed e)"
      using assms(1) t by (auto simp: success_phase_def split: option.splits)
    then show ?thesis using a1(1) by (auto simp: after_def finished_def)
  qed
qed

lemma fail_workflow_ok:
  assumes "fail_workflow te i failure s = (r, s')" "good i s" "list_ex is_dispatch (sg_history s)"
    "confirmed (sg_history s) OutcomeFailure" "\<not> confirmed (sg_history s) OutcomeSuccess"
  shows "finished i r s'"
proof -
  obtain r1 where p: "record_phase te i claimCtx AuditPhaseWorkflowFailed AuditVerdictFail failure s = (r1, s')"
    and r: "r = Some (app_error failure DispatchFailedErrorType None)"
    using assms(1) by (auto simp: fail_workflow_def split: prod.splits)
  from p assms(2) obtain a where "good i s'" "sg_history s' = sg_history s @ [EvAudit claimCtx a r1]"
    by (rule good_audit) simp
  then show ?thesis using assms(3-5) by (simp add: r finished_def result_ok_def question_snoc)
qed

lemma failure_phase_ok:
  assumes "failure_phase te i token o' s = (r, s')" "after i token s" "settled (sg_history s) o'"
    "oc_Status o' = OutcomeFailure"
  shows "finished i r s'"
proof -
  have c: "confirmed (sg_history s) OutcomeFailure" "\<not> confirmed (sg_history s) OutcomeSuccess"
    and pa: "oc_PartiallyApplied o' \<Longrightarrow> partly_applied (sg_history s)"
    using assms(3,4) by (simp_all add: settled_def)
  obtain r1 s1 where t: "transition te i token ClaimStateFailed s = (r1, s1)" by fastforce
  have a1: "after i token s1" and h1: "sg_history s1 = sg_history s @ [EvAdvance claimCtx (to_state i token ClaimStateFailed) r1]"
    using c by (simp_all add: after_transition [OF t assms(2)])
  have c1: "confirmed (sg_history s1) OutcomeFailure" "\<not> confirmed (sg_history s1) OutcomeSuccess"
    using c by (simp_all add: h1 question_snoc)
  show ?thesis
  proof (cases "oc_PartiallyApplied o'")
    case False
    then have fw: "fail_workflow te i (''dispatch failed: '' @ oc_Detail o') s1 = (r, s')"
      using assms(1) t by (simp add: failure_phase_def)
    have "good i s1" "list_ex is_dispatch (sg_history s1)" using a1 by (simp_all add: after_def)
    from fail_workflow_ok [OF fw this c1] show ?thesis .
  next
    case True
    obtain r2 s2 where k: "sg_step (EvCompensate compCtx (dispatch_request i))
        (te_RevertStateCompensation te compCtx (dispatch_request i)) s1 = (r2, s2)" by fastforce
    have "partly_applied (sg_history s1)" using pa True by (simp add: h1 question_snoc)
    then have "good i s1" "allowed i (sg_history s1) (EvCompensate compCtx (dispatch_request i) r2)"
      using a1 by (simp_all add: after_def)
    then have k2: "good i s2" "sg_history s2 = sg_history s1 @ [EvCompensate compCtx (dispatch_request i) r2]"
      by (simp_all add: good_step [OF k])
    define v where "v = (if r2 = None then AuditVerdictPass else AuditVerdictFail)"
    define d where "d = (case r2 of None \<Rightarrow> ''compensation activity completed'' | Some e \<Rightarrow> err_text e)"
    define f where "f = (case r2 of None \<Rightarrow> ''dispatch partly applied and compensation ran: '' @ oc_Detail o'
      | Some e \<Rightarrow> ''dispatch partly applied and compensation failed: '' @ err_text e)"
    obtain r3 s3 where p: "record_phase te i claimCtx AuditPhaseCompensation v d s2 = (r3, s3)" by fastforce
    have fw: "fail_workflow te i f s3 = (r, s')"
      using assms(1) t True k p by (cases r2) (simp_all add: failure_phase_def v_def d_def f_def)
    from p k2(1) obtain a where a3: "good i s3" "sg_history s3 = sg_history s2 @ [EvAudit claimCtx a r3]"
      by (rule good_audit) simp
    have "list_ex is_dispatch (sg_history s3)" "confirmed (sg_history s3) OutcomeFailure"
      "\<not> confirmed (sg_history s3) OutcomeSuccess"
      using a1 c1 by (simp_all add: a3(2) k2(2) after_def question_snoc)
    with fail_workflow_ok [OF fw a3(1)] show ?thesis by blast
  qed
qed

lemma confirmed_phase_ok:
  assumes "confirmed_phase te i token o' auditErr s = (r, s')" "after i token s" "settled (sg_history s) o'"
    "oc_Status o' \<noteq> OutcomeUnknown"
  shows "finished i r s'"
proof (cases "oc_Status o' = OutcomeFailure")
  case True
  then show ?thesis using assms failure_phase_ok by (simp add: confirmed_phase_def)
next
  case False
  then have "oc_Status o' = OutcomeSuccess" using assms(3,4) by (simp add: settled_def split: OutcomeStatus.splits)
  with False show ?thesis using assms success_phase_ok by (simp add: confirmed_phase_def)
qed

lemma unknown_phase_ok:
  assumes "unknown_phase te i token s = (r, s')" "after i token s" "undecided (sg_history s)"
  shows "finished i r s'"
proof -
  obtain r1 s1 where t: "transition te i token ClaimStateReconciliationRequired s = (r1, s1)" by fastforce
  obtain o' s2 where l: "reconcileDispatch te (dispatch_request i) s1 = (o', s2)" by fastforce
  obtain ae s3 where p: "record_phase te i claimCtx AuditPhaseReconciliation (auditVerdict o')
      (outcomeDetail (dispatch_request i) o') s2 = (ae, s3)" by fastforce
  have a1: "after i token s1" and h1: "sg_history s1 = sg_history s @ [EvAdvance claimCtx (to_state i token ClaimStateReconciliationRequired) r1]"
    using assms(3) by (simp_all add: after_transition [OF t assms(2)])
  have "undecided (sg_history s1)" using assms(3) by (simp add: h1 undecided_def question_snoc)
  with after_loop [OF l [unfolded reconcileDispatch_def] a1]
  have a2: "after i token s2" "settled (sg_history s2) o'" by simp_all
  from p a2(1) obtain a where a3: "after i token s3" "sg_history s3 = sg_history s2 @ [EvAudit claimCtx a ae]"
    by (rule after_audit)
  have s3: "settled (sg_history s3) o'" using a2(2) by (simp add: a3(2) settled_snoc)
  show ?thesis
  proof (cases "oc_Status o' = OutcomeUnknown")
    case True
    then have "s' = s3" "\<exists>m. r = Some (app_error m DispatchOutcomeUnknownErrorType None)"
      using assms(1) t l p by (auto simp: unknown_phase_def)
    then show ?thesis using a3(1) settled_unknown [OF s3 True] by (auto simp: after_def finished_def result_ok_def)
  next
    case False
    then have "confirmed_phase te i token o' ae s3 = (r, s')"
      using assms(1) t l p by (simp add: unknown_phase_def)
    then show ?thesis using a3(1) s3 False by (rule confirmed_phase_ok)
  qed
qed

lemma outcome_phase_ok:
  assumes "outcome_phase te i token o' auditErr s = (r, s')" "after i token s" "settled (sg_history s) o'"
  shows "finished i r s'"
proof (cases "oc_Status o' = OutcomeUnknown")
  case True
  then have "unknown_phase te i token s = (r, s')" using assms(1) by (simp add: outcome_phase_def)
  then show ?thesis using assms(2) settled_unknown [OF assms(3) True] by (rule unknown_phase_ok)
next
  case False
  then have "confirmed_phase te i token o' auditErr s = (r, s')" using assms(1) by (simp add: outcome_phase_def)
  then show ?thesis using assms(2,3) False by (rule confirmed_phase_ok)
qed

section \<open>Dispatch\<close>

lemma fence_failed_phase_ok:
  assumes "fence_failed_phase te i token e s = (r, s')" "after i token s" "fence_failed (sg_history s)"
    "undecided (sg_history s)"
  shows "finished i r s'"
proof -
  obtain rel s1 where t: "transition te i token ClaimStateReleased s = (rel, s1)" by fastforce
  have a1: "after i token s1" and h1: "sg_history s1 = sg_history s @ [EvAdvance claimCtx (to_state i token ClaimStateReleased) rel]"
    using assms(3) by (simp_all add: after_transition [OF t assms(2)])
  have u1: "undecided (sg_history s1)" "fence_failed (sg_history s1)"
    using assms(3,4) by (simp_all add: h1 question_simps)
  show ?thesis
  proof (cases "rel = None \<or> err_type e = ExecutionFenceRejectedErrorType")
    case True
    obtain d where d: "fence_failed_phase te i token e s =
        (case record_phase te i claimCtx AuditPhaseExecutionFence AuditVerdictFail d s1 of (_, s2) \<Rightarrow>
           (Some (app_error ''execution fence not acquired; proposal not executed'' ExecutionClaimRejectedErrorType (Some e)), s2))"
      using t True by (simp add: fence_failed_phase_def)
    obtain r2 s2 where p: "record_phase te i claimCtx AuditPhaseExecutionFence AuditVerdictFail d s1 = (r2, s2)" by fastforce
    from p a1 obtain a where "after i token s2" "sg_history s2 = sg_history s1 @ [EvAudit claimCtx a r2]"
      by (rule after_audit)
    moreover have "s' = s2" "\<exists>m. r = Some (app_error m ExecutionClaimRejectedErrorType (Some e))"
      using assms(1) d p by auto
    ultimately show ?thesis using u1 by (auto simp: after_def finished_def result_ok_def question_snoc)
  next
    case False
    define o' where "o' = UnknownOutcome (''execution fence may have committed; adapter not called: '' @ err_text e)"
    obtain ae s2 where p: "record_phase te i claimCtx AuditPhaseExecutionFence AuditVerdictUnknown
        (outcomeDetail (dispatch_request i) o') s1 = (ae, s2)" by fastforce
    from p a1 obtain a where a2: "after i token s2" "sg_history s2 = sg_history s1 @ [EvAudit claimCtx a ae]"
      by (rule after_audit)
    have "outcome_phase te i token o' ae s2 = (r, s')"
      using assms(1) t False p by (simp add: fence_failed_phase_def o'_def)
    moreover have "settled (sg_history s2) o'" using u1(1) by (simp add: a2(2) o'_def settled_silence)
    ultimately show ?thesis using a2(1) outcome_phase_ok by blast
  qed
qed

text \<open>Everything the protocol asks for before the dispatch is on record.\<close>

definition ready :: "saga_info \<Rightarrow> string \<Rightarrow> 'w saga_state \<Rightarrow> bool" where
  "ready i token s \<longleftrightarrow> good i s \<and> verified i (sg_history s) \<and> has_token (sg_history s) token \<and>
     \<not> list_ex is_dispatch (sg_history s) \<and> \<not> list_ex is_compensate (sg_history s) \<and> undecided (sg_history s) \<and>
     list_ex is_claim (sg_history s) \<and> claim_granted i (sg_history s) token"

lemma dispatch_phase_ok:
  assumes "dispatch_phase te i token s = (r, s')" "ready i token s" "revalidated i (sg_history s)"
    "allow_recorded (sg_history s)" "allow_audited (sg_history s)"
  shows "finished i r s'"
proof -
  obtain x s1 where st: "sg_step (EvDispatch mainCtx (fenced_dispatch i token))
      (te_DispatchConfig te mainCtx (fenced_dispatch i token)) s = (x, s1)" by fastforce
  have "good i s" "allowed i (sg_history s) (EvDispatch mainCtx (fenced_dispatch i token) x)"
    using assms(2-5) by (simp_all add: ready_def fenced_dispatch_def)
  then have g1: "good i s1" and h1: "sg_history s1 = sg_history s @ [EvDispatch mainCtx (fenced_dispatch i token) x]"
    by (simp_all add: good_step [OF st])
  have a1: "after i token s1" using assms(2) g1 by (simp add: after_def ready_def h1 question_simps)
  have u: "undecided (sg_history s)" using assms(2) by (simp add: ready_def)
  have "finished i r s'"
  proof (cases "fenceFailure x = ''''")
    case False
    then obtain e where e: "x = Inl e" by (cases x) (auto simp: fenceFailure_def)
    have "fence_failed (sg_history s1)" "undecided (sg_history s1)"
      using False u by (simp_all add: h1 e question_simps)
    moreover have "fence_failed_phase te i token e s1 = (r, s')"
      using assms(1) st False by (simp add: dispatch_phase_def e Let_def)
    ultimately show ?thesis using a1 fence_failed_phase_ok by blast
  next
    case True
    define o' where "o' = Checked (case x of
        Inl e \<Rightarrow> UnknownOutcome (''dispatch activity returned no outcome: '' @ err_text e) | Inr o1 \<Rightarrow> o1)"
    obtain ae s2 where p: "record_phase te i claimCtx AuditPhaseDispatch (auditVerdict o')
        (outcomeDetail (dispatch_request i) o') s1 = (ae, s2)" by fastforce
    from p a1 obtain a where a2: "after i token s2" "sg_history s2 = sg_history s1 @ [EvAudit claimCtx a ae]"
      by (rule after_audit)
    have "settled (sg_history s1) o'"
      using u unfolding o'_def h1
      by (cases x) (simp_all add: settled_silence settled_report reported_def)
    then have "settled (sg_history s2) o'" by (simp add: a2(2) settled_snoc)
    moreover have "outcome_phase te i token o' ae s2 = (r, s')"
      using assms(1) st True p unfolding o'_def by (simp add: dispatch_phase_def Let_def)
    ultimately show ?thesis using a2(1) outcome_phase_ok by blast
  qed
  then show ?thesis .
qed

section \<open>Before dispatch\<close>

definition stopped :: "saga_info \<Rightarrow> go_error option \<Rightarrow> 'w saga_state \<Rightarrow> bool" where
  "stopped i r s \<longleftrightarrow> good i s \<and> \<not> list_ex is_dispatch (sg_history s) \<and>
     (\<exists>e. r = Some e \<and> err_type e \<notin> {DispatchFailedErrorType, DispatchOutcomeUnknownErrorType})"

lemma stopped_result: "stopped i r s \<Longrightarrow> result_ok r (sg_history s)"
  by (auto simp: stopped_def result_ok_def)

lemma good_decision:
  assumes "recordDecision te i dec s = (r, s')" "good i s" "\<not> list_ex is_decision (sg_history s)"
  shows "good i s'" "sg_history s' = sg_history s @ [EvDecision bookCtx (decision_record i dec (sg_now s)) r]"
proof -
  have "allowed i (sg_history s) (EvDecision bookCtx (decision_record i dec (sg_now s)) r)"
    using assms(3) by (simp add: decision_record_def Let_def)
  then show "good i s'" "sg_history s' = sg_history s @ [EvDecision bookCtx (decision_record i dec (sg_now s)) r]"
    by (simp_all add: good_step [OF assms(1) [unfolded recordDecision_def Let_def] assms(2)])
qed

lemma reject_ok:
  assumes "reject te i errType reason detail s = (e, s')" "good i s" "\<not> list_ex is_decision (sg_history s)"
    "\<not> list_ex is_dispatch (sg_history s)"
  obtains d1 a r1 r2 where "good i s'" "err_type e = errType"
    "sg_history s' = sg_history s @ [EvDecision bookCtx d1 r1, EvAudit bookCtx a r2]"
    "dr_Verdict d1 = VerdictDeny" "ar_Verdict a = AuditVerdictFail"
proof -
  define dec where "dec = zero_Decision\<lparr>d_Verdict := VerdictDeny, d_Reasons := [reason]\<rparr>"
  obtain r1 s1 where d: "recordDecision te i dec s = (r1, s1)" by fastforce
  obtain det r2 where a: "record_phase te i bookCtx AuditPhaseRevalidation AuditVerdictFail det s1 = (r2, s')"
    and e: "err_type e = errType"
    using assms(1) d unfolding reject_def dec_def [symmetric] Let_def by (auto split: prod.splits)
  note g1 = good_decision [OF d assms(2,3)]
  from a g1(1) obtain r where "good i s'" "sg_history s' = sg_history s1 @ [EvAudit bookCtx r r2]" "ar_Verdict r = AuditVerdictFail"
    by (rule good_audit) (use assms(4) in \<open>simp add: g1(2) is_dispatch_def\<close>)
  then show thesis using g1(2) e
    by (intro that [of "decision_record i dec (sg_now s)" r1 r r2]) (simp_all add: decision_record_def dec_def Let_def)
qed

lemma revalidate_phase_ok:
  assumes "revalidate_phase te i token s = (r, release, s')" "ready i token s" "\<not> list_ex is_decision (sg_history s)"
  shows "if release then stopped i r s' \<and> ready i token s' else finished i r s'"
proof -
  let ?req = "si_req i"
  obtain x s1 where st: "sg_step (EvEvaluate bookCtx ?req) (te_EvaluateExecution te bookCtx ?req) s = (x, s1)" by fastforce
  have "good i s" "allowed i (sg_history s) (EvEvaluate bookCtx ?req x)"
    using assms(2) by (auto simp: ready_def)
  then have g1: "good i s1" and h1: "sg_history s1 = sg_history s @ [EvEvaluate bookCtx ?req x]"
    by (simp_all add: good_step [OF st])
  have rd1: "ready i token s1" using assms(2) g1 by (simp add: ready_def h1 question_simps)
  show ?thesis
  proof (cases x)
    case (Inl e)
    then have "release" "s' = s1" "\<exists>m. r = Some (app_error m RevalidationDeniedErrorType (Some e))"
      using assms(1) st by (auto simp: revalidate_phase_def Let_def)
    then show ?thesis using rd1 by (auto simp: stopped_def ready_def)
  next
    case (Inr dec)
    obtain re s2 where d: "recordDecision te i dec s1 = (re, s2)" by fastforce
    have "\<not> list_ex is_decision (sg_history s1)" using assms(3) by (simp add: h1 is_decision_def)
    note g2 = good_decision [OF d g1 this]
    have rd2: "ready i token s2" using rd1 g2 by (simp add: ready_def question_simps)
    define v where "v = (if d_Verdict dec = VerdictAllow then AuditVerdictPass else AuditVerdictFail)"
    obtain ae s3 where p: "record_phase te i bookCtx AuditPhaseRevalidation v
        (''verdict='' @ Verdict_str (d_Verdict dec) @ '' reasons='' @ joinReasons (d_Reasons dec)
         @ '' policy_version='' @ d_PolicyVersion dec @ '' ingress_decision_id='' @ er_IngressDecisionID ?req) s2 = (ae, s3)"
      by fastforce
    from p g2(1) obtain a where a3: "good i s3" "sg_history s3 = sg_history s2 @ [EvAudit bookCtx a ae]"
        "ar_Phase a = AuditPhaseRevalidation" "ar_Verdict a = v"
      by (rule good_audit) (use rd2 in \<open>simp add: ready_def\<close>)
    have rd3: "ready i token s3" using rd2 a3(1,2) by (simp add: ready_def question_simps)
    consider (denied) "d_Verdict dec \<noteq> VerdictAllow" | (unrecorded) e where "d_Verdict dec = VerdictAllow" "re = Some e"
      | (unaudited) e where "d_Verdict dec = VerdictAllow" "re = None" "ae = Some e"
      | (dispatch) "d_Verdict dec = VerdictAllow" "re = None" "ae = None" by fastforce
    then show ?thesis
    proof cases
      case denied
      then have "release" "s' = s3" "\<exists>m. r = Some (app_error m RevalidationDeniedErrorType None)"
        using assms(1) st d p Inr by (auto simp: revalidate_phase_def Let_def v_def)
      then show ?thesis using rd3 by (auto simp: stopped_def ready_def)
    next
      case unrecorded
      then have "release" "s' = s2" "r = Some (audit_failed e)"
        using assms(1) st d Inr by (simp_all add: revalidate_phase_def Let_def)
      then show ?thesis using rd2 by (auto simp: stopped_def ready_def)
    next
      case unaudited
      then have "release" "s' = s3" "r = Some (audit_failed e)"
        using assms(1) st d p Inr by (simp_all add: revalidate_phase_def Let_def v_def)
      then show ?thesis using rd3 by (auto simp: stopped_def ready_def)
    next
      case dispatch
      then have "\<not> release" "dispatch_phase te i token s3 = (r, s')"
        using assms(1) st d p Inr by (auto simp: revalidate_phase_def Let_def v_def split: prod.splits)
      moreover have "revalidated i (sg_history s3)" "allow_recorded (sg_history s3)" "allow_audited (sg_history s3)"
        using dispatch Inr a3(3,4) by (simp_all add: a3(2) g2(2) h1 question_snoc v_def decision_record_def Let_def)
      ultimately show ?thesis using dispatch_phase_ok rd3 by simp
    qed
  qed
qed

text \<open>The claim was refused: another execution holds the decision.\<close>

definition claim_refused :: "saga_event list \<Rightarrow> bool" where
  "claim_refused h = list_ex (\<lambda>e. case e of EvClaim _ _ (Inr c) \<Rightarrow> \<not> cl_Claimed c | _ \<Rightarrow> False) h"

definition tokened :: "saga_info \<Rightarrow> string \<Rightarrow> 'w saga_state \<Rightarrow> bool" where
  "tokened i token s \<longleftrightarrow> good i s \<and> verified i (sg_history s) \<and> has_token (sg_history s) token \<and>
     \<not> list_ex is_dispatch (sg_history s) \<and> \<not> list_ex is_compensate (sg_history s) \<and> undecided (sg_history s)"

lemma claim_phase_ok:
  assumes "claim_phase te i token s = (r, release, s')" "tokened i token s"
    "\<not> list_ex is_decision (sg_history s)" "\<not> list_ex is_claim (sg_history s)"
  shows "if release then stopped i r s' \<and> tokened i token s' \<and> list_ex is_claim (sg_history s')
    else finished i r s' \<or> stopped i r s' \<and> claim_refused (sg_history s')"
proof -
  let ?q = "\<lparr>cr_DecisionID = er_IngressDecisionID (si_req i), cr_Token = token\<rparr>"
  obtain x s1 where st: "sg_step (EvClaim bookCtx ?q) (te_ClaimExecution te bookCtx ?q) s = (x, s1)" by fastforce
  have "good i s" "allowed i (sg_history s) (EvClaim bookCtx ?q x)"
    using assms(2,4) by (simp_all add: tokened_def)
  then have g1: "good i s1" and h1: "sg_history s1 = sg_history s @ [EvClaim bookCtx ?q x]"
    by (simp_all add: good_step [OF st])
  have t1: "tokened i token s1" "list_ex is_claim (sg_history s1)" "\<not> list_ex is_decision (sg_history s1)"
    using assms(2,3) g1 by (simp_all add: tokened_def h1 question_simps)
  consider (failed) e where "x = Inl e" | (refused) c where "x = Inr c" "\<not> cl_Claimed c"
    | (granted) c where "x = Inr c" "cl_Claimed c" by (cases x) auto
  then show ?thesis
  proof cases
    case failed
    then have "release" "s' = s1" "\<exists>m. r = Some (app_error m ExecutionClaimRejectedErrorType (Some e))"
      using assms(1) st by (auto simp: claim_phase_def Let_def)
    then show ?thesis using t1 by (auto simp: stopped_def tokened_def)
  next
    case refused
    obtain e where "\<not> release" and re: "reject te i ExecutionClaimRejectedErrorType (cl_Reason c) (cl_Detail c) s1 = (e, s')"
      and r: "r = Some e" using assms(1) st refused by (auto simp: claim_phase_def Let_def split: prod.splits)
    from re g1 t1(3) obtain d1 a r1 r2 where "good i s'" "err_type e = ExecutionClaimRejectedErrorType"
        "sg_history s' = sg_history s1 @ [EvDecision bookCtx d1 r1, EvAudit bookCtx a r2]"
      by (rule reject_ok) (use t1(1) in \<open>simp add: tokened_def\<close>)
    then have "stopped i r s'" "claim_refused (sg_history s')"
      using t1(1) refused by (auto simp: stopped_def r tokened_def h1 claim_refused_def is_dispatch_def)
    with \<open>\<not> release\<close> show ?thesis by simp
  next
    case granted
    then have "revalidate_phase te i token s1 = (r, release, s')"
      using assms(1) st by (simp add: claim_phase_def Let_def)
    moreover have "ready i token s1"
      using t1 granted by (simp add: ready_def tokened_def) (simp add: h1 question_simps)
    ultimately have "if release then stopped i r s' \<and> ready i token s' else finished i r s'"
      using revalidate_phase_ok t1(3) by blast
    then show ?thesis by (auto simp: ready_def tokened_def split: if_splits)
  qed
qed

text \<open>The deferred release leaves the result as it is.\<close>

lemma claimed_run_ok:
  assumes "claimed_run te i token s = (r, s')" "tokened i token s"
    "\<not> list_ex is_decision (sg_history s)" "\<not> list_ex is_claim (sg_history s)"
  shows "good i s' \<and> result_ok r (sg_history s') \<and>
    (list_ex is_dispatch (sg_history s') \<or> claim_refused (sg_history s') \<or>
     (\<exists>x. last (sg_history s') = EvAdvance claimCtx (to_state i token ClaimStateReleased) x))"
proof -
  obtain release s1 where c: "claim_phase te i token s = (r, release, s1)"
    and s': "s' = (if release then snd (transition te i token ClaimStateReleased s1) else s1)"
    using assms(1) by (auto simp: claimed_run_def split: prod.splits if_splits)
  note ok = claim_phase_ok [OF c assms(2-4)]
  show ?thesis
  proof (cases release)
    case False
    then show ?thesis using ok stopped_result by (auto simp: s' finished_def stopped_def)
  next
    case True
    obtain x where t: "transition te i token ClaimStateReleased s1 = (x, s')" using s' True by (metis prod.collapse)
    have st: "stopped i r s1" "tokened i token s1" "list_ex is_claim (sg_history s1)" using ok True by simp_all
    have "allowed i (sg_history s1) (EvAdvance claimCtx (to_state i token ClaimStateReleased) x)" "good i s1"
      using st by (simp_all add: tokened_def)
    then have g: "good i s'" "sg_history s' = sg_history s1 @ [EvAdvance claimCtx (to_state i token ClaimStateReleased) x]"
      by (simp_all add: good_step [OF t [unfolded transition_def Let_def]])
    then have "stopped i r s'" using st(1) by (simp add: stopped_def is_dispatch_def)
    with g stopped_result [OF this] show ?thesis by simp
  qed
qed

section \<open>The workflow\<close>

lemma workflow_ok:
  assumes "SentryGateSagaWorkflow te i (start_state w t) = (r, s')"
  shows "good i s' \<and> result_ok r (sg_history s') \<and>
    (list_ex is_claim (sg_history s') \<longrightarrow> list_ex is_dispatch (sg_history s') \<or> claim_refused (sg_history s') \<or>
     (\<exists>token x. last (sg_history s') = EvAdvance claimCtx (to_state i token ClaimStateReleased) x))"
proof -
  let ?s = "start_state w t" and ?req = "si_req i"
  have h: "sg_history ?s = []" by (simp add: start_state_def)
  obtain x s1 where st: "sg_step (EvVerify bookCtx ?req) (te_VerifyIngressDecision te bookCtx ?req) ?s = (x, s1)" by fastforce
  have g1: "good i s1" and h1: "sg_history s1 = [EvVerify bookCtx ?req x]"
    using good_step [OF st good_start, of i] by (simp_all add: h)
  consider (failed) e where "x = Inl e" | (invalid) v where "x = Inr v" "\<not> iv_Valid v"
    | (valid) v where "x = Inr v" "iv_Valid v" by (cases x) auto
  then show ?thesis
  proof cases
    case failed
    then have "s' = s1" "\<exists>m. r = Some (app_error m IngressDecisionInvalidErrorType (Some e))"
      using assms st by (auto simp: SentryGateSagaWorkflow_def Let_def)
    then show ?thesis using g1 by (auto simp: h1 result_ok_def is_dispatch_def is_claim_def)
  next
    case invalid
    obtain e where re: "reject te i IngressDecisionInvalidErrorType (iv_Reason v) (iv_Detail v) s1 = (e, s')"
      and r: "r = Some e" using assms st invalid by (auto simp: SentryGateSagaWorkflow_def Let_def split: prod.splits)
    from re g1 obtain d1 a r1 r2 where "good i s'" "err_type e = IngressDecisionInvalidErrorType"
        "sg_history s' = sg_history s1 @ [EvDecision bookCtx d1 r1, EvAudit bookCtx a r2]"
      by (rule reject_ok) (simp_all add: h1 is_decision_def is_dispatch_def)
    then show ?thesis by (auto simp: r h1 result_ok_def is_dispatch_def is_claim_def)
  next
    case valid
    obtain y s2 where tk: "sg_step EvToken (te_SideEffect te) s1 = (y, s2)" by fastforce
    have "allowed i (sg_history s1) (EvToken y)" using valid by (simp add: h1 question_snoc)
    then have g2: "good i s2" and h2: "sg_history s2 = [EvVerify bookCtx ?req x, EvToken y]"
      using good_step [OF tk g1] by (simp_all add: h1)
    show ?thesis
    proof (cases y)
      case (Inl e)
      then have "s' = s2" "\<exists>m. r = Some (app_error m ExecutionClaimRejectedErrorType (Some e))"
        using assms st tk valid by (auto simp: SentryGateSagaWorkflow_def Let_def)
      then show ?thesis using g2 by (auto simp: h2 result_ok_def is_dispatch_def is_claim_def)
    next
      case (Inr token)
      have "claimed_run te i token s2 = (r, s')"
        using assms st tk valid Inr by (simp add: SentryGateSagaWorkflow_def Let_def)
      moreover have "tokened i token s2" "\<not> list_ex is_decision (sg_history s2)" "\<not> list_ex is_claim (sg_history s2)"
        using g2 valid Inr by (simp_all add: tokened_def h2 question_simps)
      ultimately show ?thesis using claimed_run_ok by blast
    qed
  qed
qed

section \<open>Counting\<close>

lemma legal_none_after:
  assumes "\<And>past e. P e \<Longrightarrow> allowed i past e \<Longrightarrow> \<not> list_ex P past"
  shows "legal i h \<Longrightarrow> length (filter P h) \<le> 1"
proof (induction h rule: rev_induct)
  case (snoc e h)
  show ?case
  proof (cases "P e")
    case True
    then have "\<not> list_ex P h" using assms snoc.prems by auto
    then have "filter P h = []" by (simp add: filter_empty_conv list_ex_iff)
    then show ?thesis using True by simp
  next
    case False
    then show ?thesis using snoc by simp
  qed
qed simp

lemma dispatch_alone: "is_dispatch e \<Longrightarrow> allowed i past e \<Longrightarrow> \<not> list_ex is_dispatch past"
  by (cases e) (simp_all add: is_dispatch_def)

lemma compensate_alone: "is_compensate e \<Longrightarrow> allowed i past e \<Longrightarrow> \<not> list_ex is_compensate past"
  by (cases e) (simp_all add: is_compensate_def)

lemma decision_alone: "is_decision e \<Longrightarrow> allowed i past e \<Longrightarrow> \<not> list_ex is_decision past"
  by (cases e) (simp_all add: is_decision_def)

lemma legal_audit_ids: "legal i h \<Longrightarrow> distinct (audit_ids h)"
proof (induction h rule: rev_induct)
  case (snoc e h)
  then show ?case by (cases e) auto
qed simp

lemma workflow_legal: "legal i (sg_history (snd (SentryGateSagaWorkflow te i (start_state w t))))"
  using workflow_ok [of te i w t] by (cases "SentryGateSagaWorkflow te i (start_state w t)") (auto simp: good_def)

section \<open>The reconciliation schedule\<close>

primrec wait_sum :: "nat \<Rightarrow> nat" where
  "wait_sum 0 = 0"
| "wait_sum (Suc n) = wait_sum n + reconcile_wait n"

definition is_ask :: "saga_event \<Rightarrow> bool" where
  "is_ask e = (case e of EvReconcile _ _ _ \<Rightarrow> True | _ \<Rightarrow> False)"

definition asks :: "saga_event list \<Rightarrow> nat" where
  "asks h = length (filter is_ask h)"

lemma wait_closed: "reconcile_wait n = min (10 * 2 ^ n * seconds) (1800 * seconds)"
proof (induction n)
  case 0
  show ?case by (simp add: duration_defs)
next
  case (Suc n)
  have "reconcileMaxWait = 1800 * seconds" by (simp add: duration_defs)
  then show ?case by (simp add: Suc min_def)
qed

lemma wait_sum_closed: "n \<le> 8 \<Longrightarrow> wait_sum n + 10 * seconds = 10 * 2 ^ n * seconds"
proof (induction n)
  case (Suc n)
  have "(2 :: nat) ^ n \<le> 2 ^ 7" using Suc.prems by (intro power_increasing) simp_all
  then have "10 * 2 ^ n * seconds \<le> 1800 * seconds" by simp
  then show ?case using Suc by (simp add: wait_closed)
qed simp

lemma wait_first: "reconcile_wait 8 = reconcileMaxWait" "wait_sum 8 = 2550 * seconds"
  using wait_sum_closed [of 8] by (simp_all add: wait_closed duration_defs)

lemma wait_later: "reconcile_wait (8 + k) = reconcileMaxWait"
proof -
  have "(2 :: nat) ^ 8 \<le> 2 ^ (8 + k)" by (intro power_increasing) simp_all
  then have "1800 * seconds \<le> 10 * 2 ^ (8 + k) * seconds" by simp
  then show ?thesis unfolding wait_closed by (simp add: duration_defs)
qed

lemma wait_sum_later: "wait_sum (8 + k) = 2550 * seconds + k * reconcileMaxWait"
proof (induction k)
  case (Suc k)
  have "8 + Suc k = Suc (8 + k)" by simp
  then show ?case by (simp only: wait_sum.simps Suc wait_later) simp
qed (simp add: wait_first)

lemma window_passed: "int reconcileWindow < int (wait_sum 55)"
  using wait_sum_later [of 47] by (simp add: duration_defs)

lemma wait_le: "reconcile_wait n \<le> reconcileMaxWait"
  by (cases n) (simp_all add: duration_defs)

lemma wait_sum_mono: "m \<le> n \<Longrightarrow> wait_sum m \<le> wait_sum n"
  by (rule lift_Suc_mono_le [of wait_sum]) simp_all

lemma window_waits: "wait_sum n \<le> reconcileWindow \<Longrightarrow> n < 55"
  using wait_sum_mono [of 55 n] window_passed by (cases "n < 55") simp_all

text \<open>What the workflow makes of the result of an activity \<^verbatim>\<open>ReconcileDispatch\<close>.\<close>

definition answer :: "go_error + DispatchOutcome \<Rightarrow> DispatchOutcome" where
  "answer r = Checked (case r of
       Inl e \<Rightarrow> UnknownOutcome (''reconciliation activity returned no outcome: '' @ err_text e)
     | Inr o' \<Rightarrow> o')"

text \<open>
  The events of a reconciliation that returns \<open>o'\<close>: activities for the same request, with the waits of
  the schedule between them. Each but the last got no confirmed outcome, and the last is the result.
\<close>

fun follows :: "nat \<Rightarrow> DispatchRequest \<Rightarrow> saga_event list \<Rightarrow> DispatchOutcome \<Rightarrow> bool" where
  "follows n q [EvReconcile c q' r] o' \<longleftrightarrow> c = bookCtx \<and> q' = q \<and> answer r = o'"
| "follows n q [EvReconcile c q' r, EvSleep d (Some e)] o' \<longleftrightarrow>
     c = bookCtx \<and> q' = q \<and> answer r = o' \<and> oc_Status o' = OutcomeUnknown \<and> d = reconcile_wait n"
| "follows n q (EvReconcile c q' r # EvSleep d None # es) o' \<longleftrightarrow>
     c = bookCtx \<and> q' = q \<and> oc_Status (answer r) = OutcomeUnknown \<and> d = reconcile_wait n \<and> follows (Suc n) q es o'"
| "follows n q es o' \<longleftrightarrow> False"

lemma asks_simps [simp]:
  "asks [] = 0" "asks (EvReconcile c q r # es) = Suc (asks es)" "asks (EvSleep d x # es) = asks es"
  by (simp_all add: asks_def is_ask_def)

text \<open>
  What Temporal documents of retries: an activity with a maximum of attempts is attempted at most
  that often (no maximum is written 0), and a timer runs no activity. \<open>asked\<close> counts the attempts, each
  of which asks the adapter once.
\<close>

definition retries_bounded :: "('w \<Rightarrow> nat) \<Rightarrow> 'w temporal \<Rightarrow> bool" where
  "retries_bounded asked te \<longleftrightarrow>
     (\<forall>c q w r dt w'. te_ReconcileDispatch te c q w = (r, dt, w') \<and> 0 < ao_MaximumAttempts (wc_opts c) \<longrightarrow>
        asked w' \<le> asked w + ao_MaximumAttempts (wc_opts c)) \<and>
     (\<forall>d w r dt w'. te_Sleep te d w = (r, dt, w') \<longrightarrow> asked w' = asked w)"

lemma ask_event:
  assumes "reconcile_ask te q s = (o', s')"
  obtains r where "sg_history s' = sg_history s @ [EvReconcile bookCtx q r]" "answer r = o'" "sg_now s \<le> sg_now s'"
    "\<And>asked. retries_bounded asked te \<Longrightarrow> asked (sg_world s') \<le> asked (sg_world s) + 3"
proof -
  obtain r dt w where a: "te_ReconcileDispatch te bookCtx q (sg_world s) = (r, dt, w)" using prod_cases3 by blast
  have "asked w \<le> asked (sg_world s) + 3" if "retries_bounded asked te" for asked
    using that a by (fastforce simp: retries_bounded_def bookCtx_def bookkeepingOpts_def)
  with assms a show thesis
    by (intro that [of r]) (auto simp: reconcile_ask_def sg_step_def answer_def)
qed

lemma sleep_event:
  assumes "sg_sleep te d s = (x, s')"
  shows "sg_history s' = sg_history s @ [EvSleep d x]" "x = None \<Longrightarrow> sg_now s + int d \<le> sg_now s'"
    "retries_bounded asked te \<Longrightarrow> asked (sg_world s') = asked (sg_world s)"
  using assms by (auto simp: sg_sleep_def retries_bounded_def split: prod.splits)

lemma loop_schedule:
  assumes "reconcile_loop te q start n s = (o', s')" "int (wait_sum n) \<le> sg_now s - start" "wait_sum n \<le> reconcileWindow"
  shows "\<exists>es. sg_history s' = sg_history s @ es \<and> follows n q es o' \<and> n + asks es \<le> 55 \<and>
    (\<forall>asked. retries_bounded asked te \<longrightarrow> asked (sg_world s') \<le> asked (sg_world s) + 3 * asks es) \<and>
    (oc_Status o' = OutcomeUnknown \<longrightarrow> (\<exists>d e. last es = EvSleep d (Some e)) \<or>
       int reconcileWindow < sg_now s' - start + int reconcileMaxWait)"
  using assms
proof (induction te q start n s arbitrary: o' s' rule: reconcile_loop.induct)
  case (1 te q start n s)
  obtain o1 s1 where ask: "reconcile_ask te q s = (o1, s1)" by fastforce
  obtain r where a: "sg_history s1 = sg_history s @ [EvReconcile bookCtx q r]" "answer r = o1" "sg_now s \<le> sg_now s1"
    "\<And>asked. retries_bounded asked te \<Longrightarrow> asked (sg_world s1) \<le> asked (sg_world s) + 3"
    using ask_event [OF ask] by blast
  obtain x s2 where sl: "sg_sleep te (reconcile_wait n) s1 = (x, s2)" by fastforce
  note z = sleep_event [OF sl]
  have c: "asked (sg_world s2) \<le> asked (sg_world s) + 3" if "retries_bounded asked te" for asked
    using a(4) [OF that] z(3) [OF that] by simp
  have n: "n < 55" by (rule window_waits [OF "1.prems"(3)])
  have loop: "reconcile_loop te q start n s =
      (if oc_Status o1 \<noteq> OutcomeUnknown \<or> sg_now s1 - start + int (reconcile_wait n) > int reconcileWindow then (o1, s1)
       else case x of Some _ \<Rightarrow> (o1, s2) | None \<Rightarrow> reconcile_loop te q start (Suc n) s2)"
    by (simp only: reconcile_loop.simps [of te q start n s] ask sl prod.case)
  show ?case
  proof (cases "oc_Status o1 \<noteq> OutcomeUnknown \<or> sg_now s1 - start + int (reconcile_wait n) > int reconcileWindow")
    case True
    then have "o' = o1" "s' = s1" using "1.prems"(1) loop by simp_all
    with True a n wait_le [of n] show ?thesis by (intro exI [of _ "[EvReconcile bookCtx q r]"]) auto
  next
    case False
    show ?thesis
    proof (cases x)
      case (Some e)
      then have "o' = o1" "s' = s2" using "1.prems"(1) loop False by simp_all
      with False Some a(1,2) z(1) c n show ?thesis
        by (intro exI [of _ "[EvReconcile bookCtx q r, EvSleep (reconcile_wait n) (Some e)]"]) auto
    next
      case None
      have rest: "reconcile_loop te q start (Suc n) s2 = (o', s')" using "1.prems"(1) loop False None by simp
      have "int (wait_sum (Suc n)) \<le> sg_now s2 - start" "wait_sum (Suc n) \<le> reconcileWindow"
        using z(2) None a(3) "1.prems"(2) False by simp_all
      from "1.IH" [OF ask [symmetric] False sl [symmetric] None rest this]
      obtain es where es: "sg_history s' = sg_history s2 @ es" "follows (Suc n) q es o'" "Suc n + asks es \<le> 55"
        "\<forall>asked. retries_bounded asked te \<longrightarrow> asked (sg_world s') \<le> asked (sg_world s2) + 3 * asks es"
        "oc_Status o' = OutcomeUnknown \<longrightarrow> (\<exists>d e. last es = EvSleep d (Some e)) \<or>
           int reconcileWindow < sg_now s' - start + int reconcileMaxWait" by blast
      have "asked (sg_world s') \<le> asked (sg_world s) + 3 * Suc (asks es)" if "retries_bounded asked te" for asked
        using es(4) [rule_format, OF that] c [OF that] by simp
      moreover have "es \<noteq> []" using es(2) by auto
      ultimately show ?thesis
        using False None a(1,2) z(1) es
        by (intro exI [of _ "EvReconcile bookCtx q r # EvSleep (reconcile_wait n) None # es"]) auto
    qed
  qed
qed

section \<open>A sample environment\<close>

text \<open>Every activity succeeds at once; the re-validation and the dispatch answer as given.\<close>

definition sample_te :: "Decision \<Rightarrow> go_error + DispatchOutcome \<Rightarrow> unit temporal" where
  "sample_te dec out =
     \<lparr>te_SideEffect = (\<lambda>w. (Inr ''exe_T'', 0, w)),
      te_VerifyIngressDecision = (\<lambda>c q w. (Inr \<lparr>iv_Valid = True, iv_Reason = Reason_other '''', iv_Detail = ''''\<rparr>, 0, w)),
      te_ClaimExecution = (\<lambda>c q w. (Inr \<lparr>cl_Claimed = True, cl_Reason = Reason_other '''', cl_Detail = ''''\<rparr>, 0, w)),
      te_AdvanceExecutionClaim = (\<lambda>c q w. (None, 0, w)),
      te_EvaluateExecution = (\<lambda>c q w. (Inr dec, 0, w)),
      te_RecordDecision = (\<lambda>c q w. (None, 0, w)),
      te_RecordAuditTrail = (\<lambda>c q w. (None, 0, w)),
      te_DispatchConfig = (\<lambda>c q w. (out, 0, w)),
      te_ReconcileDispatch = (\<lambda>c q w. (out, 0, w)),
      te_RevertStateCompensation = (\<lambda>c q w. (None, 0, w)),
      te_Sleep = (\<lambda>d w. (None, 0, w))\<rparr>"

definition sample_info :: saga_info where
  "sample_info = \<lparr>si_req = \<lparr>er_AgentID = ''a'', er_Proposal = \<lparr>p_ID = ''p'', p_Type = ''C'', p_TargetID = ''t'', p_Payload = ''''\<rparr>,
     er_IngressDecisionID = ''d'', er_RequestHash = ''''\<rparr>, si_WorkflowID = ''saga-p'', si_RunID = ''r''\<rparr>"

definition allow_dec :: Decision where
  "allow_dec = zero_Decision\<lparr>d_Verdict := VerdictAllow\<rparr>"

definition deny_dec :: Decision where
  "deny_dec = zero_Decision\<lparr>d_Verdict := VerdictDeny\<rparr>"

lemmas sample_run = SentryGateSagaWorkflow_def claimed_run_def claim_phase_def revalidate_phase_def dispatch_phase_def
  outcome_phase_def confirmed_phase_def success_phase_def failure_phase_def fail_workflow_def recordDecision_def
  transition_def record_phase_def sg_step_def sample_te_def start_state_def fenceFailure_def Let_def

lemma sample_dispatch:
  "\<exists>h1 c f x h2. sg_history (snd (SentryGateSagaWorkflow (sample_te allow_dec (Inr sim_success)) sample_info (start_state () 0)))
     = h1 @ EvDispatch c f x # h2"
proof -
  have "list_ex is_dispatch (sg_history (snd (SentryGateSagaWorkflow (sample_te allow_dec (Inr sim_success)) sample_info (start_state () 0))))"
    by (simp add: sample_run allow_dec_def sim_success_def Checked_def is_dispatch_def)
  then obtain e where e: "e \<in> set (sg_history (snd (SentryGateSagaWorkflow (sample_te allow_dec (Inr sim_success)) sample_info (start_state () 0))))"
      "is_dispatch e" by (auto simp: list_ex_iff)
  from e(2) obtain c f x where "e = EvDispatch c f x" by (cases e) (auto simp: is_dispatch_def)
  with e(1) show ?thesis by (metis in_set_conv_decomp)
qed

section \<open>Properties of the workflow\<close>

text \<open>
  C9. Whatever the activities return and however long they take, every event a run of the
  workflow schedules was allowed by the protocol at that point of its history.
\<close>

theorem saga_history_legal: "legal i (sg_history (snd (SentryGateSagaWorkflow te i (start_state w t))))"
  by (rule workflow_legal)

text \<open>
  C1. When the workflow schedules the dispatch, the ingress decision was verified, this run's
  token holds the claim of that decision, the current policy allowed the request again, and that
  decision and its audit row were stored; the dispatch names this decision, this token and the
  decision's own idempotency key, it is tried once, and no dispatch came before it.
\<close>

theorem saga_dispatch_guarded:
  assumes "sg_history (snd (SentryGateSagaWorkflow te i (start_state w t))) = h1 @ EvDispatch c f r # h2"
  shows "verified i h1 \<and> claim_granted i h1 (fd_Token f) \<and> revalidated i h1 \<and> allow_recorded h1 \<and> allow_audited h1 \<and>
    f = fenced_dispatch i (fd_Token f) \<and> ao_MaximumAttempts (wc_opts c) = 1 \<and> \<not> list_ex is_dispatch h1"
  using legal_split [OF workflow_legal [of i te w t, unfolded assms]] by simp

theorem saga_dispatch_guarded_witness:
  "\<exists>h1 c f r h2. sg_history (snd (SentryGateSagaWorkflow (sample_te allow_dec (Inr sim_success)) sample_info (start_state () 0)))
       = h1 @ EvDispatch c f r # h2 \<and> revalidated sample_info h1 \<and> claim_granted sample_info h1 (fd_Token f)"
  using sample_dispatch saga_dispatch_guarded by metis

text \<open>
  A run schedules at most one dispatch, at most one compensation and at most one decision
  record.
\<close>

theorem saga_at_most_once:
  "length (filter is_dispatch (sg_history (snd (SentryGateSagaWorkflow te i (start_state w t))))) \<le> 1 \<and>
   length (filter is_compensate (sg_history (snd (SentryGateSagaWorkflow te i (start_state w t))))) \<le> 1 \<and>
   length (filter is_decision (sg_history (snd (SentryGateSagaWorkflow te i (start_state w t))))) \<le> 1"
  by (intro conjI legal_none_after [OF _ workflow_legal]) (erule (1) dispatch_alone compensate_alone decision_alone)+

text \<open>
  C8. What a run returns is what its history shows. No error: success was confirmed, no failure was,
  nothing was compensated, the claim reached COMPLETED and the completion was audited.
  \<^verbatim>\<open>DispatchFailed\<close>: failure was confirmed and success never. \<^verbatim>\<open>DispatchOutcomeUnknown\<close>: a dispatch
  was scheduled and nothing was ever confirmed. \<^verbatim>\<open>ExecutionClaimRejected\<close>: no dispatch was scheduled
  or its fence failed. An ingress or re-validation refusal: no dispatch was scheduled.
\<close>

theorem saga_result:
  "result_ok (fst (SentryGateSagaWorkflow te i (start_state w t)))
     (sg_history (snd (SentryGateSagaWorkflow te i (start_state w t))))"
  using workflow_ok [of te i w t] by (cases "SentryGateSagaWorkflow te i (start_state w t)") simp

text \<open>
  C11. A run that asked for the claim, was not refused it and never scheduled a dispatch ends
  by releasing it, whichever way it ends.
\<close>

theorem saga_claim_given_back:
  assumes "list_ex is_claim (sg_history (snd (SentryGateSagaWorkflow te i (start_state w t))))"
    and "\<not> claim_refused (sg_history (snd (SentryGateSagaWorkflow te i (start_state w t))))"
    and "\<not> list_ex is_dispatch (sg_history (snd (SentryGateSagaWorkflow te i (start_state w t))))"
  shows "\<exists>token x. last (sg_history (snd (SentryGateSagaWorkflow te i (start_state w t)))) =
    EvAdvance claimCtx \<lparr>ct_DecisionID = er_IngressDecisionID (si_req i), ct_Token = token, ct_To = ClaimStateReleased\<rparr> x"
  using workflow_ok [of te i w t] assms by (cases "SentryGateSagaWorkflow te i (start_state w t)") auto

theorem saga_claim_given_back_witness:
  "\<exists>token x. last (sg_history (snd (SentryGateSagaWorkflow (sample_te deny_dec (Inr sim_success)) sample_info (start_state () 0)))) =
    EvAdvance claimCtx \<lparr>ct_DecisionID = ''d'', ct_Token = token, ct_To = ClaimStateReleased\<rparr> x"
proof -
  have "er_IngressDecisionID (si_req sample_info) = ''d''" by (simp add: sample_info_def)
  moreover have "\<exists>token x. last (sg_history (snd (SentryGateSagaWorkflow (sample_te deny_dec (Inr sim_success)) sample_info (start_state () 0)))) =
    EvAdvance claimCtx \<lparr>ct_DecisionID = er_IngressDecisionID (si_req sample_info), ct_Token = token, ct_To = ClaimStateReleased\<rparr> x"
    by (rule saga_claim_given_back)
      (simp_all add: sample_run deny_dec_def is_claim_def is_dispatch_def claim_refused_def)
  ultimately show ?thesis by simp
qed

text \<open>
  The audit rows of a run have pairwise different identifiers, so none of them can be
  refused or dropped as a duplicate of another.
\<close>

theorem saga_audit_rows_distinct:
  "distinct (audit_ids (sg_history (snd (SentryGateSagaWorkflow te i (start_state w t)))))"
  by (rule legal_audit_ids [OF workflow_legal])

text \<open>
  C38. Reconciliation keeps to its schedule and ends. It schedules \<^verbatim>\<open>ReconcileDispatch\<close> at once and then
  after waits that double from 10 seconds to at most 30 minutes, always with the same request, at most
  55 times; as each of these activities is attempted at most three times, the adapter is asked at
  most 165 times. The first confirmed outcome is the result. It gives up without one only
  when the workflow is cancelled during a wait, or when the next wait would pass the end of the window.
\<close>

theorem reconcile_schedule:
  assumes "reconcileDispatch te q s = (o', s')"
  shows "\<exists>es. sg_history s' = sg_history s @ es \<and> follows 0 q es o' \<and> asks es \<le> 55 \<and>
    (\<forall>asked. retries_bounded asked te \<longrightarrow> asked (sg_world s') \<le> asked (sg_world s) + 165) \<and>
    (oc_Status o' = OutcomeUnknown \<longrightarrow> (\<exists>d e. last es = EvSleep d (Some e)) \<or>
       int reconcileWindow < sg_now s' - sg_now s + int reconcileMaxWait)"
proof -
  obtain es where es: "sg_history s' = sg_history s @ es" "follows 0 q es o'" "asks es \<le> 55"
    "\<forall>asked. retries_bounded asked te \<longrightarrow> asked (sg_world s') \<le> asked (sg_world s) + 3 * asks es"
    "oc_Status o' = OutcomeUnknown \<longrightarrow> (\<exists>d e. last es = EvSleep d (Some e)) \<or>
       int reconcileWindow < sg_now s' - sg_now s + int reconcileMaxWait"
    using loop_schedule [of te q "sg_now s" 0 s o' s'] assms by (auto simp: reconcileDispatch_def)
  have "asked (sg_world s') \<le> asked (sg_world s) + 165" if "retries_bounded asked te" for asked
    using es(4) [rule_format, OF that] es(3) by simp
  with es show ?thesis by blast
qed

text \<open>Every attempt fails and no wait is cut short; the world counts the attempts.\<close>

definition silent_te :: "nat temporal" where
  "silent_te =
     \<lparr>te_SideEffect = (\<lambda>w. (Inr ''exe_T'', 0, w)),
      te_VerifyIngressDecision = (\<lambda>c q w. (Inl (errors_New ''timeout''), 0, w)),
      te_ClaimExecution = (\<lambda>c q w. (Inl (errors_New ''timeout''), 0, w)),
      te_AdvanceExecutionClaim = (\<lambda>c q w. (None, 0, w)),
      te_EvaluateExecution = (\<lambda>c q w. (Inl (errors_New ''timeout''), 0, w)),
      te_RecordDecision = (\<lambda>c q w. (None, 0, w)),
      te_RecordAuditTrail = (\<lambda>c q w. (None, 0, w)),
      te_DispatchConfig = (\<lambda>c q w. (Inl (errors_New ''timeout''), 0, w)),
      te_ReconcileDispatch = (\<lambda>c q w. (Inl (errors_New ''timeout''), 0, w + ao_MaximumAttempts (wc_opts c))),
      te_RevertStateCompensation = (\<lambda>c q w. (None, 0, w)),
      te_Sleep = (\<lambda>d w. (None, 0, w))\<rparr>"

theorem reconcile_schedule_witness:
  "sg_world (snd (reconcileDispatch silent_te (dispatch_request sample_info) (start_state 0 0))) \<le> 165 \<and>
   (\<exists>es. follows 0 (dispatch_request sample_info) es
      (fst (reconcileDispatch silent_te (dispatch_request sample_info) (start_state 0 0))) \<and> asks es \<le> 55)"
proof -
  have "retries_bounded (\<lambda>w. w) silent_te" by (simp add: retries_bounded_def silent_te_def)
  with reconcile_schedule [OF surjective_pairing, of silent_te "dispatch_request sample_info" "start_state 0 0"]
  show ?thesis by (fastforce simp: start_state_def)
qed

end
