(* ===== verification/Saga_Trace.thy ===== *)
theory Saga_Trace
  imports Saga_Protocol
begin

text \<open>
  The history of a run read as a trace of the world. \<open>obeys R te\<close> says of an environment that every
  activity it runs, with the event the workflow sees of it, takes the world along \<open>R\<close>; every run of
  the workflow then takes it along a chain of such steps, one per event of its history. The facts on
  the closed system are proved through these chains.
\<close>

section \<open>Chains\<close>

type_synonym 'w step = "'w \<Rightarrow> saga_event \<Rightarrow> 'w \<Rightarrow> bool"

fun chain :: "'w step \<Rightarrow> 'w \<Rightarrow> saga_event list \<Rightarrow> 'w \<Rightarrow> bool" where
  "chain R w [] w' \<longleftrightarrow> w' = w"
| "chain R w (e # es) w' \<longleftrightarrow> (\<exists>v. R w e v \<and> chain R v es w')"

lemma chain_append: "chain R w (xs @ ys) w' \<longleftrightarrow> (\<exists>v. chain R w xs v \<and> chain R v ys w')"
  by (induction xs arbitrary: w) auto

lemma chain_invariant:
  assumes "chain R w es w'" "I w" "\<And>w e w'. R w e w' \<Longrightarrow> I w \<Longrightarrow> I w'"
  shows "I w'"
  using assms(1,2) by (induction es arbitrary: w) (auto dest: assms(3))

definition evolves :: "'w step \<Rightarrow> 'w saga_state \<Rightarrow> 'w saga_state \<Rightarrow> bool" where
  "evolves R s s' \<longleftrightarrow> (\<exists>es. sg_history s' = sg_history s @ es \<and> chain R (sg_world s) es (sg_world s'))"

lemma evolves_refl: "evolves R s s"
  by (simp add: evolves_def)

lemma evolves_snoc:
  "evolves R s0 s \<Longrightarrow> R (sg_world s) e (sg_world s') \<Longrightarrow> sg_history s' = sg_history s @ [e] \<Longrightarrow> evolves R s0 s'"
  unfolding evolves_def
proof (elim exE conjE)
  fix es
  assume "R (sg_world s) e (sg_world s')" "sg_history s' = sg_history s @ [e]"
    "sg_history s = sg_history s0 @ es" "chain R (sg_world s0) es (sg_world s)"
  then show "\<exists>es. sg_history s' = sg_history s0 @ es \<and> chain R (sg_world s0) es (sg_world s')"
    by (intro exI [of _ "es @ [e]"]) (auto simp: chain_append)
qed

lemma evolves_seq: "evolves R s0 (s\<lparr>sg_auditSeq := n\<rparr>) = evolves R s0 s"
  by (simp add: evolves_def)

section \<open>Environments\<close>

definition obeys :: "'w step \<Rightarrow> 'w temporal \<Rightarrow> bool" where
  "obeys R te \<longleftrightarrow>
     (\<forall>w r dt w'. te_SideEffect te w = (r, dt, w') \<longrightarrow> R w (EvToken r) w') \<and>
     (\<forall>c q w r dt w'. te_VerifyIngressDecision te c q w = (r, dt, w') \<longrightarrow> R w (EvVerify c q r) w') \<and>
     (\<forall>c q w r dt w'. te_ClaimExecution te c q w = (r, dt, w') \<longrightarrow> R w (EvClaim c q r) w') \<and>
     (\<forall>c q w r dt w'. te_AdvanceExecutionClaim te c q w = (r, dt, w') \<longrightarrow> R w (EvAdvance c q r) w') \<and>
     (\<forall>c q w r dt w'. te_EvaluateExecution te c q w = (r, dt, w') \<longrightarrow> R w (EvEvaluate c q r) w') \<and>
     (\<forall>c q w r dt w'. te_RecordDecision te c q w = (r, dt, w') \<longrightarrow> R w (EvDecision c q r) w') \<and>
     (\<forall>c q w r dt w'. te_RecordAuditTrail te c q w = (r, dt, w') \<longrightarrow> R w (EvAudit c q r) w') \<and>
     (\<forall>c q w r dt w'. te_DispatchConfig te c q w = (r, dt, w') \<longrightarrow> R w (EvDispatch c q r) w') \<and>
     (\<forall>c q w r dt w'. te_ReconcileDispatch te c q w = (r, dt, w') \<longrightarrow> R w (EvReconcile c q r) w') \<and>
     (\<forall>c q w r dt w'. te_RevertStateCompensation te c q w = (r, dt, w') \<longrightarrow> R w (EvCompensate c q r) w') \<and>
     (\<forall>d w r dt w'. te_Sleep te d w = (r, dt, w') \<longrightarrow> R w (EvSleep d r) w')"

lemma step_evolves:
  assumes "evolves R s0 s" "sg_step ev act s = (r, s')" "\<And>w r dt w'. act w = (r, dt, w') \<Longrightarrow> R w (ev r) w'"
  shows "evolves R s0 s'"
  using assms by (auto simp: sg_step_def intro!: evolves_snoc [OF assms(1)] split: prod.splits)

text \<open>Every phase takes a state reached from \<open>s0\<close> to a state reached from \<open>s0\<close>.\<close>

lemma record_phase_evolves:
  assumes "obeys R te" "record_phase te i c ph v d s = (r, s')" "evolves R s0 s"
  shows "evolves R s0 s'"
  using assms(3,2) unfolding record_phase_def Let_def
  by (rule step_evolves [OF evolves_seq [THEN iffD2]]) (use assms(1) in \<open>simp add: obeys_def\<close>)

lemma recordDecision_evolves:
  assumes "obeys R te" "recordDecision te i dec s = (r, s')" "evolves R s0 s"
  shows "evolves R s0 s'"
  using assms(3,2) unfolding recordDecision_def Let_def
  by (rule step_evolves) (use assms(1) in \<open>simp add: obeys_def\<close>)

lemma transition_evolves:
  assumes "obeys R te" "transition te i token to s = (r, s')" "evolves R s0 s"
  shows "evolves R s0 s'"
  using assms(3,2) unfolding transition_def Let_def
  by (rule step_evolves) (use assms(1) in \<open>simp add: obeys_def\<close>)

lemma activity_evolves:
  assumes "obeys R te" "evolves R s0 s"
  shows "sg_step (EvVerify c q1) (te_VerifyIngressDecision te c q1) s = (r1, s') \<Longrightarrow> evolves R s0 s'"
    and "sg_step EvToken (te_SideEffect te) s = (r2, s') \<Longrightarrow> evolves R s0 s'"
    and "sg_step (EvClaim c q3) (te_ClaimExecution te c q3) s = (r3, s') \<Longrightarrow> evolves R s0 s'"
    and "sg_step (EvEvaluate c q1) (te_EvaluateExecution te c q1) s = (r4, s') \<Longrightarrow> evolves R s0 s'"
    and "sg_step (EvDispatch c q5) (te_DispatchConfig te c q5) s = (r5, s') \<Longrightarrow> evolves R s0 s'"
    and "sg_step (EvReconcile c q6) (te_ReconcileDispatch te c q6) s = (r6, s') \<Longrightarrow> evolves R s0 s'"
    and "sg_step (EvCompensate c q6) (te_RevertStateCompensation te c q6) s = (r7, s') \<Longrightarrow> evolves R s0 s'"
  by (rule step_evolves [OF assms(2)], assumption, use assms(1) in \<open>simp add: obeys_def\<close>)+

lemma reconcile_ask_evolves:
  assumes "obeys R te" "reconcile_ask te q s = (r, s')" "evolves R s0 s"
  shows "evolves R s0 s'"
proof -
  obtain r1 where "sg_step (EvReconcile bookCtx q) (te_ReconcileDispatch te bookCtx q) s = (r1, s')"
    using assms(2) by (auto simp: reconcile_ask_def split: prod.splits)
  then show ?thesis by (rule activity_evolves(6) [OF assms(1,3)])
qed

lemma sleep_evolves:
  assumes "obeys R te" "sg_sleep te d s = (r, s')" "evolves R s0 s"
  shows "evolves R s0 s'"
proof -
  obtain late where "te_Sleep te d (sg_world s) = (r, late, sg_world s')" "sg_history s' = sg_history s @ [EvSleep d r]"
    using assms(2) by (auto simp: sg_sleep_def split: prod.splits)
  with assms(1) show ?thesis by (intro evolves_snoc [OF assms(3)]) (auto simp: obeys_def)
qed

lemma loop_evolves:
  assumes "obeys R te" "reconcile_loop te q start n s = (r, s')" "evolves R s0 s"
  shows "evolves R s0 s'"
  using assms
proof (induction te q start n s arbitrary: r s' rule: reconcile_loop.induct)
  case (1 te q start n s)
  obtain o' s1 where a: "reconcile_ask te q s = (o', s1)" by fastforce
  obtain e s2 where z: "sg_sleep te (reconcile_wait n) s1 = (e, s2)" by fastforce
  have e1: "evolves R s0 s1" by (rule reconcile_ask_evolves [OF 1(2) a 1(4)])
  have e2: "evolves R s0 s2" by (rule sleep_evolves [OF 1(2) z e1])
  have l: "reconcile_loop te q start n s =
      (if oc_Status o' \<noteq> OutcomeUnknown \<or> sg_now s1 - start + int (reconcile_wait n) > int reconcileWindow then (o', s1)
       else case e of Some _ \<Rightarrow> (o', s2) | None \<Rightarrow> reconcile_loop te q start (Suc n) s2)"
    by (simp only: reconcile_loop.simps [of te q start n s] a z prod.case)
  show ?case
  proof (cases "oc_Status o' \<noteq> OutcomeUnknown \<or> sg_now s1 - start + int (reconcile_wait n) > int reconcileWindow")
    case True
    with 1(3) l e1 show ?thesis by simp
  next
    case no: False
    show ?thesis
    proof (cases e)
      case None
      have "reconcile_loop te q start (Suc n) s2 = (r, s')" using 1(3) l no None by simp
      with 1(1) [OF a [symmetric] no z [symmetric] None 1(2)] e2 show ?thesis by simp
    next
      case (Some x)
      with 1(3) l no e2 show ?thesis by simp
    qed
  qed
qed

lemma reject_evolves:
  assumes "obeys R te" "reject te i ty rs d s = (r, s')" "evolves R s0 s"
  shows "evolves R s0 s'"
  using assms(2,3) by (auto simp: reject_def Let_def split: prod.splits option.splits sum.splits if_splits
      dest: record_phase_evolves [OF assms(1)] recordDecision_evolves [OF assms(1)] transition_evolves [OF assms(1)])

lemma success_phase_evolves:
  assumes "obeys R te" "success_phase te i token a s = (r, s')" "evolves R s0 s"
  shows "evolves R s0 s'"
  using assms(2,3) by (auto simp: success_phase_def Let_def split: prod.splits option.splits sum.splits if_splits
      dest: record_phase_evolves [OF assms(1)] recordDecision_evolves [OF assms(1)] transition_evolves [OF assms(1)])

lemma fail_workflow_evolves:
  assumes "obeys R te" "fail_workflow te i f s = (r, s')" "evolves R s0 s"
  shows "evolves R s0 s'"
  using assms(2,3) by (auto simp: fail_workflow_def Let_def split: prod.splits option.splits sum.splits if_splits
      dest: record_phase_evolves [OF assms(1)] recordDecision_evolves [OF assms(1)] transition_evolves [OF assms(1)])

lemma failure_phase_evolves:
  assumes "obeys R te" "failure_phase te i token out s = (r, s')" "evolves R s0 s"
  shows "evolves R s0 s'"
  using assms(2,3) by (auto simp: failure_phase_def Let_def split: prod.splits option.splits sum.splits if_splits
      dest: record_phase_evolves [OF assms(1)] recordDecision_evolves [OF assms(1)] transition_evolves [OF assms(1)] fail_workflow_evolves [OF assms(1)] activity_evolves(7) [OF assms(1), rotated])

lemma confirmed_phase_evolves:
  assumes "obeys R te" "confirmed_phase te i token out a s = (r, s')" "evolves R s0 s"
  shows "evolves R s0 s'"
  using assms(2,3) by (auto simp: confirmed_phase_def Let_def split: prod.splits option.splits sum.splits if_splits
      dest: failure_phase_evolves [OF assms(1)] success_phase_evolves [OF assms(1)])

lemma unknown_phase_evolves:
  assumes "obeys R te" "unknown_phase te i token s = (r, s')" "evolves R s0 s"
  shows "evolves R s0 s'"
  using assms(2,3) by (auto simp: unknown_phase_def reconcileDispatch_def Let_def split: prod.splits option.splits sum.splits if_splits
      dest: record_phase_evolves [OF assms(1)] recordDecision_evolves [OF assms(1)] transition_evolves [OF assms(1)] loop_evolves [OF assms(1)] confirmed_phase_evolves [OF assms(1)])

lemma outcome_phase_evolves:
  assumes "obeys R te" "outcome_phase te i token out a s = (r, s')" "evolves R s0 s"
  shows "evolves R s0 s'"
  using assms(2,3) by (auto simp: outcome_phase_def Let_def split: prod.splits option.splits sum.splits if_splits
      dest: unknown_phase_evolves [OF assms(1)] confirmed_phase_evolves [OF assms(1)])

lemma fence_failed_phase_evolves:
  assumes "obeys R te" "fence_failed_phase te i token e s = (r, s')" "evolves R s0 s"
  shows "evolves R s0 s'"
  using assms(2,3) by (auto simp: fence_failed_phase_def Let_def split: prod.splits option.splits sum.splits if_splits
      dest: record_phase_evolves [OF assms(1)] recordDecision_evolves [OF assms(1)] transition_evolves [OF assms(1)] outcome_phase_evolves [OF assms(1)])

lemma dispatch_phase_evolves:
  assumes "obeys R te" "dispatch_phase te i token s = (r, s')" "evolves R s0 s"
  shows "evolves R s0 s'"
  using assms(2,3) by (auto simp: dispatch_phase_def Let_def split: prod.splits option.splits sum.splits if_splits
      dest: record_phase_evolves [OF assms(1)] recordDecision_evolves [OF assms(1)] transition_evolves [OF assms(1)] fence_failed_phase_evolves [OF assms(1)] outcome_phase_evolves [OF assms(1)] activity_evolves(5) [OF assms(1), rotated])

lemma revalidate_phase_evolves:
  assumes "obeys R te" "revalidate_phase te i token s = (r, rel, s')" "evolves R s0 s"
  shows "evolves R s0 s'"
  using assms(2,3) by (auto simp: revalidate_phase_def Let_def split: prod.splits option.splits sum.splits if_splits
      dest: record_phase_evolves [OF assms(1)] recordDecision_evolves [OF assms(1)] transition_evolves [OF assms(1)] dispatch_phase_evolves [OF assms(1)] activity_evolves(4) [OF assms(1), rotated])

lemma claim_phase_evolves:
  assumes "obeys R te" "claim_phase te i token s = (r, rel, s')" "evolves R s0 s"
  shows "evolves R s0 s'"
  using assms(2,3) by (auto simp: claim_phase_def Let_def split: prod.splits option.splits sum.splits if_splits
      dest: reject_evolves [OF assms(1)] revalidate_phase_evolves [OF assms(1)] activity_evolves(3) [OF assms(1), rotated])

lemma claimed_run_evolves:
  assumes "obeys R te" "claimed_run te i token s = (r, s')" "evolves R s0 s"
  shows "evolves R s0 s'"
proof -
  obtain r1 rel s1 where c: "claim_phase te i token s = (r1, rel, s1)" using prod_cases3 by blast
  obtain r2 s2 where t: "transition te i token ClaimStateReleased s1 = (r2, s2)" by fastforce
  have "s' = s1 \<or> s' = s2" using assms(2) c t by (auto simp: claimed_run_def split: if_splits)
  with claim_phase_evolves [OF assms(1) c assms(3)] transition_evolves [OF assms(1) t] show ?thesis by blast
qed

lemma workflow_evolves:
  assumes "obeys R te" "SentryGateSagaWorkflow te i s = (r, s')" "evolves R s0 s"
  shows "evolves R s0 s'"
  using assms(2,3) by (auto simp: SentryGateSagaWorkflow_def Let_def split: prod.splits option.splits sum.splits if_splits
      dest: reject_evolves [OF assms(1)] claimed_run_evolves [OF assms(1)] activity_evolves(1,2) [OF assms(1), rotated])

text \<open>The history of a whole run is a chain from the world it started in to the world it left.\<close>

lemma workflow_chain:
  assumes "obeys R te" "SentryGateSagaWorkflow te i (start_state w t) = (r, s')"
  shows "chain R w (sg_history s') (sg_world s')"
  using workflow_evolves [OF assms evolves_refl] by (auto simp: evolves_def start_state_def)

end
