(* ===== verification/System.thy ===== *)
theory System
  imports Saga_Trace Worker
begin

text \<open>
  The workflow of \<^verbatim>\<open>workflows/saga.go\<close> run by the worker of \<^verbatim>\<open>cmd/worker/main.go\<close>. Temporal stays a
  parameter; what is relied on is \<open>worker_temporal\<close>: a result that \<^verbatim>\<open>Get\<close> delivers is the result of an
  attempt that the worker ran for this run between the scheduling and the delivery, and whatever
  else happens meanwhile is operations of the system, by anybody, in any number. An error may come
  with or without an attempt. The worker is not restarted, because the simulated adapter keeps its
  record in memory.
\<close>

section \<open>What a delivered result means\<close>

definition steady :: "sys_op list \<Rightarrow> bool" where
  "steady ops \<longleftrightarrow> DoRestart \<notin> set ops"

definition meanwhile :: "system \<Rightarrow> system \<Rightarrow> bool" where
  "meanwhile w w' \<longleftrightarrow> (\<exists>ops. steady ops \<and> w' = sys_run ops w)"

definition own_attempt :: "saga_info \<Rightarrow> attempt \<Rightarrow> bool" where
  "own_attempt i ctx \<longleftrightarrow> ax_WorkflowID ctx = si_WorkflowID i \<and> ax_RunID ctx = si_RunID i"

text \<open>An attempt of this run that returned \<open>r\<close>, with other operations before and after it.\<close>

definition attempted :: "saga_info \<Rightarrow> (attempt \<Rightarrow> system \<Rightarrow> 'r \<times> system) \<Rightarrow> 'r \<Rightarrow> system \<Rightarrow> system \<Rightarrow> bool" where
  "attempted i act r w w' \<longleftrightarrow>
     (\<exists>ctx v v'. own_attempt i ctx \<and> meanwhile w v \<and> act ctx v = (r, v') \<and> meanwhile v' w')"

definition witnessed :: "saga_info \<Rightarrow> system step" where
  "witnessed i w e w' = (case e of
       EvVerify c q (Inr v) \<Rightarrow> attempted i (\<lambda>ctx w. (wk_VerifyIngressDecision ctx q w, w)) (Inr v) w w'
     | EvClaim c q (Inr cl) \<Rightarrow> attempted i (\<lambda>ctx. wk_ClaimExecution ctx q) (Inr cl) w w'
     | EvAdvance c t None \<Rightarrow> attempted i (\<lambda>ctx. wk_AdvanceExecutionClaim ctx t) None w w'
     | EvEvaluate c q (Inr d) \<Rightarrow> attempted i (\<lambda>ctx w. (wk_EvaluateExecution ctx q w, w)) (Inr d) w w'
     | EvDecision c r None \<Rightarrow> attempted i (\<lambda>ctx. wk_RecordDecision ctx r) None w w'
     | EvAudit c r None \<Rightarrow> attempted i (\<lambda>ctx. wk_RecordAuditTrail ctx r) None w w'
     | EvDispatch c f (Inr o') \<Rightarrow> attempted i (\<lambda>ctx. wk_send ctx f) (Some o') w w'
     | EvReconcile c q (Inr o') \<Rightarrow> attempted i (\<lambda>ctx. wk_ReconcileDispatch ctx q) o' w w'
     | EvCompensate c q None \<Rightarrow> attempted i (\<lambda>ctx. wk_RevertStateCompensation ctx q) None w w'
     | _ \<Rightarrow> meanwhile w w')"

definition worker_temporal :: "saga_info \<Rightarrow> system temporal \<Rightarrow> bool" where
  "worker_temporal i te \<longleftrightarrow> obeys (witnessed i) te"

definition sys_ok :: "system \<Rightarrow> bool" where
  "sys_ok w \<longleftrightarrow> sql_inv (sy_db w) \<and> sim_inv (sy_adapter w)"

section \<open>Operations in between\<close>

lemma meanwhile_refl: "meanwhile w w"
  by (auto simp: meanwhile_def steady_def intro!: exI [of _ "[]"])

lemma meanwhile_trans: "meanwhile u v \<Longrightarrow> meanwhile v w \<Longrightarrow> meanwhile u w"
  unfolding meanwhile_def
proof (elim exE conjE)
  fix xs ys
  assume "steady xs" "steady ys" "v = sys_run xs u" "w = sys_run ys v"
  then show "\<exists>ops. steady ops \<and> w = sys_run ops u"
    by (intro exI [of _ "xs @ ys"]) (auto simp: steady_def)
qed

lemma meanwhile_op: "op \<noteq> DoRestart \<Longrightarrow> meanwhile w (sys_exec op w)"
  by (auto simp: meanwhile_def steady_def intro!: exI [of _ "[op]"])

lemma meanwhile_induct:
  assumes "meanwhile w w'" "P w" "\<And>op w. op \<noteq> DoRestart \<Longrightarrow> P w \<Longrightarrow> P (sys_exec op w)"
  shows "P w'"
proof -
  obtain ops where "steady ops" "w' = sys_run ops w" using assms(1) by (auto simp: meanwhile_def)
  then show ?thesis using assms(2)
  proof (induction ops arbitrary: w)
    case (Cons op ops)
    then show ?case using assms(3) [of op w] by (auto simp: steady_def)
  qed simp
qed

text \<open>The attempt itself is an operation, too.\<close>

lemma attempted_meanwhile:
  assumes "attempted i act r w w'" "\<And>ctx v. meanwhile v (snd (act ctx v))"
  shows "meanwhile w w'"
  using assms meanwhile_trans unfolding attempted_def by (metis snd_conv)

lemma witnessed_meanwhile:
  assumes "witnessed i w e w'"
  shows "meanwhile w w'"
proof -
  have op: "meanwhile v (snd (wk_ClaimExecution ctx q1 v))" "meanwhile v (snd (wk_AdvanceExecutionClaim ctx q2 v))"
    "meanwhile v (snd (wk_RecordDecision ctx q3 v))" "meanwhile v (snd (wk_RecordAuditTrail ctx q4 v))"
    "meanwhile v (snd (wk_send ctx q5 v))" "meanwhile v (snd (wk_ReconcileDispatch ctx q6 v))"
    "meanwhile v (snd (wk_RevertStateCompensation ctx q6 v))" for v ctx q1 q2 q3 q4 q5 q6
    using meanwhile_op [of "DoClaim ctx q1" v] meanwhile_op [of "DoAdvance ctx q2" v] meanwhile_op [of "DoDecision ctx q3" v]
      meanwhile_op [of "DoAudit ctx q4" v] meanwhile_op [of "DoSend ctx q5" v] meanwhile_op [of "DoReconcile ctx q6" v]
      meanwhile_op [of "DoCompensate ctx q6" v]
    by simp_all
  show ?thesis
    using assms by (cases e) (auto simp: witnessed_def meanwhile_refl op split: sum.splits option.splits
        elim!: attempted_meanwhile)
qed

lemma chain_meanwhile: "chain (witnessed i) w es w' \<Longrightarrow> meanwhile w w'"
  by (induction es arbitrary: w) (auto simp: meanwhile_refl dest: witnessed_meanwhile intro: meanwhile_trans)

section \<open>What stays\<close>

text \<open>The adapter keeps its invariant, and a closed key its count.\<close>

lemma sys_exec_sim:
  assumes "sim_inv (sy_adapter w)"
  shows "sim_inv (sy_adapter (sys_exec op w))"
    and "op \<noteq> DoRestart \<Longrightarrow> sim_closed (sy_adapter w) k \<Longrightarrow>
      sim_closed (sy_adapter (sys_exec op w)) k \<and> Mutations (sy_adapter (sys_exec op w)) k = Mutations (sy_adapter w) k"
proof (atomize (full), cases op)
  case (DoSend ctx req)
  obtain o' a where d: "Sim_Dispatch (ax_Adapter ctx) (fd_Dispatch req) (sy_adapter w) = (o', a)" by fastforce
  from sim.dispatch_invar [OF assms d] sim.dispatch_other [OF assms d, of k] sim.dispatch_closed [OF assms d] assms
  show "sim_inv (sy_adapter (sys_exec op w)) \<and> (op \<noteq> DoRestart \<longrightarrow> sim_closed (sy_adapter w) k \<longrightarrow>
      sim_closed (sy_adapter (sys_exec op w)) k \<and> Mutations (sy_adapter (sys_exec op w)) k = Mutations (sy_adapter w) k)"
    by (cases "k = dq_IdempotencyKey (fd_Dispatch req)") (auto simp: DoSend wk_send_def d)
next
  case (DoReconcile ctx req)
  obtain o' a where d: "Sim_Reconcile (ax_Adapter ctx) req (sy_adapter w) = (o', a)" by fastforce
  from sim.reconcile_invar [OF assms d] assms
  show "sim_inv (sy_adapter (sys_exec op w)) \<and> (op \<noteq> DoRestart \<longrightarrow> sim_closed (sy_adapter w) k \<longrightarrow>
      sim_closed (sy_adapter (sys_exec op w)) k \<and> Mutations (sy_adapter (sys_exec op w)) k = Mutations (sy_adapter w) k)"
    by (simp add: DoReconcile wk_ReconcileDispatch_def ReconcileDispatch_def d)
next
  case (DoCompensate ctx req)
  obtain e a where d: "Sim_Compensate (ax_Adapter ctx) req (sy_adapter w) = (e, a)" by fastforce
  from sim.compensate_invar [OF assms d] assms
  show "sim_inv (sy_adapter (sys_exec op w)) \<and> (op \<noteq> DoRestart \<longrightarrow> sim_closed (sy_adapter w) k \<longrightarrow>
      sim_closed (sy_adapter (sys_exec op w)) k \<and> Mutations (sy_adapter (sys_exec op w)) k = Mutations (sy_adapter w) k)"
    by (simp add: DoCompensate wk_RevertStateCompensation_def RevertStateCompensation_def d)
qed (use assms in \<open>simp_all add: wk_ClaimExecution_def wk_AdvanceExecutionClaim_def wk_RecordDecision_def
    wk_RecordAuditTrail_def wk_fence_def case_prod_beta split: option.splits\<close>)

lemma sys_ok_exec: "sys_ok w \<Longrightarrow> sys_ok (sys_exec op w)"
  using sys_exec_db [of w op] sys_exec_sim(1) [of w op] by (simp add: sys_ok_def)

lemma sys_ok_meanwhile: "meanwhile w w' \<Longrightarrow> sys_ok w \<Longrightarrow> sys_ok w'"
  by (rule meanwhile_induct [of w w' sys_ok]) (auto intro: sys_ok_exec)

lemma closed_meanwhile:
  assumes "meanwhile w w'" "sys_ok w" "sim_closed (sy_adapter w) k"
  shows "sim_closed (sy_adapter w') k \<and> Mutations (sy_adapter w') k = Mutations (sy_adapter w) k"
proof -
  let ?P = "\<lambda>v. sys_ok v \<and> sim_closed (sy_adapter v) k \<and> Mutations (sy_adapter v) k = Mutations (sy_adapter w) k"
  have "?P w'"
    by (rule meanwhile_induct [OF assms(1), of ?P]) (use assms sys_ok_exec sys_exec_sim(2) in \<open>auto simp: sys_ok_def\<close>)
  then show ?thesis by simp
qed

text \<open>A claim in a final state keeps its state and its owner.\<close>

lemma final_meanwhile:
  assumes "meanwhile w w'" "sys_ok w" "sql_claims (sy_db w) d = Some c" "final_state (ec_State c)"
  shows "\<exists>c'. sql_claims (sy_db w') d = Some c' \<and> ec_State c' = ec_State c \<and> ec_Owner c' = ec_Owner c"
proof -
  obtain ops where "w' = sys_run ops w" using assms(1) by (auto simp: meanwhile_def)
  then obtain tr where tr: "claim_run (sql_claims (sy_db w)) tr (sql_claims (sy_db w'))"
    using sys_run_db [of w ops] assms(2) by (auto simp: sys_ok_def)
  have u: "used (sql_claims (sy_db w)) d" using assms(3,4) by (auto simp: used_def used_state_def final_state_def)
  from run_final [OF tr assms(3,4)] run_owner [OF tr u] assms(3) show ?thesis by auto
qed

text \<open>Decision records stay.\<close>

lemma update_claim_decisions: "update_claim d w to src t db = Inr (n, db') \<Longrightarrow> db_decisions db' = db_decisions db"
  by (auto simp: update_claim_def Let_def split: if_splits)

lemma upsert_claim_decisions: "upsert_claim fk d w t db = Inr (n, db') \<Longrightarrow> db_decisions db' = db_decisions db"
  by (auto simp: upsert_claim_def split: option.splits if_splits)

lemma ExecContext_decisions:
  assumes "ExecContext f stmt db = (r, db')" "\<And>n db'. stmt db = Inr (n, db') \<Longrightarrow> db_decisions db' = db_decisions db"
  shows "db_decisions db' = db_decisions db"
  using assms by (auto simp: ExecContext_def split: exec_fault.splits sum.splits)

lemma claim_calls_decisions:
  "db_decisions (snd (Sql_ClaimExecution env d w t db)) = db_decisions db"
  "db_decisions (snd (Sql_AdvanceClaim env d w to t db)) = db_decisions db"
  using ExecContext_decisions [OF _ upsert_claim_decisions] ExecContext_decisions [OF _ update_claim_decisions]
  by (auto simp: Sql_ClaimExecution_def Sql_AdvanceClaim_def split: prod.splits exec_result.splits option.splits sum.splits)

lemma append_decisions: "sql_inv db \<Longrightarrow> \<exists>rs. db_decisions (snd (Sql_AppendDecision env r db)) = db_decisions db @ rs"
  using Sql_AppendDecision_cases [OF _ surjective_pairing, of db env r] by auto

lemma audit_decisions: "sql_inv db \<Longrightarrow> db_decisions (snd (Sql_Append env now r db)) = db_decisions db"
  using Sql_Append_safe [OF _ surjective_pairing, of db env now r] by auto

lemma fence_decisions: "db_decisions (snd (acquire_fence sql_Claims ctx req db)) = db_decisions db"
  using claim_calls_decisions(2) [of "ax_Store ctx" "fd_DecisionID req" "claimOwner ctx (fd_Token req)" ClaimStateExecuting "ax_Now ctx" db]
  by (auto simp: acquire_fence_def sql_Claims_def Let_def split: prod.splits option.splits sum.splits)

lemma sys_exec_records:
  assumes "sql_inv (sy_db w)"
  shows "\<exists>rs. db_decisions (sy_db (sys_exec op w)) = db_decisions (sy_db w) @ rs"
proof (cases op)
  case (DoClaim ctx req)
  then show ?thesis
    using claim_calls_decisions(1) [of "ax_Store ctx" "cr_DecisionID req" "claimOwner ctx (cr_Token req)" "ax_Now ctx" "sy_db w"]
    by (auto simp: wk_ClaimExecution_def ClaimExecution_def sql_Claims_def split: option.splits prod.splits)
next
  case (DoAdvance ctx t)
  then show ?thesis
    using claim_calls_decisions(2) [of "ax_Store ctx" "ct_DecisionID t" "claimOwner ctx (ct_Token t)" "ct_To t" "ax_Now ctx" "sy_db w"]
    by (auto simp: wk_AdvanceExecutionClaim_def AdvanceExecutionClaim_def sql_Claims_def split: option.splits prod.splits)
next
  case (DoFence ctx req)
  then show ?thesis
    using fence_decisions [of ctx req "sy_db w"] by (auto simp: wk_fence_def split: option.splits prod.splits)
next
  case (DoSend ctx req)
  then show ?thesis by (simp add: wk_send_def split: prod.splits)
qed (use append_decisions [OF assms] audit_decisions [OF assms] in
    \<open>simp_all add: wk_RecordDecision_def wk_RecordAuditTrail_def RecordDecision_def sql_Store_def RecordAuditTrail_def
      wk_ReconcileDispatch_def wk_RevertStateCompensation_def case_prod_beta\<close>)

lemma records_meanwhile:
  assumes "meanwhile w w'" "sys_ok w" "lookup_decision (db_decisions (sy_db w)) d = Some r"
  shows "lookup_decision (db_decisions (sy_db w')) d = Some r"
proof -
  let ?P = "\<lambda>v. sys_ok v \<and> lookup_decision (db_decisions (sy_db v)) d = Some r"
  have "?P (sys_exec op v)" if "?P v" for op v
    using sys_exec_records [of v op] sys_ok_exec [of v op] that by (auto simp: sys_ok_def lookup_append)
  then have "?P w'" by (intro meanwhile_induct [OF assms(1), of ?P]) (use assms in auto)
  then show ?thesis by simp
qed

section \<open>What one event shows\<close>

definition event_key :: "saga_event \<Rightarrow> string" where
  "event_key e = (case e of EvDispatch _ f _ \<Rightarrow> dq_IdempotencyKey (fd_Dispatch f) | EvReconcile _ q _ \<Rightarrow> dq_IdempotencyKey q | _ \<Rightarrow> '''')"

lemma truthful_Checked: "truthful o' n cl \<Longrightarrow> truthful (Checked o') n cl"
  by (auto simp: truthful_def Checked_def UnknownOutcome_def split: OutcomeStatus.splits if_splits)

text \<open>A reported outcome is true from then on.\<close>

lemma reported_truthful:
  assumes "witnessed i w e w'" "sys_ok w" "reported e = Some o'" "oc_Status o' \<in> {OutcomeSuccess, OutcomeFailure}"
  shows "sim_closed (sy_adapter w') (event_key e) \<and> Mutations (sy_adapter w') (event_key e) =
    (if oc_Status o' = OutcomeSuccess \<or> oc_PartiallyApplied o' then 1 else 0)"
proof -
  have "\<exists>v. meanwhile v w' \<and> sys_ok v \<and>
    truthful o' (Mutations (sy_adapter v) (event_key e)) (sim_closed (sy_adapter v) (event_key e))"
  proof (cases e)
    case (EvDispatch c f r)
    then obtain x where x: "r = Inr x" "o' = Checked x" using assms(3) by (auto simp: reported_def split: sum.splits)
    then obtain ctx v v' where a: "meanwhile w v" "wk_send ctx f v = (Some x, v')" "meanwhile v' w'"
      using assms(1) EvDispatch by (auto simp: witnessed_def attempted_def)
    have ok: "sys_ok v" "sys_ok v'"
      using sys_ok_meanwhile [OF a(1) assms(2)] sys_ok_exec [of v "DoSend ctx f"] a(2) by simp_all
    obtain y s' where d: "Sim_Dispatch (ax_Adapter ctx) (fd_Dispatch f) (sy_adapter v) = (y, s')" by fastforce
    then have "x = Checked y" "sy_adapter v' = s'" using a(2) by (auto simp: wk_send_def split: if_splits)
    with sim.dispatch_truthful [OF _ d] ok(1) x EvDispatch
    have "truthful o' (Mutations (sy_adapter v') (event_key e)) (sim_closed (sy_adapter v') (event_key e))"
      by (simp add: sys_ok_def event_key_def truthful_Checked)
    with a(3) ok(2) show ?thesis by blast
  next
    case (EvReconcile c q r)
    then obtain x where x: "r = Inr x" "o' = Checked x" using assms(3) by (auto simp: reported_def split: sum.splits)
    then obtain ctx v v' where a: "meanwhile w v" "wk_ReconcileDispatch ctx q v = (x, v')" "meanwhile v' w'"
      using assms(1) EvReconcile by (auto simp: witnessed_def attempted_def)
    have ok: "sys_ok v" "sys_ok v'"
      using sys_ok_meanwhile [OF a(1) assms(2)] sys_ok_exec [of v "DoReconcile ctx q"] a(2) by simp_all
    obtain y s' where d: "Sim_Reconcile (ax_Adapter ctx) q (sy_adapter v) = (y, s')" by fastforce
    have "dq_IdempotencyKey q \<noteq> ''''"
      using a(2) assms(4) x(2) by (auto simp: wk_ReconcileDispatch_def ReconcileDispatch_def UnknownOutcome_def Checked_def split: prod.splits)
    with a(2) d have "x = Checked y" "sy_adapter v' = s'" by (auto simp: wk_ReconcileDispatch_def ReconcileDispatch_def)
    with sim.reconcile_truthful [OF _ d] ok(1) x EvReconcile
    have "truthful o' (Mutations (sy_adapter v') (event_key e)) (sim_closed (sy_adapter v') (event_key e))"
      by (simp add: sys_ok_def event_key_def truthful_Checked)
    with a(3) ok(2) show ?thesis by blast
  qed (use assms(3) in \<open>simp_all add: reported_def\<close>)
  then obtain v where v: "meanwhile v w'" "sys_ok v"
    "truthful o' (Mutations (sy_adapter v) (event_key e)) (sim_closed (sy_adapter v) (event_key e))" by blast
  have "Mutations (sy_adapter v) (event_key e) = (if oc_Status o' = OutcomeSuccess \<or> oc_PartiallyApplied o' then 1 else 0)"
    using v(3) assms(4) by (auto simp: truthful_def)
  moreover have "sim_closed (sy_adapter v) (event_key e)"
    using v(2,3) assms(4) sim.applied_closed [of "sy_adapter v" "event_key e"]
    by (auto simp: truthful_def sys_ok_def split: if_splits)
  ultimately show ?thesis using closed_meanwhile [OF v(1,2)] by simp
qed

lemma advanced_claim:
  assumes "witnessed i w (EvAdvance c t None) w'" "sys_ok w" "final_state (ct_To t)"
  shows "\<exists>cl. sql_claims (sy_db w') (ct_DecisionID t) = Some cl \<and> ec_State cl = ct_To t \<and>
    o_WorkflowID (ec_Owner cl) = si_WorkflowID i \<and> o_RunID (ec_Owner cl) = si_RunID i \<and> o_Token (ec_Owner cl) = ct_Token t"
proof -
  obtain ctx v v' where a: "own_attempt i ctx" "meanwhile w v" "wk_AdvanceExecutionClaim ctx t v = (None, v')" "meanwhile v' w'"
    using assms(1) by (auto simp: witnessed_def attempted_def)
  have ok: "sys_ok v" "sys_ok v'"
    using sys_ok_meanwhile [OF a(2) assms(2)] sys_ok_exec [of v "DoAdvance ctx t"] a(3) by simp_all
  let ?o = "claimOwner ctx (ct_Token t)"
  have "Sql_AdvanceClaim (ax_Store ctx) (ct_DecisionID t) ?o (ct_To t) (ax_Now ctx) (sy_db v) = (None, sy_db v')"
    using a(3) by (auto simp: wk_AdvanceExecutionClaim_def AdvanceExecutionClaim_def sql_Claims_def split: prod.splits option.splits if_splits)
  from sql.advance_ok [OF _ this] ok(1)
  obtain cl where "sql_claims (sy_db v') (ct_DecisionID t) = Some cl" "ec_State cl = ct_To t" "ec_Owner cl = ?o"
    by (auto simp: sys_ok_def move_claim_def may_advance_def split: option.splits)
  with final_meanwhile [OF a(4) ok(2)] assms(3) a(1) show ?thesis by (fastforce simp: claimOwner_def own_attempt_def)
qed

lemma verified_record:
  assumes "witnessed i w (EvVerify c q (Inr v)) w'" "sys_ok w" "iv_Valid v"
  shows "\<exists>rec. lookup_decision (db_decisions (sy_db w')) (er_IngressDecisionID q) = Some rec \<and>
    VerifyIngress rec q (si_WorkflowID i) = None"
proof -
  obtain ctx u where a: "own_attempt i ctx" "meanwhile w u" "wk_VerifyIngressDecision ctx q u = Inr v" "meanwhile u w'"
    using assms(1) by (auto simp: witnessed_def attempted_def)
  have ok: "sys_ok u" by (rule sys_ok_meanwhile [OF a(2) assms(2)])
  have "CheckIngress (\<lambda>d. Sql_GetDecision (ax_Store ctx) d (sy_db u)) q (ax_WorkflowID ctx) = None"
    using a(3) assms(3) by (auto simp: wk_VerifyIngressDecision_def VerifyIngressDecision_def sql_Store_def split: option.splits)
  then obtain rec where "Sql_GetDecision (ax_Store ctx) (er_IngressDecisionID q) (sy_db u) = Inr rec"
      "VerifyIngress rec q (si_WorkflowID i) = None"
    using a(1) by (auto simp: CheckIngress_None_iff own_attempt_def)
  moreover from this sqlr.get_ok have "lookup_decision (db_decisions (sy_db u)) (er_IngressDecisionID q) = Some rec"
    using ok by (auto simp: sys_ok_def)
  ultimately show ?thesis using records_meanwhile [OF a(4) ok] by blast
qed

section \<open>Properties of a run in the system\<close>

text \<open>Every event of the history has its place in the life of the system.\<close>

lemma event_at:
  assumes "chain (witnessed i) w h w'" "sys_ok w" "e \<in> set h"
  obtains v v' where "sys_ok v" "meanwhile w v" "witnessed i v e v'" "sys_ok v'" "meanwhile v' w'"
proof -
  obtain h1 h2 where "h = h1 @ e # h2" using assms(3) by (auto simp: in_set_conv_decomp)
  with assms(1) obtain v v' where c: "chain (witnessed i) w h1 v" "witnessed i v e v'" "chain (witnessed i) v' h2 w'"
    by (auto simp: chain_append)
  have m: "meanwhile w v" "meanwhile v v'" "meanwhile v' w'"
    using chain_meanwhile [OF c(1)] witnessed_meanwhile [OF c(2)] chain_meanwhile [OF c(3)] by blast+
  then show thesis using that [of v v'] c(2) sys_ok_meanwhile assms(2) by blast
qed

lemma legal_event: "legal i h \<Longrightarrow> e \<in> set h \<Longrightarrow> \<exists>h1. allowed i h1 e"
  using legal_split by (metis in_set_conv_decomp)

lemma legal_key:
  assumes "legal i h" "e \<in> set h" "reported e = Some o'"
  shows "event_key e = ExecutionKey (er_IngressDecisionID (si_req i))"
proof -
  obtain h1 where "allowed i h1 e" using legal_event [OF assms(1,2)] by blast
  then show ?thesis
    using assms(3) by (cases e) (auto simp: reported_def event_key_def fenced_dispatch_def dispatch_request_def dest!: arg_cong [of _ _ fd_Dispatch])
qed

lemma confirmed_count:
  assumes "chain (witnessed i) w h w'" "sys_ok w" "legal i h" "e \<in> set h" "reported e = Some o'"
    and "oc_Status o' \<in> {OutcomeSuccess, OutcomeFailure}" "meanwhile w' w2"
  shows "Mutations (sy_adapter w2) (ExecutionKey (er_IngressDecisionID (si_req i))) =
    (if oc_Status o' = OutcomeSuccess \<or> oc_PartiallyApplied o' then 1 else 0)"
proof -
  obtain v v' where v: "sys_ok v" "witnessed i v e v'" "sys_ok v'" "meanwhile v' w'"
    using event_at [OF assms(1,2,4)] by blast
  from reported_truthful [OF v(2,1) assms(5,6)] closed_meanwhile [OF meanwhile_trans [OF v(4) assms(7)] v(3)]
  show ?thesis by (simp add: legal_key [OF assms(3,4,5)])
qed

text \<open>The events behind the questions to a history.\<close>

lemma moved_event: "moved_to h to \<Longrightarrow> \<exists>c x. EvAdvance c x None \<in> set h \<and> ct_To x = to"
  unfolding moved_to_def list_ex_iff
proof (elim bexE)
  fix e
  assume e: "e \<in> set h" "case e of EvAdvance _ t None \<Rightarrow> ct_To t = to | _ \<Rightarrow> False"
  show ?thesis using e(2,1) by (cases e) (auto split: option.splits)
qed

lemma verified_event: "verified i h \<Longrightarrow> \<exists>c x. EvVerify c (si_req i) (Inr x) \<in> set h \<and> iv_Valid x"
  unfolding verified_def list_ex_iff
proof (elim bexE)
  fix e
  assume e: "e \<in> set h" "case e of EvVerify _ q (Inr v) \<Rightarrow> q = si_req i \<and> iv_Valid v | _ \<Rightarrow> False"
  show ?thesis using e(2,1) by (cases e) (auto split: sum.splits)
qed

lemma revalidated_event: "revalidated i h \<Longrightarrow> \<exists>c d. EvEvaluate c (si_req i) (Inr d) \<in> set h \<and> d_Verdict d = VerdictAllow"
  unfolding revalidated_def list_ex_iff
proof (elim bexE)
  fix e
  assume e: "e \<in> set h" "case e of EvEvaluate _ q (Inr d) \<Rightarrow> q = si_req i \<and> d_Verdict d = VerdictAllow | _ \<Rightarrow> False"
  show ?thesis using e(2,1) by (cases e) (auto split: sum.splits)
qed

end
