(* ===== verification/Direct_Run.thy ===== *)
theory Direct_Run
  imports System
begin

text \<open>
  A run when nothing goes wrong around it: every activity is attempted once, its result is
  delivered, no statement fails and nobody interferes. \<open>direct_te\<close> is the Temporal parameter of the
  workflow instantiated that way. The outcome of a run then depends on the target alone, and the
  last theorem says how, for every target the simulated adapter knows: the workflow's progress end
  to end, through the store, the fence, the adapter, the reconciliation loop and the compensation.
\<close>

section \<open>Temporal without faults\<close>

definition direct_ctx :: "saga_info \<Rightarrow> time \<Rightarrow> attempt" where
  "direct_ctx i t = \<lparr>ax_WorkflowID = si_WorkflowID i, ax_RunID = si_RunID i, ax_Err = None, ax_Store = ok_env,
     ax_Read = ok_env, ax_Mid = (\<lambda>s. s), ax_Adapter = None, ax_Now = t\<rparr>"

definition direct :: "('w \<Rightarrow> 'r \<times> 'w) \<Rightarrow> 'w \<Rightarrow> 'r \<times> nat \<times> 'w" where
  "direct act w = (case act w of (r, w') \<Rightarrow> (r, 0, w'))"

definition direct_dispatch :: "attempt \<Rightarrow> FencedDispatch \<Rightarrow> system \<Rightarrow> (go_error + DispatchOutcome) \<times> system" where
  "direct_dispatch ctx f w = (case wk_fence ctx f w of
       (Some e, v) \<Rightarrow> (Inl e, v)
     | (None, v) \<Rightarrow> (case wk_send ctx f v of (o', v') \<Rightarrow> (Inr (the o'), v')))"

definition direct_te :: "saga_info \<Rightarrow> string \<Rightarrow> time \<Rightarrow> system temporal" where
  "direct_te i token t = (let ctx = direct_ctx i t in
     \<lparr>te_SideEffect = direct (\<lambda>w. (Inr token, w)),
      te_VerifyIngressDecision = (\<lambda>c q. direct (\<lambda>w. (wk_VerifyIngressDecision ctx q w, w))),
      te_ClaimExecution = (\<lambda>c q. direct (wk_ClaimExecution ctx q)),
      te_AdvanceExecutionClaim = (\<lambda>c q. direct (wk_AdvanceExecutionClaim ctx q)),
      te_EvaluateExecution = (\<lambda>c q. direct (\<lambda>w. (wk_EvaluateExecution ctx q w, w))),
      te_RecordDecision = (\<lambda>c q. direct (wk_RecordDecision ctx q)),
      te_RecordAuditTrail = (\<lambda>c q. direct (wk_RecordAuditTrail ctx q)),
      te_DispatchConfig = (\<lambda>c q. direct (direct_dispatch ctx q)),
      te_ReconcileDispatch = (\<lambda>c q. direct (\<lambda>w. case wk_ReconcileDispatch ctx q w of (o', w') \<Rightarrow> (Inr o', w'))),
      te_RevertStateCompensation = (\<lambda>c q. direct (wk_RevertStateCompensation ctx q)),
      te_Sleep = (\<lambda>d. direct (\<lambda>w. (None, w)))\<rparr>)"

text \<open>It is a Temporal that the properties of the system speak of.\<close>

lemma attempted_direct:
  assumes "own_attempt i ctx" "act ctx w = (r, w')"
  shows "attempted i act r w w'"
  using assms meanwhile_refl by (auto simp: attempted_def)

lemma own_direct [simp]: "own_attempt i (direct_ctx i t)"
  by (simp add: own_attempt_def direct_ctx_def)

lemma wk_fence_pending: "wk_fence ctx f w = (None, v) \<Longrightarrow> f \<in> set (sy_pending v)"
  by (auto simp: wk_fence_def split: option.splits prod.splits)

lemma direct_dispatch_witnessed:
  assumes "direct_dispatch (direct_ctx i t) f w = (r, w')"
  shows "witnessed i w (EvDispatch c f r) w'"
proof -
  let ?ctx = "direct_ctx i t"
  obtain e v where f: "wk_fence ?ctx f w = (e, v)" by fastforce
  have m: "meanwhile w v" using meanwhile_op [of "DoFence ?ctx f" w] f by simp
  show ?thesis
  proof (cases e)
    case None
    obtain o' v' where s: "wk_send ?ctx f v = (o', v')" by fastforce
    then obtain x where "o' = Some x" using wk_fence_pending [of ?ctx f w v] f None by (auto simp: wk_send_def split: if_splits prod.splits)
    with s assms f None have "r = Inr x" "w' = v'" "wk_send ?ctx f v = (Some x, v')" by (auto simp: direct_dispatch_def)
    with m meanwhile_refl [of v'] show ?thesis by (auto simp: witnessed_def attempted_def intro!: exI [of _ ?ctx])
  next
    case (Some x)
    with f assms m show ?thesis by (auto simp: direct_dispatch_def witnessed_def)
  qed
qed

lemma direct_meanwhile:
  "wk_ClaimExecution ctx q1 w = (r1, w') \<Longrightarrow> meanwhile w w'" "wk_AdvanceExecutionClaim ctx q2 w = (r2, w') \<Longrightarrow> meanwhile w w'"
  "wk_RecordDecision ctx q3 w = (r3, w') \<Longrightarrow> meanwhile w w'" "wk_RecordAuditTrail ctx q4 w = (r4, w') \<Longrightarrow> meanwhile w w'"
  "wk_RevertStateCompensation ctx q5 w = (r5, w') \<Longrightarrow> meanwhile w w'"
  using meanwhile_op [of "DoClaim ctx q1" w] meanwhile_op [of "DoAdvance ctx q2" w] meanwhile_op [of "DoDecision ctx q3" w]
    meanwhile_op [of "DoAudit ctx q4" w] meanwhile_op [of "DoCompensate ctx q5" w]
  by simp_all

lemma direct_worker: "worker_temporal i (direct_te i token t)"
proof -
  have "\<forall>c q w r dt w'. direct (direct_dispatch (direct_ctx i t) q) w = (r, dt, w') \<longrightarrow> witnessed i w (EvDispatch c q r) w'"
    by (auto simp: direct_def direct_dispatch_witnessed split: prod.splits)
  then show ?thesis
    unfolding worker_temporal_def obeys_def direct_te_def Let_def
    by (simp only: temporal.simps simp_thms)
      (auto simp: direct_def witnessed_def meanwhile_refl intro!: attempted_direct [OF own_direct]
        split: prod.splits sum.splits option.splits dest: direct_meanwhile)
qed

section \<open>Calm states\<close>

definition own_of :: "saga_info \<Rightarrow> string \<Rightarrow> ClaimOwner" where
  "own_of i token = \<lparr>o_WorkflowID = si_WorkflowID i, o_RunID = si_RunID i, o_Token = token\<rparr>"

abbreviation row_id :: "saga_info \<Rightarrow> AuditPhase \<Rightarrow> nat \<Rightarrow> string" where
  "row_id i ph n \<equiv> p_ID (er_Proposal (si_req i)) @ ''-'' @ si_RunID i @ ''-'' @ AuditPhase_str ph @ ''-'' @ fmt_d n"

text \<open>No row is on record under an ID that the run may still use.\<close>

definition rows_free :: "saga_info \<Rightarrow> nat \<Rightarrow> database \<Rightarrow> bool" where
  "rows_free i n db \<longleftrightarrow> (\<forall>ph m. n < m \<longrightarrow> row_id i ph m \<notin> ar_RecordID ` set (db_audit db))"

text \<open>
  The audit rows since the system \<open>fst L\<close> are this run's and have the phases and verdicts \<open>snd L\<close>, in
  this order; the only decision record since then is the one of the re-validation, and the policy is the same.
\<close>

type_synonym trail = "system \<times> (AuditPhase \<times> AuditVerdict) list"

definition own_row :: "saga_info \<Rightarrow> AuditRecord \<Rightarrow> bool" where
  "own_row i r \<longleftrightarrow> ar_ProposalID r = p_ID (er_Proposal (si_req i)) \<and> (\<exists>ph n. ar_RecordID r = row_id i ph n)"

definition trail :: "saga_info \<Rightarrow> trail \<Rightarrow> system \<Rightarrow> bool" where
  "trail i L w \<longleftrightarrow> sy_policy w = sy_policy (fst L) \<and>
     (\<exists>rows. db_audit (sy_db w) = db_audit (sy_db (fst L)) @ rows \<and> map (\<lambda>r. (ar_Phase r, ar_Verdict r)) rows = snd L \<and>
        list_all (own_row i) rows) \<and>
     (\<exists>recs. db_decisions (sy_db w) = db_decisions (sy_db (fst L)) @ recs \<and>
        list_all (\<lambda>r. dr_DecisionID r = ''wf_'' @ si_WorkflowID i @ ''_'' @ si_RunID i) recs)"

lemma trail_adapter [simp]: "trail i L (w\<lparr>sy_adapter := a\<rparr>) = trail i L w"
  by (simp add: trail_def)

definition log_row :: "trail \<Rightarrow> AuditPhase \<Rightarrow> AuditVerdict \<Rightarrow> trail" where
  "log_row L ph v = (fst L, snd L @ [(ph, v)])"

text \<open>The run holds the claim in state \<open>st\<close>, the adapter's memory is \<open>a\<close>, and the trail is \<open>L\<close>.\<close>

definition calm :: "saga_info \<Rightarrow> string \<Rightarrow> trail \<Rightarrow> ClaimState \<Rightarrow> SimulatedAdapter \<Rightarrow> system saga_state \<Rightarrow> bool" where
  "calm i token L st a s \<longleftrightarrow> sql_inv (sy_db (sg_world s)) \<and> sy_adapter (sg_world s) = a \<and>
     rows_free i (sg_auditSeq s) (sy_db (sg_world s)) \<and> trail i L (sg_world s) \<and>
     (\<exists>c. sql_claims (sy_db (sg_world s)) (er_IngressDecisionID (si_req i)) = Some c \<and> ec_State c = st \<and> ec_Owner c = own_of i token)"

lemma row_id_seq: "row_id i ph n = row_id i ph' m \<Longrightarrow> n = m"
  using newAuditRecord_seq [of "p_ID (er_Proposal (si_req i))" w "si_RunID i" ph v pr d t n "p_ID (er_Proposal (si_req i))" w "si_RunID i" ph' v pr d t m
    for w v pr d t] by (simp add: newAuditRecord_def)

lemma claim_calls_audit:
  "db_audit (snd (Sql_ClaimExecution env d w t db)) = db_audit db"
  "db_audit (snd (Sql_AdvanceClaim env d w to t db)) = db_audit db"
  by (auto simp: Sql_ClaimExecution_def Sql_AdvanceClaim_def ExecContext_def upsert_claim_def update_claim_def Let_def
      split: prod.splits exec_fault.splits exec_result.splits option.splits sum.splits if_splits)

lemma direct_te_simps [simp]:
  "te_RecordAuditTrail (direct_te i token t) c q = direct (wk_RecordAuditTrail (direct_ctx i t) q)"
  "te_AdvanceExecutionClaim (direct_te i token t) c x = direct (wk_AdvanceExecutionClaim (direct_ctx i t) x)"
  "te_ReconcileDispatch (direct_te i token t) c y =
     direct (\<lambda>w. case wk_ReconcileDispatch (direct_ctx i t) y w of (o', w') \<Rightarrow> (Inr o', w'))"
  "te_RevertStateCompensation (direct_te i token t) c y = direct (wk_RevertStateCompensation (direct_ctx i t) y)"
  "te_DispatchConfig (direct_te i token t) c f = direct (direct_dispatch (direct_ctx i t) f)"
  "te_Sleep (direct_te i token t) d = direct (\<lambda>w. (None, w))"
  "te_SideEffect (direct_te i token t) = direct (\<lambda>w. (Inr token, w))"
  "te_VerifyIngressDecision (direct_te i token t) c z = direct (\<lambda>w. (wk_VerifyIngressDecision (direct_ctx i t) z w, w))"
  "te_ClaimExecution (direct_te i token t) c u = direct (wk_ClaimExecution (direct_ctx i t) u)"
  "te_EvaluateExecution (direct_te i token t) c z = direct (\<lambda>w. (wk_EvaluateExecution (direct_ctx i t) z w, w))"
  "te_RecordDecision (direct_te i token t) c v = direct (wk_RecordDecision (direct_ctx i t) v)"
  by (simp_all add: direct_te_def Let_def)

lemma direct_ctx_simps [simp]:
  "ax_Store (direct_ctx i t) = ok_env" "ax_Err (direct_ctx i t) = None" "ax_Adapter (direct_ctx i t) = None"
  "ax_WorkflowID (direct_ctx i t) = si_WorkflowID i" "claimOwner (direct_ctx i t) token = own_of i token" "ax_Now (direct_ctx i t) = t"
  by (simp_all add: direct_ctx_def claimOwner_def own_of_def)

text \<open>Writing an audit row with a phase of its own name succeeds and leaves everything else alone.\<close>

lemma record_free:
  assumes "sql_inv (sy_db (sg_world s))" "rows_free i (sg_auditSeq s) (sy_db (sg_world s))"
    and "p_ID (er_Proposal (si_req i)) \<noteq> ''''" "AuditPhase_str ph \<noteq> ''''"
  obtains rows s' where "record_phase (direct_te i token t) i c ph v d s = (None, s')"
    "sg_world s' = (sg_world s)\<lparr>sy_db := (sy_db (sg_world s))\<lparr>db_audit := db_audit (sy_db (sg_world s)) @ rows\<rparr>\<rparr>"
    "sql_inv (sy_db (sg_world s'))" "rows_free i (sg_auditSeq s') (sy_db (sg_world s'))" "sg_now s' = sg_now s"
    "map (\<lambda>r. (ar_Phase r, ar_Verdict r)) rows = [(ph, v)]" "list_all (own_row i) rows"
proof -
  let ?w = "sg_world s" and ?n = "Suc (sg_auditSeq s)"
  define r where "r = newAuditRecord (p_ID (er_Proposal (si_req i))) (si_WorkflowID i) (si_RunID i) ph v (er_Proposal (si_req i)) d (sg_now s) ?n"
  define db where "db = (sy_db ?w)\<lparr>db_audit := db_audit (sy_db ?w) @ [audit_stamped t r]\<rparr>"
  have id: "ar_RecordID r = row_id i ph ?n" by (simp add: r_def newAuditRecord_def)
  have f: "ar_Phase (audit_stamped t r) = ph" "ar_Verdict (audit_stamped t r) = v"
      "own_row i (audit_stamped t r)"
    by (auto simp: own_row_def r_def newAuditRecord_def audit_stamped_def)
  have c: "audit_complete r" using assms(3,4) by (simp add: audit_complete_def r_def newAuditRecord_def)
  have "audit_row (ar_RecordID r) (sy_db ?w) = None"
    using assms(2) unfolding id by (simp add: audit_row_def find_None_key rows_free_def)
  then have a: "Sql_Append ok_env t r (sy_db ?w) = (None, db)"
    using Sql_Append_quiet [OF assms(1) ok_env_quiet c, of t] by (simp add: db_def)
  have "rows_free i ?n db"
    unfolding rows_free_def
  proof (intro allI impI notI)
    fix ph' m
    assume m: "?n < m" "row_id i ph' m \<in> ar_RecordID ` set (db_audit db)"
    have "row_id i ph' m \<noteq> row_id i ph ?n" using row_id_seq [of i ph' m ph ?n] m(1) by blast
    moreover have "row_id i ph' m \<notin> ar_RecordID ` set (db_audit (sy_db ?w))" using assms(2) m(1) unfolding rows_free_def by auto
    ultimately show False using m(2) id by (simp add: db_def)
  qed
  moreover have "sql_inv db" using Sql_Append_safe [OF assms(1) a] by simp
  moreover have "record_phase (direct_te i token t) i c ph v d s =
      (None, s\<lparr>sg_auditSeq := ?n, sg_world := ?w\<lparr>sy_db := db\<rparr>, sg_history := sg_history s @ [EvAudit c r None]\<rparr>)"
    by (simp add: record_phase_def Let_def sg_step_def direct_def wk_RecordAuditTrail_def RecordAuditTrail_def r_def [symmetric] a)
  ultimately show thesis
    by (intro that [of "s\<lparr>sg_auditSeq := ?n, sg_world := ?w\<lparr>sy_db := db\<rparr>, sg_history := sg_history s @ [EvAudit c r None]\<rparr>"
          "[audit_stamped t r]"]) (simp_all add: db_def f)
qed

lemma record_calm:
  assumes "calm i token L st a s" "p_ID (er_Proposal (si_req i)) \<noteq> ''''" "AuditPhase_str ph \<noteq> ''''"
  obtains s' where "record_phase (direct_te i token t) i c ph v d s = (None, s')" "calm i token (log_row L ph v) st a s'"
proof -
  have "sql_inv (sy_db (sg_world s))" "rows_free i (sg_auditSeq s) (sy_db (sg_world s))" using assms(1) by (simp_all add: calm_def)
  from this assms(2,3) obtain rows s' where r: "record_phase (direct_te i token t) i c ph v d s = (None, s')"
    "sg_world s' = (sg_world s)\<lparr>sy_db := (sy_db (sg_world s))\<lparr>db_audit := db_audit (sy_db (sg_world s)) @ rows\<rparr>\<rparr>"
    "sql_inv (sy_db (sg_world s'))" "rows_free i (sg_auditSeq s') (sy_db (sg_world s'))"
    "map (\<lambda>r. (ar_Phase r, ar_Verdict r)) rows = [(ph, v)]" "list_all (own_row i) rows"
    by (rule record_free)
  have "trail i L (sg_world s)" using assms(1) by (simp add: calm_def)
  then have "trail i (log_row L ph v) (sg_world s')"
    using r(2,5,6) unfolding trail_def log_row_def by (elim conjE exE) (rename_tac old recs, auto intro: exI [of _ "_ @ rows"])
  with r have "calm i token (log_row L ph v) st a s'" using assms(1) by (simp add: calm_def sql_claims_eq)
  with r(1) show thesis by (rule that)
qed

text \<open>A transition from a permitted state succeeds.\<close>

lemma transition_calm:
  assumes "calm i token L st a s" "ClaimSources to = Some src" "st \<in> set src" "to \<noteq> ClaimStateExecuting"
  obtains s' where "transition (direct_te i token t) i token to s = (None, s')" "calm i token L to a s'"
proof -
  let ?w = "sg_world s" and ?d = "er_IngressDecisionID (si_req i)"
  obtain c where c: "sql_claims (sy_db ?w) ?d = Some c" "ec_State c = st" "ec_Owner c = own_of i token"
    and inv: "sql_inv (sy_db ?w)" using assms(1) by (auto simp: calm_def)
  obtain e db where a: "Sql_AdvanceClaim ok_env ?d (own_of i token) to t (sy_db ?w) = (e, db)" by fastforce
  have m: "may_advance (sql_claims (sy_db ?w)) ?d (own_of i token) to" using c assms(2,3) by (simp add: may_advance_def)
  have q: "e = None" "sql_claims db ?d = Some (c\<lparr>ec_State := to, ec_UpdatedAt := t\<rparr>)"
    using sql.advance_quiet [OF inv ok_env_quiet a] m c(1) by (simp_all add: spec_advance_def)
  have "db_audit db = db_audit (sy_db ?w)" "db_decisions db = db_decisions (sy_db ?w)"
    using claim_calls_audit(2) [of ok_env ?d "own_of i token" to t "sy_db ?w"]
      claim_calls_decisions(2) [of ok_env ?d "own_of i token" to t "sy_db ?w"] a by simp_all
  moreover have "sql_inv db" using sql.advance_safe [OF inv a] by simp
  moreover have "transition (direct_te i token t) i token to s =
      (None, s\<lparr>sg_world := ?w\<lparr>sy_db := db\<rparr>, sg_history := sg_history s @ [EvAdvance claimCtx (to_state i token to) None]\<rparr>)"
    using assms(4) by (simp add: transition_def Let_def sg_step_def direct_def wk_AdvanceExecutionClaim_def
        AdvanceExecutionClaim_def sql_Claims_def a q)
  moreover from calculation(1-3) have "calm i token L to a
      (s\<lparr>sg_world := ?w\<lparr>sy_db := db\<rparr>, sg_history := sg_history s @ [EvAdvance claimCtx (to_state i token to) None]\<rparr>)"
    using assms(1) c(3) q(2) unfolding calm_def rows_free_def trail_def by simp
  ultimately show thesis by (intro that)
qed

section \<open>The phases\<close>

text \<open>How a run ends whose outcome is \<open>o'\<close>, with the adapter's memory \<open>a\<close> at that point.\<close>

definition ends ::
  "saga_info \<Rightarrow> string \<Rightarrow> trail \<Rightarrow> DispatchOutcome \<Rightarrow> SimulatedAdapter \<Rightarrow> go_error option \<Rightarrow> system saga_state \<Rightarrow> bool" where
  "ends i token L o' a r s' \<longleftrightarrow> (case oc_Status o' of
       OutcomeSuccess \<Rightarrow> r = None \<and> calm i token (log_row L AuditPhaseWorkflowComplete AuditVerdictPass) ClaimStateCompleted a s'
     | OutcomeFailure \<Rightarrow> (\<exists>e. r = Some e \<and> err_type e = DispatchFailedErrorType) \<and> calm i token
         (log_row (if oc_PartiallyApplied o' then log_row L AuditPhaseCompensation AuditVerdictPass else L) AuditPhaseWorkflowFailed AuditVerdictFail)
         ClaimStateFailed (if oc_PartiallyApplied o' then snd (Sim_Compensate None (dispatch_request i) a) else a) s'
     | _ \<Rightarrow> (\<exists>e. r = Some e \<and> err_type e = DispatchOutcomeUnknownErrorType) \<and>
         calm i token L ClaimStateReconciliationRequired a s')"

lemma success_calm:
  assumes "calm i token L st a s" "st \<in> {ClaimStateExecuting, ClaimStateReconciliationRequired}" "p_ID (er_Proposal (si_req i)) \<noteq> ''''"
  obtains s' where "success_phase (direct_te i token t) i token None s = (None, s')"
    "calm i token (log_row L AuditPhaseWorkflowComplete AuditVerdictPass) ClaimStateCompleted a s'"
proof -
  obtain s1 where t: "transition (direct_te i token t) i token ClaimStateCompleted s = (None, s1)" "calm i token L ClaimStateCompleted a s1"
    using assms(2) by (auto intro: transition_calm [OF assms(1), of ClaimStateCompleted _ t] simp: claim_simps)
  obtain s2 where "record_phase (direct_te i token t) i claimCtx AuditPhaseWorkflowComplete AuditVerdictPass
      ''workflow completed without compensation'' s1 = (None, s2)" "calm i token (log_row L AuditPhaseWorkflowComplete AuditVerdictPass) ClaimStateCompleted a s2"
    by (rule record_calm [OF t(2) assms(3)]) auto
  with t(1) show thesis by (intro that [of s2]) (simp_all add: success_phase_def)
qed

lemma fail_calm:
  assumes "calm i token L st a s" "p_ID (er_Proposal (si_req i)) \<noteq> ''''"
  obtains s' where "fail_workflow (direct_te i token t) i f s = (Some (app_error f DispatchFailedErrorType None), s')"
    "calm i token (log_row L AuditPhaseWorkflowFailed AuditVerdictFail) st a s'"
proof -
  obtain s2 where "record_phase (direct_te i token t) i claimCtx AuditPhaseWorkflowFailed AuditVerdictFail f s = (None, s2)"
      "calm i token (log_row L AuditPhaseWorkflowFailed AuditVerdictFail) st a s2"
    by (rule record_calm [OF assms]) auto
  then show thesis by (intro that [of s2]) (simp_all add: fail_workflow_def)
qed

lemma failure_calm:
  assumes "calm i token L st a s" "st \<in> {ClaimStateExecuting, ClaimStateReconciliationRequired}" "p_ID (er_Proposal (si_req i)) \<noteq> ''''"
    and "oc_Status o' = OutcomeFailure"
  shows "\<exists>r s'. failure_phase (direct_te i token t) i token o' s = (r, s') \<and> ends i token L o' a r s'"
proof -
  let ?te = "direct_te i token t" and ?q = "dispatch_request i"
  obtain s1 where t: "transition ?te i token ClaimStateFailed s = (None, s1)" "calm i token L ClaimStateFailed a s1"
    using assms(2) by (auto intro: transition_calm [OF assms(1), of ClaimStateFailed _ t] simp: claim_simps)
  show ?thesis
  proof (cases "oc_PartiallyApplied o'")
    case True
    define s2 where "s2 = s1\<lparr>sg_world := (sg_world s1)\<lparr>sy_adapter := snd (Sim_Compensate None ?q a)\<rparr>,
      sg_history := sg_history s1 @ [EvCompensate compCtx ?q None]\<rparr>"
    have c: "sg_step (EvCompensate compCtx ?q) (te_RevertStateCompensation ?te compCtx ?q) s1 = (None, s2)"
      using t(2) by (simp add: sg_step_def direct_def wk_RevertStateCompensation_def RevertStateCompensation_def
          Sim_Compensate_def calm_def s2_def)
    have "calm i token L ClaimStateFailed (snd (Sim_Compensate None ?q a)) s2" using t(2) by (simp add: calm_def s2_def)
    then obtain s3 where r: "record_phase ?te i claimCtx AuditPhaseCompensation AuditVerdictPass ''compensation activity completed'' s2 = (None, s3)"
        "calm i token (log_row L AuditPhaseCompensation AuditVerdictPass) ClaimStateFailed (snd (Sim_Compensate None ?q a)) s3"
      by (rule record_calm [OF _ assms(3)]) auto
    obtain s4 where "fail_workflow ?te i (''dispatch partly applied and compensation ran: '' @ oc_Detail o') s3 =
        (Some (app_error (''dispatch partly applied and compensation ran: '' @ oc_Detail o') DispatchFailedErrorType None), s4)"
        "calm i token (log_row (log_row L AuditPhaseCompensation AuditVerdictPass) AuditPhaseWorkflowFailed AuditVerdictFail)
           ClaimStateFailed (snd (Sim_Compensate None ?q a)) s4"
      by (rule fail_calm [OF r(2) assms(3)])
    with True t(1) c r(1) show ?thesis by (simp add: failure_phase_def ends_def assms(4))
  next
    case False
    obtain s4 where "fail_workflow ?te i (''dispatch failed: '' @ oc_Detail o') s1 =
        (Some (app_error (''dispatch failed: '' @ oc_Detail o') DispatchFailedErrorType None), s4)"
        "calm i token (log_row L AuditPhaseWorkflowFailed AuditVerdictFail) ClaimStateFailed a s4"
      by (rule fail_calm [OF t(2) assms(3)])
    with False t(1) show ?thesis by (simp add: failure_phase_def ends_def assms(4))
  qed
qed

lemma confirmed_calm:
  assumes "calm i token L st a s" "st \<in> {ClaimStateExecuting, ClaimStateReconciliationRequired}" "p_ID (er_Proposal (si_req i)) \<noteq> ''''"
    and "oc_Status o' \<in> {OutcomeSuccess, OutcomeFailure}"
  shows "\<exists>r s'. confirmed_phase (direct_te i token t) i token o' None s = (r, s') \<and> ends i token L o' a r s'"
proof (cases "oc_Status o' = OutcomeFailure")
  case True
  from failure_calm [OF assms(1-3) True, of t] show ?thesis by (simp add: confirmed_phase_def True)
next
  case False
  then have s: "oc_Status o' = OutcomeSuccess" using assms(4) by simp
  obtain s' where "success_phase (direct_te i token t) i token None s = (None, s')"
      "calm i token (log_row L AuditPhaseWorkflowComplete AuditVerdictPass) ClaimStateCompleted a s'"
    using success_calm [OF assms(1-3)] .
  then show ?thesis by (simp add: confirmed_phase_def ends_def s)
qed

text \<open>Reconciliation asks once if the adapter knows, and to the end of the window if it never does.\<close>

lemma ask_calm:
  assumes "calm i token L st a s" "Sim_Reconcile None (dispatch_request i) a = (o', a')"
  shows "\<exists>s'. reconcile_ask (direct_te i token t) (dispatch_request i) s = (Checked o', s') \<and> calm i token L st a' s'"
  using assms by (auto simp: reconcile_ask_def sg_step_def direct_def wk_ReconcileDispatch_def ReconcileDispatch_def
      calm_def dispatch_request_def ExecutionKey_def)

lemma loop_unknown:
  assumes "calm i token L st a s" "Sim_Reconcile None (dispatch_request i) a = (o', a)" "oc_Status (Checked o') = OutcomeUnknown"
  shows "\<exists>s'. reconcile_loop (direct_te i token t) (dispatch_request i) start n s = (Checked o', s') \<and> calm i token L st a s'"
  using assms(1)
proof (induction "direct_te i token t" "dispatch_request i" start n s rule: reconcile_loop.induct)
  case (1 start n s)
  obtain s1 where a: "reconcile_ask (direct_te i token t) (dispatch_request i) s = (Checked o', s1)" "calm i token L st a s1"
    using ask_calm [OF 1(2) assms(2)] by blast
  obtain s2 where z: "sg_sleep (direct_te i token t) (reconcile_wait n) s1 = (None, s2)" "calm i token L st a s2"
    using a(2) by (simp add: sg_sleep_def direct_def calm_def)
  show ?case
  proof (cases "sg_now s1 - start + int (reconcile_wait n) > int reconcileWindow")
    case True
    then have "reconcile_loop (direct_te i token t) (dispatch_request i) start n s = (Checked o', s1)"
      by (simp only: reconcile_loop.simps [of _ _ start n s] a prod.case) simp
    with a(2) show ?thesis by simp
  next
    case False
    then have "reconcile_loop (direct_te i token t) (dispatch_request i) start n s =
        reconcile_loop (direct_te i token t) (dispatch_request i) start (Suc n) s2"
      using assms(3) by (simp only: reconcile_loop.simps [of _ _ start n s] a z prod.case) simp
    with 1(1) [OF a(1) [symmetric] _ z(1) [symmetric] refl z(2)] False assms(3) show ?thesis by simp
  qed
qed

lemma unknown_calm:
  assumes "calm i token L ClaimStateExecuting a s" "p_ID (er_Proposal (si_req i)) \<noteq> ''''"
    and q: "Sim_Reconcile None (dispatch_request i) a = (o', a')" and u: "oc_Status (Checked o') = OutcomeUnknown \<Longrightarrow> a' = a"
  shows "\<exists>r s'. unknown_phase (direct_te i token t) i token s = (r, s') \<and>
    ends i token (log_row L AuditPhaseReconciliation (auditVerdict (Checked o'))) (Checked o') a' r s'"
proof -
  let ?te = "direct_te i token t" and ?q = "dispatch_request i"
  obtain s1 where t: "transition ?te i token ClaimStateReconciliationRequired s = (None, s1)" "calm i token L ClaimStateReconciliationRequired a s1"
    by (rule transition_calm [OF assms(1), of ClaimStateReconciliationRequired _ t]) (auto simp: claim_simps)
  obtain s2 where l: "reconcileDispatch ?te ?q s1 = (Checked o', s2)" "calm i token L ClaimStateReconciliationRequired a' s2"
  proof (cases "oc_Status (Checked o') = OutcomeUnknown")
    case True
    from loop_unknown [OF t(2) _ True, of t "sg_now s1" 0] q u [OF True] that show thesis by (auto simp: reconcileDispatch_def)
  next
    case False
    obtain s2 where "reconcile_ask ?te ?q s1 = (Checked o', s2)" "calm i token L ClaimStateReconciliationRequired a' s2"
      using ask_calm [OF t(2) q] by blast
    with False that show thesis by (simp add: reconcileDispatch_def reconcile_loop.simps)
  qed
  obtain s3 where p: "record_phase ?te i claimCtx AuditPhaseReconciliation (auditVerdict (Checked o')) (outcomeDetail ?q (Checked o')) s2 = (None, s3)"
      "calm i token (log_row L AuditPhaseReconciliation (auditVerdict (Checked o'))) ClaimStateReconciliationRequired a' s3"
    by (rule record_calm [OF l(2) assms(2)]) auto
  show ?thesis
  proof (cases "oc_Status (Checked o') = OutcomeUnknown")
    case True
    with t l p show ?thesis by (simp add: unknown_phase_def ends_def)
  next
    case False
    then have "oc_Status (Checked o') \<in> {OutcomeSuccess, OutcomeFailure}" by (cases o' rule: Checked_cases) auto
    from confirmed_calm [OF p(2) _ assms(2) this, of t] t l p False show ?thesis by (simp add: unknown_phase_def)
  qed
qed

text \<open>The fence is acquired and the adapter called.\<close>

lemma dispatch_step:
  assumes "calm i token L ClaimStateClaimed a s" "token \<noteq> ''''" "er_IngressDecisionID (si_req i) \<noteq> ''''"
    and d: "Sim_Dispatch None (dispatch_request i) a = (o', a')"
  shows "\<exists>s'. sg_step (EvDispatch mainCtx (fenced_dispatch i token))
      (te_DispatchConfig (direct_te i token t) mainCtx (fenced_dispatch i token)) s = (Inr (Checked o'), s') \<and>
    calm i token L ClaimStateExecuting a' s'"
proof -
  let ?w = "sg_world s" and ?d = "er_IngressDecisionID (si_req i)" and ?f = "fenced_dispatch i token"
  obtain c where c: "sql_claims (sy_db ?w) ?d = Some c" "ec_State c = ClaimStateClaimed" "ec_Owner c = own_of i token"
    and inv: "sql_inv (sy_db ?w)" using assms(1) by (auto simp: calm_def)
  obtain e db where adv: "Sql_AdvanceClaim ok_env ?d (own_of i token) ClaimStateExecuting t (sy_db ?w) = (e, db)" by fastforce
  have m: "may_advance (sql_claims (sy_db ?w)) ?d (own_of i token) ClaimStateExecuting" using c by (simp add: may_advance_def claim_simps)
  have q: "e = None" "sql_claims db ?d = Some (c\<lparr>ec_State := ClaimStateExecuting, ec_UpdatedAt := t\<rparr>)"
    using sql.advance_quiet [OF inv ok_env_quiet adv] m c(1) by (simp_all add: spec_advance_def)
  have "dispatch_guard (Some sim_Adapter) (Some sql_Claims) ?f = None"
    using assms(2,3) by (simp add: dispatch_guard_None_iff fenced_dispatch_def dispatch_request_def)
  moreover have "acquire_fence sql_Claims (direct_ctx i t) ?f (sy_db ?w) = (None, db)"
    using adv q by (simp add: acquire_fence_def sql_Claims_def fenced_dispatch_def Let_def)
  ultimately have "direct_dispatch (direct_ctx i t) ?f ?w = (Inr (Checked o'), ?w\<lparr>sy_db := db, sy_adapter := a',
      sy_pending := remove1 ?f (sy_pending ?w @ [?f]), sy_calls := sy_calls ?w @ [dispatch_request i]\<rparr>)"
    using assms(1) d by (simp add: direct_dispatch_def wk_fence_def wk_send_def calm_def fenced_dispatch_def)
  moreover have "db_audit db = db_audit (sy_db ?w)" "db_decisions db = db_decisions (sy_db ?w)"
    using claim_calls_audit(2) [of ok_env ?d "own_of i token" ClaimStateExecuting t "sy_db ?w"]
      claim_calls_decisions(2) [of ok_env ?d "own_of i token" ClaimStateExecuting t "sy_db ?w"] adv by simp_all
  moreover have "sql_inv db" using sql.advance_safe [OF inv adv] by simp
  ultimately show ?thesis
    using assms(1) c(3) q(2) by (simp add: sg_step_def direct_def calm_def rows_free_def trail_def)
qed

text \<open>The rows up to the known outcome: that of the dispatch, and that of the reconciliation if there was one.\<close>

definition dispatch_log :: "trail \<Rightarrow> DispatchOutcome \<Rightarrow> DispatchOutcome \<Rightarrow> trail" where
  "dispatch_log L o1 o2 =
     (let L1 = log_row L AuditPhaseDispatch (auditVerdict (Checked o1)) in
      if oc_Status (Checked o1) = OutcomeUnknown then log_row L1 AuditPhaseReconciliation (auditVerdict (Checked o2)) else L1)"

lemma dispatch_calm:
  assumes "calm i token L ClaimStateClaimed a s" "token \<noteq> ''''" "er_IngressDecisionID (si_req i) \<noteq> ''''" "p_ID (er_Proposal (si_req i)) \<noteq> ''''"
    and d: "Sim_Dispatch None (dispatch_request i) a = (o1, a1)"
    and q: "if oc_Status (Checked o1) = OutcomeUnknown then Sim_Reconcile None (dispatch_request i) a1 = (o2, a2) \<and>
      (oc_Status (Checked o2) = OutcomeUnknown \<longrightarrow> a2 = a1) else o2 = o1 \<and> a2 = a1"
  shows "\<exists>r s'. dispatch_phase (direct_te i token t) i token s = (r, s') \<and> ends i token (dispatch_log L o1 o2) (Checked o2) a2 r s'"
proof -
  let ?te = "direct_te i token t"
  obtain s1 where s1: "sg_step (EvDispatch mainCtx (fenced_dispatch i token)) (te_DispatchConfig ?te mainCtx (fenced_dispatch i token)) s =
      (Inr (Checked o1), s1)" "calm i token L ClaimStateExecuting a1 s1"
    using dispatch_step [OF assms(1-3) d] by blast
  obtain s2 where s2: "record_phase ?te i claimCtx AuditPhaseDispatch (auditVerdict (Checked o1))
      (outcomeDetail (dispatch_request i) (Checked o1)) s1 = (None, s2)"
      "calm i token (log_row L AuditPhaseDispatch (auditVerdict (Checked o1))) ClaimStateExecuting a1 s2"
    by (rule record_calm [OF s1(2) assms(4)]) auto
  have e: "dispatch_phase ?te i token s = outcome_phase ?te i token (Checked o1) None s2"
    unfolding dispatch_phase_def Let_def s1(1) prod.case by (simp add: fenceFailure_def s2)
  show ?thesis
  proof (cases "oc_Status (Checked o1) = OutcomeUnknown")
    case True
    with q unknown_calm [OF s2(2) assms(4), of o2 a2 t] show ?thesis by (simp add: e outcome_phase_def dispatch_log_def)
  next
    case False
    then have "oc_Status (Checked o1) \<in> {OutcomeSuccess, OutcomeFailure}" by (cases o1 rule: Checked_cases) auto
    from confirmed_calm [OF s2(2) _ assms(4) this, of t] False q show ?thesis by (simp add: e outcome_phase_def dispatch_log_def)
  qed
qed

section \<open>From the start to the dispatch\<close>

text \<open>
  The gateway's decision is on record and not claimed, the policy still allows the request, the key
  is new to the adapter, and no record is stored under an ID this run will use.
\<close>

definition startable :: "saga_info \<Rightarrow> string \<Rightarrow> time \<Rightarrow> system \<Rightarrow> bool" where
  "startable i token now w \<longleftrightarrow> sql_inv (sy_db w) \<and> sim_inv (sy_adapter w) \<and>
     sa_effects (sy_adapter w) (ExecutionKey (er_IngressDecisionID (si_req i))) = None \<and>
     (case lookup_decision (db_decisions (sy_db w)) (er_IngressDecisionID (si_req i)) of None \<Rightarrow> False
      | Some rec \<Rightarrow> VerifyIngress rec (si_req i) (si_WorkflowID i) = None) \<and>
     claimable (sql_claims (sy_db w)) (er_IngressDecisionID (si_req i)) \<and>
     d_Verdict (Revalidate (sy_policy w) (si_req i)) = VerdictAllow \<and>
     si_RunID i \<noteq> '''' \<and> token \<noteq> '''' \<and> p_ID (er_Proposal (si_req i)) \<noteq> '''' \<and> \<not> IsZero now \<and>
     fresh_id (db_decisions (sy_db w)) (''wf_'' @ si_WorkflowID i @ ''_'' @ si_RunID i) \<and> rows_free i 0 (sy_db w)"

lemma append_audit: "db_audit (snd (Sql_AppendDecision env r db)) = db_audit db"
  by (auto simp: Sql_AppendDecision_def ExecContext_def insert_decision_def split: option.splits exec_fault.splits query_row.splits)

lemma claim_step_calm:
  assumes "sql_inv (sy_db (sg_world s))" "d \<in> sql_known (sy_db (sg_world s))" "claimable (sql_claims (sy_db (sg_world s))) d"
    and "d = er_IngressDecisionID (si_req i)" "d \<noteq> ''''" "Valid (own_of i token)" "token \<noteq> ''''"
    and "rows_free i (sg_auditSeq s) (sy_db (sg_world s))"
  obtains s' where "sg_step (EvClaim bookCtx \<lparr>cr_DecisionID = d, cr_Token = token\<rparr>)
      (te_ClaimExecution (direct_te i token t) bookCtx \<lparr>cr_DecisionID = d, cr_Token = token\<rparr>) s =
      (Inr \<lparr>cl_Claimed = True, cl_Reason = Reason_other '''', cl_Detail = ''''\<rparr>, s')"
    "calm i token (sg_world s, []) ClaimStateClaimed (sy_adapter (sg_world s)) s'" "sg_now s' = sg_now s"
    "sy_policy (sg_world s') = sy_policy (sg_world s)" "db_decisions (sy_db (sg_world s')) = db_decisions (sy_db (sg_world s))"
proof -
  let ?w = "sg_world s"
  obtain e db where c: "Sql_ClaimExecution ok_env d (own_of i token) t (sy_db ?w) = (e, db)" by fastforce
  have q: "e = None" "sql_claims db d = Some (new_claim d (own_of i token) t)"
    using sql.claim_quiet [OF assms(1) ok_env_quiet c] assms(2,3,5,6) by (simp_all add: spec_claim_def)
  have k: "db_audit db = db_audit (sy_db ?w)" "db_decisions db = db_decisions (sy_db ?w)" "sql_inv db"
    using claim_calls_audit(1) [of ok_env d "own_of i token" t "sy_db ?w"]
      claim_calls_decisions(1) [of ok_env d "own_of i token" t "sy_db ?w"] sql.claim_safe [OF assms(1) c] c by simp_all
  let ?s = "s\<lparr>sg_world := ?w\<lparr>sy_db := db\<rparr>, sg_history := sg_history s @ [EvClaim bookCtx \<lparr>cr_DecisionID = d, cr_Token = token\<rparr>
      (Inr \<lparr>cl_Claimed = True, cl_Reason = Reason_other '''', cl_Detail = ''''\<rparr>)]\<rparr>"
  have "calm i token (?w, []) ClaimStateClaimed (sy_adapter ?w) ?s"
    using q(2) k assms(4,8) by (simp add: calm_def rows_free_def trail_def new_claim_def)
  then show thesis
    using q(1) k(2) c assms(5,7) by (intro that [of ?s])
      (simp_all add: sg_step_def direct_def wk_ClaimExecution_def ClaimExecution_def sql_Claims_def)
qed

lemma decision_calm:
  assumes "calm i token L st a s" "p_ID (er_Proposal (si_req i)) \<noteq> ''''" "d_Verdict dec = VerdictAllow" "\<not> IsZero (sg_now s)"
    and "fresh_id (db_decisions (sy_db (sg_world s))) (''wf_'' @ si_WorkflowID i @ ''_'' @ si_RunID i)"
  obtains s' where "recordDecision (direct_te i token t) i dec s = (None, s')" "calm i token L st a s'"
proof -
  let ?w = "sg_world s"
  define r where "r = decision_record i dec (sg_now s)"
  obtain e db where d: "Sql_AppendDecision ok_env r (sy_db ?w) = (e, db)" by fastforce
  have inv: "sql_inv (sy_db ?w)" using assms(1) by (simp add: calm_def)
  have "Validate r = None"
    using assms(2,3,4) RequestHash_nonempty by (simp add: r_def decision_record_def Let_def Validate_None_iff)
  moreover have "lookup_decision (db_decisions (sy_db ?w)) (dr_DecisionID r) = None"
    using assms(5) by (simp add: lookup_None_iff r_def decision_record_def Let_def)
  ultimately have "e = None"
    using sqlr.append_quiet [OF inv ok_env_quiet d] by (simp add: spec_append_def)
  moreover have k: "sql_inv db" "sql_claims db = sql_claims (sy_db ?w)" "db_audit db = db_audit (sy_db ?w)"
    using Sql_AppendDecision_cases [OF inv d] append_audit [of ok_env r "sy_db ?w"] d by simp_all
  moreover have "trail i L (?w\<lparr>sy_db := db\<rparr>)"
  proof -
    have w: "dr_DecisionID r = ''wf_'' @ si_WorkflowID i @ ''_'' @ si_RunID i" by (simp add: r_def decision_record_def Let_def)
    have "db_decisions db = db_decisions (sy_db ?w) \<or> db_decisions db = db_decisions (sy_db ?w) @ [r]"
      using Sql_AppendDecision_cases [OF inv d] by auto
    moreover have "trail i L ?w" using assms(1) by (simp add: calm_def)
    ultimately show ?thesis
      using w k(3) unfolding trail_def by (elim conjE exE disjE) (auto intro: exI [of _ "_ @ [r]"])
  qed
  ultimately show thesis
    using assms(1) d by (intro that [of "s\<lparr>sg_world := ?w\<lparr>sy_db := db\<rparr>, sg_history := sg_history s @ [EvDecision bookCtx r None]\<rparr>"])
      (simp_all add: recordDecision_def Let_def r_def [symmetric] sg_step_def direct_def
        wk_RecordDecision_def RecordDecision_def sql_Store_def calm_def rows_free_def)
qed

text \<open>Before the dispatch the run has written the row of the re-validation.\<close>

definition trail_start :: "system \<Rightarrow> trail" where
  "trail_start w = (w, [(AuditPhaseRevalidation, AuditVerdictPass)])"

lemma direct_run:
  assumes st: "startable i token now w"
    and d: "Sim_Dispatch None (dispatch_request i) (sy_adapter w) = (o1, a1)"
    and q: "if oc_Status (Checked o1) = OutcomeUnknown then Sim_Reconcile None (dispatch_request i) a1 = (o2, a2) \<and>
      (oc_Status (Checked o2) = OutcomeUnknown \<longrightarrow> a2 = a1) else o2 = o1 \<and> a2 = a1"
  shows "\<exists>r s'. SentryGateSagaWorkflow (direct_te i token t) i (start_state w now) = (r, s') \<and> ends i token (dispatch_log (trail_start w) o1 o2) (Checked o2) a2 r s'"
proof -
  let ?te = "direct_te i token t" and ?req = "si_req i" and ?d = "er_IngressDecisionID (si_req i)"
  obtain rec where rec: "lookup_decision (db_decisions (sy_db w)) ?d = Some rec" "VerifyIngress rec ?req (si_WorkflowID i) = None"
    using st by (auto simp: startable_def split: option.splits)
  have inv: "sql_inv (sy_db w)" and ids: "si_RunID i \<noteq> ''''" "token \<noteq> ''''" "p_ID (er_Proposal ?req) \<noteq> ''''" "?d \<noteq> ''''" "si_WorkflowID i \<noteq> ''''"
    and fr: "fresh_id (db_decisions (sy_db w)) (''wf_'' @ si_WorkflowID i @ ''_'' @ si_RunID i)"
    and al: "d_Verdict (Revalidate (sy_policy w) ?req) = VerdictAllow"
    and cl: "claimable (sql_claims (sy_db w)) ?d" and rf: "rows_free i 0 (sy_db w)" and nz: "\<not> IsZero now"
    using st rec(2) by (auto simp: startable_def VerifyIngress_None_iff)
  have "wk_VerifyIngressDecision (direct_ctx i t) ?req w = Inr \<lparr>iv_Valid = True, iv_Reason = Reason_other '''', iv_Detail = ''''\<rparr>"
    using rec sqlr.get_quiet [OF inv ok_env_quiet] ids(4)
    by (simp add: wk_VerifyIngressDecision_def VerifyIngressDecision_def sql_Store_def CheckIngress_def)
  then obtain s1 where v: "sg_step (EvVerify bookCtx ?req) (te_VerifyIngressDecision ?te bookCtx ?req) (start_state w now) =
      (Inr \<lparr>iv_Valid = True, iv_Reason = Reason_other '''', iv_Detail = ''''\<rparr>, s1)"
      "sg_world s1 = w" "sg_now s1 = now" "sg_auditSeq s1 = 0"
    by (simp add: sg_step_def direct_def start_state_def)
  obtain s2 where k: "sg_step EvToken (te_SideEffect ?te) s1 = (Inr token, s2)" "sg_world s2 = w" "sg_now s2 = now" "sg_auditSeq s2 = 0"
    using v by (simp add: sg_step_def direct_def)
  have known: "?d \<in> sql_known (sy_db w)" using lookup_SomeD [OF rec(1)] by (metis imageI sql_known_def)
  have ov: "Valid (own_of i token)" using ids by (simp add: Valid_def own_of_def)
  have rf2: "rows_free i (sg_auditSeq s2) (sy_db (sg_world s2))" using rf k by simp
  obtain s3 where c: "sg_step (EvClaim bookCtx \<lparr>cr_DecisionID = ?d, cr_Token = token\<rparr>)
      (te_ClaimExecution ?te bookCtx \<lparr>cr_DecisionID = ?d, cr_Token = token\<rparr>) s2 =
      (Inr \<lparr>cl_Claimed = True, cl_Reason = Reason_other '''', cl_Detail = ''''\<rparr>, s3)"
    "calm i token (w, []) ClaimStateClaimed (sy_adapter w) s3" "sg_now s3 = now"
    "sy_policy (sg_world s3) = sy_policy w" "db_decisions (sy_db (sg_world s3)) = db_decisions (sy_db w)"
    using claim_step_calm [OF _ _ _ refl ids(4) ov ids(2) rf2, of t] inv known cl k by auto
  define dec where "dec = Revalidate (sy_policy w) ?req"
  obtain s4 where e: "sg_step (EvEvaluate bookCtx ?req) (te_EvaluateExecution ?te bookCtx ?req) s3 = (Inr dec, s4)"
      "calm i token (w, []) ClaimStateClaimed (sy_adapter w) s4" "sg_now s4 = now" "sg_world s4 = sg_world s3"
    using c by (simp add: sg_step_def direct_def wk_EvaluateExecution_def EvaluateExecution_def dec_def calm_def)
  obtain s5 where g: "recordDecision ?te i dec s4 = (None, s5)" "calm i token (w, []) ClaimStateClaimed (sy_adapter w) s5"
    by (rule decision_calm [OF e(2) ids(3), of dec t]) (use al nz fr c(5) e(3,4) in \<open>simp_all add: dec_def\<close>)
  define detail where "detail = ''verdict='' @ Verdict_str (d_Verdict dec) @ '' reasons='' @ joinReasons (d_Reasons dec)
    @ '' policy_version='' @ d_PolicyVersion dec @ '' ingress_decision_id='' @ ?d"
  obtain s6 where h: "record_phase ?te i bookCtx AuditPhaseRevalidation AuditVerdictPass detail s5 = (None, s6)"
      "calm i token (trail_start w) ClaimStateClaimed (sy_adapter w) s6"
    by (rule record_calm [OF g(2) ids(3)]) (auto simp: trail_start_def log_row_def)
  obtain r s7 where z: "dispatch_phase ?te i token s6 = (r, s7)" "ends i token (dispatch_log (trail_start w) o1 o2) (Checked o2) a2 r s7"
    using dispatch_calm [OF h(2) ids(2,4,3) d q] by blast
  have "revalidate_phase ?te i token s3 = (r, False, s7)"
    unfolding revalidate_phase_def Let_def e(1) prod.case sum.case g(1) detail_def [symmetric]
    using al h(1) z(1) by (simp add: dec_def)
  then have "claimed_run ?te i token s2 = (r, s7)"
    unfolding claimed_run_def claim_phase_def Let_def c(1) prod.case sum.case by simp
  then have "SentryGateSagaWorkflow ?te i (start_state w now) = (r, s7)"
    unfolding SentryGateSagaWorkflow_def Let_def v(1) prod.case sum.case by (simp add: k(1) del: direct_te_simps)
  with z(2) show ?thesis by blast
qed

section \<open>The outcome by target\<close>

text \<open>The adapter's answer to a dispatch, and to one status query when that answer is unknown.\<close>

definition sim_answer :: "DispatchRequest \<Rightarrow> SimulatedAdapter \<Rightarrow> DispatchOutcome \<times> SimulatedAdapter" where
  "sim_answer q a = (case Sim_Dispatch None q a of (o1, a1) \<Rightarrow>
     if oc_Status (Checked o1) = OutcomeUnknown then Sim_Reconcile None q a1 else (o1, a1))"

lemma sim_answer_outcome:
  assumes "sim_inv a" "sa_effects a (dq_IdempotencyKey q) = None" "p_TargetID (dq_Proposal q) = tgt"
  shows "oc_Status (Checked (fst (Sim_Dispatch None q a))) = (if tgt \<in> {LostResponseNodeID, UnreachableNodeID, PartitionedNodeID}
       then OutcomeUnknown else if tgt = FailingNodeID then OutcomeFailure else OutcomeSuccess) \<and>
    oc_Status (Checked (fst (sim_answer q a))) = (if tgt = PartitionedNodeID then OutcomeUnknown
       else if tgt = FailingNodeID \<or> tgt = UnreachableNodeID then OutcomeFailure else OutcomeSuccess) \<and>
    (oc_PartiallyApplied (Checked (fst (sim_answer q a))) \<longleftrightarrow> tgt = FailingNodeID) \<and>
    Mutations (snd (sim_answer q a)) (dq_IdempotencyKey q) = (if tgt = PartitionedNodeID \<or> tgt = UnreachableNodeID then 0 else 1) \<and>
    Compensations (snd (sim_answer q a)) = Compensations a"
proof -
  note m = sim_invD(1) [OF assms(1,2)]
  note defs = sim_answer_def Sim_Dispatch_def Sim_Reconcile_def sim_apply_def sim_fence_def sim_success_def UnknownOutcome_def Checked_def
    Mutations_def Compensations_def fun_eq_iff Let_def
  note ids = FailingNodeID_def LostResponseNodeID_def UnreachableNodeID_def PartitionedNodeID_def
  consider (lost) "tgt = LostResponseNodeID" | (gone) "tgt = UnreachableNodeID" | (part) "tgt = PartitionedNodeID"
    | (failing) "tgt = FailingNodeID" | (other) "tgt \<notin> {LostResponseNodeID, UnreachableNodeID, PartitionedNodeID, FailingNodeID}"
    by blast
  then show ?thesis
    using m assms(2,3) by cases (simp_all add: defs ids)
qed

lemma sim_answer_unknown: "oc_Status (Checked (fst (sim_answer q a))) = OutcomeUnknown \<Longrightarrow> snd (sim_answer q a) = snd (Sim_Dispatch None q a)"
  by (auto simp: sim_answer_def Sim_Reconcile_def sim_fence_def Checked_def Let_def split: prod.splits option.splits if_splits)

lemma direct_run_answer:
  assumes st: "startable i token now w"
  shows "\<exists>r s'. SentryGateSagaWorkflow (direct_te i token t) i (start_state w now) = (r, s') \<and>
    ends i token (dispatch_log (trail_start w) (fst (Sim_Dispatch None (dispatch_request i) (sy_adapter w))) (fst (sim_answer (dispatch_request i) (sy_adapter w))))
      (Checked (fst (sim_answer (dispatch_request i) (sy_adapter w)))) (snd (sim_answer (dispatch_request i) (sy_adapter w))) r s'"
proof -
  let ?q = "dispatch_request i" and ?a = "sy_adapter w"
  obtain o1 a1 where d: "Sim_Dispatch None ?q ?a = (o1, a1)" by fastforce
  obtain o2 a2 where s: "sim_answer ?q ?a = (o2, a2)" by fastforce
  have "oc_Status (Checked o2) = OutcomeUnknown \<longrightarrow> a2 = a1"
    using sim_answer_unknown [of ?q ?a] d s by simp
  then have "if oc_Status (Checked o1) = OutcomeUnknown then Sim_Reconcile None ?q a1 = (o2, a2) \<and>
      (oc_Status (Checked o2) = OutcomeUnknown \<longrightarrow> a2 = a1) else o2 = o1 \<and> a2 = a1"
    using d s by (auto simp: sim_answer_def split: if_splits)
  from direct_run [OF st d this, of t] show ?thesis using s d by simp
qed

text \<open>What a run that has ended leaves behind.\<close>

lemma ends_facts:
  assumes "ends i token L o' a r s'"
  shows "\<exists>rows. db_audit (sy_db (sg_world s')) = db_audit (sy_db (fst L)) @ rows \<and> list_all (own_row i) rows \<and>
      map (\<lambda>x. (ar_Phase x, ar_Verdict x)) rows = snd L @ (case oc_Status o' of
          OutcomeSuccess \<Rightarrow> [(AuditPhaseWorkflowComplete, AuditVerdictPass)]
        | OutcomeFailure \<Rightarrow> (if oc_PartiallyApplied o' then [(AuditPhaseCompensation, AuditVerdictPass)] else []) @
            [(AuditPhaseWorkflowFailed, AuditVerdictFail)]
        | _ \<Rightarrow> [])"
    and "sy_adapter (sg_world s') = (if oc_Status o' = OutcomeFailure \<and> oc_PartiallyApplied o'
      then snd (Sim_Compensate None (dispatch_request i) a) else a)"
    and "map_option ec_State (sql_claims (sy_db (sg_world s')) (er_IngressDecisionID (si_req i))) = Some (case oc_Status o' of
          OutcomeSuccess \<Rightarrow> ClaimStateCompleted | OutcomeFailure \<Rightarrow> ClaimStateFailed | _ \<Rightarrow> ClaimStateReconciliationRequired)"
    and "case oc_Status o' of OutcomeSuccess \<Rightarrow> r = None
      | OutcomeFailure \<Rightarrow> (\<exists>e. r = Some e \<and> err_type e = DispatchFailedErrorType)
      | _ \<Rightarrow> (\<exists>e. r = Some e \<and> err_type e = DispatchOutcomeUnknownErrorType)"
    and "sy_policy (sg_world s') = sy_policy (fst L)"
    and "\<exists>recs. db_decisions (sy_db (sg_world s')) = db_decisions (sy_db (fst L)) @ recs \<and>
      list_all (\<lambda>r. dr_DecisionID r = ''wf_'' @ si_WorkflowID i @ ''_'' @ si_RunID i) recs"
  using assms by (auto simp: ends_def calm_def trail_def log_row_def split: OutcomeStatus.splits if_splits)

section \<open>A sample system\<close>

text \<open>
  The gateway has recorded its ALLOW of the sample proposal and the worker has the sample policy in
  force; nothing has been claimed, dispatched or audited.
\<close>

definition ready_info :: saga_info where
  "ready_info = \<lparr>si_req = \<lparr>er_AgentID = ''a'', er_Proposal = sample_prop, er_IngressDecisionID = ''d'',
     er_RequestHash = RequestHash sample_prop\<rparr>, si_WorkflowID = ''w'', si_RunID = ''r''\<rparr>"

definition ready_decision :: DecisionRecord where
  "ready_decision = \<lparr>dr_DecisionID = ''d'', dr_Stage = StageIngress, dr_ProposalID = ''p1'', dr_AgentID = ''a'',
     dr_RequestHash = RequestHash sample_prop, dr_Command = ''C'', dr_TargetID = ''t'', dr_Environment = ''dev'',
     dr_Verdict = VerdictAllow, dr_Reasons = [], dr_PolicyVersion = ''v1'', dr_PolicyDigest = '''', dr_WorkflowID = ''w'',
     dr_TraceID = '''', dr_RecordedAt = 0\<rparr>"

definition ready_system :: system where
  "ready_system = \<lparr>sy_db = migrate\<lparr>db_decisions := [ready_decision]\<rparr>, sy_adapter = NewSimulatedAdapter,
     sy_policy = Some (document_snapshot sample_doc), sy_pending = [], sy_calls = []\<rparr>"

lemma ready_startable: "startable ready_info ''k'' 0 ready_system" "sys_ok ready_system"
proof -
  have v: "Validate ready_decision = None"
    by (simp add: ready_decision_def Validate_None_iff RequestHash_nonempty IsZero_def zero_time_def)
  have i: "sql_inv (sy_db ready_system)"
    using v by (simp add: sql_inv_def ready_system_def migrate_def sql_known_def)
  have l: "lookup_decision (db_decisions (sy_db ready_system)) ''d'' = Some ready_decision"
    by (simp add: lookup_decision_def ready_system_def ready_decision_def)
  have g: "VerifyIngress ready_decision (si_req ready_info) ''w'' = None"
    by (simp add: VerifyIngress_None_iff ready_decision_def ready_info_def sample_prop_def)
  have a: "d_Verdict (Revalidate (sy_policy ready_system) (si_req ready_info)) = VerdictAllow"
    by (simp add: Revalidate_def Let_def ready_info_def ready_system_def sample_evaluate)
  have c: "claimable (sql_claims (sy_db ready_system)) ''d''"
    by (simp add: claimable_def ready_system_def sql_claims_eq migrate_def)
  have f: "fresh_id (db_decisions (sy_db ready_system)) ''wf_w_r''" "rows_free ready_info 0 (sy_db ready_system)"
    by (simp_all add: fresh_id_def rows_free_def ready_system_def ready_decision_def migrate_def)
  have n: "si_req ready_info = \<lparr>er_AgentID = ''a'', er_Proposal = sample_prop, er_IngressDecisionID = ''d'',
     er_RequestHash = RequestHash sample_prop\<rparr>" "si_WorkflowID ready_info = ''w''" "si_RunID ready_info = ''r''"
    "p_ID sample_prop = ''p1''" "sy_adapter ready_system = NewSimulatedAdapter"
    by (simp_all add: ready_info_def sample_prop_def ready_system_def)
  have e: "sa_effects NewSimulatedAdapter = Map.empty" by (simp add: NewSimulatedAdapter_def)
  show "startable ready_info ''k'' 0 ready_system"
    using i l g a c f by (simp add: startable_def n e IsZero_def zero_time_def)
  show "sys_ok ready_system" using i by (simp add: sys_ok_def n)
qed

lemma ready_run:
  obtains s' where "SentryGateSagaWorkflow (direct_te ready_info ''k'' 0) ready_info (start_state ready_system 0) = (None, s')"
proof -
  have "sim_inv (sy_adapter ready_system)" "sa_effects (sy_adapter ready_system) (dq_IdempotencyKey (dispatch_request ready_info)) = None"
    using ready_startable(1) by (simp_all add: startable_def dispatch_request_def)
  from sim_answer_outcome [OF this refl]
  have "oc_Status (Checked (fst (sim_answer (dispatch_request ready_info) (sy_adapter ready_system)))) = OutcomeSuccess"
    by (simp add: dispatch_request_def ready_info_def sample_prop_def PartitionedNodeID_def FailingNodeID_def UnreachableNodeID_def)
  with direct_run_answer [OF ready_startable(1), of 0] that show thesis by (auto simp: ends_def)
qed

lemma completed_dispatched:
  assumes "SentryGateSagaWorkflow te i (start_state w t) = (None, s')"
  shows "list_ex is_dispatch (sg_history s')"
proof -
  let ?h = "sg_history s'"
  obtain e o' where e: "e \<in> set ?h" "reported e = Some o'"
    using workflow_ok [of te i w t] assms by (auto simp: result_ok_def confirmed_def list_ex_iff split: option.splits)
  obtain h1 h2 where h: "?h = h1 @ e # h2" "allowed i h1 e"
    using e(1) legal_split workflow_legal [of i te w t] assms by (metis in_set_conv_decomp snd_conv)
  then have "is_dispatch e \<or> list_ex is_dispatch h1"
    using e(2) by (cases e) (auto simp: is_dispatch_def reported_def)
  with h(1) show ?thesis by auto
qed

section \<open>Properties\<close>

text \<open>
  C4. What the workflow returns is true of the infrastructure and stays true. If it returns no error,
  the change of this decision has taken effect exactly once and the decision's claim is COMPLETED by
  this very run; if it returns \<^verbatim>\<open>DISPATCH_FAILED\<close>, the change never took effect, or once if a partial
  application was reported, whatever happens later. This holds for every Temporal that keeps
  \<open>worker_temporal\<close>, with any activity of any other run in between.
\<close>

theorem system_result:
  assumes "worker_temporal i te" "sys_ok w" "SentryGateSagaWorkflow te i (start_state w t) = (r, s')"
    and "meanwhile (sg_world s') w'"
  shows "(r = None \<longrightarrow> Mutations (sy_adapter w') (ExecutionKey (er_IngressDecisionID (si_req i))) = 1 \<and>
      (\<exists>c. sql_claims (sy_db w') (er_IngressDecisionID (si_req i)) = Some c \<and> ec_State c = ClaimStateCompleted \<and>
         o_WorkflowID (ec_Owner c) = si_WorkflowID i \<and> o_RunID (ec_Owner c) = si_RunID i)) \<and>
    (\<forall>e. r = Some e \<longrightarrow> err_type e = DispatchFailedErrorType \<longrightarrow>
      Mutations (sy_adapter w') (ExecutionKey (er_IngressDecisionID (si_req i))) = (if partly_applied (sg_history s') then 1 else 0))"
proof (intro conjI impI allI)
  let ?h = "sg_history s'"
  note ch = workflow_chain [OF assms(1) [unfolded worker_temporal_def] assms(3)]
  have lg: "legal i ?h" using workflow_legal [of i te w t] assms(3) by simp
  note count = confirmed_count [OF ch assms(2) lg _ _ _ assms(4)]
  have ok: "result_ok r ?h" using workflow_ok [of te i w t] assms(3) by simp
  {
    assume r: "r = None"
    then obtain e o' where "e \<in> set ?h" "reported e = Some o'" "oc_Status o' = OutcomeSuccess"
      using ok by (auto simp: result_ok_def confirmed_def list_ex_iff split: option.splits)
    then show "Mutations (sy_adapter w') (ExecutionKey (er_IngressDecisionID (si_req i))) = 1" using count by simp
    obtain c x where adv: "EvAdvance c x None \<in> set ?h" "ct_To x = ClaimStateCompleted"
      using ok r moved_event by (force simp: result_ok_def)
    then have "ct_DecisionID x = er_IngressDecisionID (si_req i)" using legal_event [OF lg adv(1)] by auto
    moreover obtain v v' where v: "sys_ok v" "witnessed i v (EvAdvance c x None) v'" "sys_ok v'" "meanwhile v' (sg_world s')"
      using event_at [OF ch assms(2) adv(1)] by blast
    ultimately show "\<exists>c. sql_claims (sy_db w') (er_IngressDecisionID (si_req i)) = Some c \<and> ec_State c = ClaimStateCompleted \<and>
         o_WorkflowID (ec_Owner c) = si_WorkflowID i \<and> o_RunID (ec_Owner c) = si_RunID i"
      using advanced_claim [OF v(2,1)] final_meanwhile [OF meanwhile_trans [OF v(4) assms(4)] v(3)] adv(2)
      by (fastforce simp: final_state_def)
  next
    fix e
    assume "r = Some e" "err_type e = DispatchFailedErrorType"
    then have "confirmed ?h OutcomeFailure" using ok by (simp add: result_ok_def)
    then obtain ev o' where ev: "ev \<in> set ?h" "reported ev = Some o'" "oc_Status o' = OutcomeFailure"
      by (auto simp: confirmed_def list_ex_iff split: option.splits)
    show "Mutations (sy_adapter w') (ExecutionKey (er_IngressDecisionID (si_req i))) = (if partly_applied ?h then 1 else 0)"
    proof (cases "partly_applied ?h")
      case True
      then obtain ev' o2 where "ev' \<in> set ?h" "reported ev' = Some o2" "oc_Status o2 = OutcomeFailure" "oc_PartiallyApplied o2"
        by (auto simp: partly_applied_def list_ex_iff split: option.splits)
      then show ?thesis using count True by simp
    next
      case False
      then have "\<not> oc_PartiallyApplied o'" using ev by (auto simp: partly_applied_def list_ex_iff)
      then show ?thesis using count [OF ev(1,2)] ev(3) False by simp
    qed
  }
qed

text \<open>
  C5. When a run has scheduled the dispatch, the database holds the gateway's ALLOW for exactly
  this agent, proposal and workflow and keeps it, and the policy the worker had in force at some
  moment of the run allowed the request again.
\<close>

theorem system_authorised:
  assumes "worker_temporal i te" "sys_ok w" "SentryGateSagaWorkflow te i (start_state w t) = (r, s')"
    and "meanwhile (sg_world s') w'" "list_ex is_dispatch (sg_history s')"
  shows "(\<exists>rec. lookup_decision (db_decisions (sy_db w')) (er_IngressDecisionID (si_req i)) = Some rec \<and>
      VerifyIngress rec (si_req i) (si_WorkflowID i) = None) \<and>
    (\<exists>v. meanwhile w v \<and> meanwhile v (sg_world s') \<and> d_Verdict (Revalidate (sy_policy v) (si_req i)) = VerdictAllow)"
proof
  let ?h = "sg_history s'"
  note ch = workflow_chain [OF assms(1) [unfolded worker_temporal_def] assms(3)]
  have lg: "legal i ?h" using workflow_legal [of i te w t] assms(3) by simp
  obtain h1 e h2 where h: "?h = h1 @ e # h2" "is_dispatch e" using assms(5) by (auto simp: list_ex_iff in_set_conv_decomp)
  then have al: "verified i h1" "revalidated i h1"
    using legal_split [OF lg [unfolded h(1)]] by (cases e; auto simp: is_dispatch_def)+
  show "\<exists>rec. lookup_decision (db_decisions (sy_db w')) (er_IngressDecisionID (si_req i)) = Some rec \<and>
      VerifyIngress rec (si_req i) (si_WorkflowID i) = None"
  proof -
    obtain c x where x: "EvVerify c (si_req i) (Inr x) \<in> set ?h" "iv_Valid x"
      using verified_event [OF al(1)] h(1) by auto
    obtain v v' where v: "sys_ok v" "witnessed i v (EvVerify c (si_req i) (Inr x)) v'" "sys_ok v'" "meanwhile v' (sg_world s')"
      using event_at [OF ch assms(2) x(1)] by blast
    then show ?thesis
      using verified_record [OF v(2,1) x(2)] records_meanwhile [OF meanwhile_trans [OF v(4) assms(4)] v(3)] by blast
  qed
  obtain c d where d: "EvEvaluate c (si_req i) (Inr d) \<in> set ?h" "d_Verdict d = VerdictAllow"
    using revalidated_event [OF al(2)] h(1) by auto
  obtain v v' where v: "meanwhile w v" "witnessed i v (EvEvaluate c (si_req i) (Inr d)) v'" "meanwhile v' (sg_world s')"
    using event_at [OF ch assms(2) d(1)] by blast
  then obtain ctx u where u: "meanwhile v u" "wk_EvaluateExecution ctx (si_req i) u = Inr d" "meanwhile u v'"
    by (auto simp: witnessed_def attempted_def)
  have "d = Revalidate (sy_policy u) (si_req i)"
    using u(2) by (auto simp: wk_EvaluateExecution_def EvaluateExecution_def split: option.splits)
  with d(2) u v show "\<exists>v. meanwhile w v \<and> meanwhile v (sg_world s') \<and> d_Verdict (Revalidate (sy_policy v) (si_req i)) = VerdictAllow"
    using meanwhile_trans by blast
qed

theorem system_result_witness:
  "\<exists>s'. SentryGateSagaWorkflow (direct_te ready_info ''k'' 0) ready_info (start_state ready_system 0) = (None, s') \<and>
     Mutations (sy_adapter (sg_world s')) (ExecutionKey (er_IngressDecisionID (si_req ready_info))) = 1"
proof -
  obtain s' where r: "SentryGateSagaWorkflow (direct_te ready_info ''k'' 0) ready_info (start_state ready_system 0) = (None, s')"
    by (rule ready_run)
  from system_result [OF direct_worker ready_startable(2) r meanwhile_refl] r show ?thesis by simp
qed

theorem system_authorised_witness:
  "\<exists>s' rec. SentryGateSagaWorkflow (direct_te ready_info ''k'' 0) ready_info (start_state ready_system 0) = (None, s') \<and>
     lookup_decision (db_decisions (sy_db (sg_world s'))) (er_IngressDecisionID (si_req ready_info)) = Some rec \<and> dr_Verdict rec = VerdictAllow"
proof -
  obtain s' where r: "SentryGateSagaWorkflow (direct_te ready_info ''k'' 0) ready_info (start_state ready_system 0) = (None, s')"
    by (rule ready_run)
  from system_authorised [OF direct_worker ready_startable(2) r meanwhile_refl completed_dispatched [OF r]] r
  show ?thesis by (auto simp: VerifyIngress_None_iff)
qed

text \<open>
  C6. A request the gateway has allowed, started on a healthy system, runs to its end, and the end is
  the one the target calls for: an ordinary target and one that loses the response are changed
  exactly once and the claim is COMPLETED; a failing target is compensated once and the claim is
  FAILED; an unreachable target is left unchanged and the claim is FAILED; a partitioned target
  stays unknown and the claim is left to an operator. The audit trail grows by exactly the rows that
  tell this story, in order.
\<close>

theorem direct_outcomes:
  assumes "startable i token now w"
  shows "\<exists>r s' rows. SentryGateSagaWorkflow (direct_te i token t) i (start_state w now) = (r, s') \<and>
    db_audit (sy_db (sg_world s')) = db_audit (sy_db w) @ rows \<and> (\<forall>x \<in> set rows. ar_ProposalID x = p_ID (er_Proposal (si_req i))) \<and>
    (let target = p_TargetID (er_Proposal (si_req i)); key = ExecutionKey (er_IngressDecisionID (si_req i));
         changes = Mutations (sy_adapter (sg_world s')) key;
         compensations = int (Compensations (sy_adapter (sg_world s')) key) - int (Compensations (sy_adapter w) key);
         claim = map_option ec_State (sql_claims (sy_db (sg_world s')) (er_IngressDecisionID (si_req i)));
         story = map (\<lambda>x. (ar_Phase x, ar_Verdict x)) rows;
         failed_with = (\<lambda>kind. \<exists>e. r = Some e \<and> err_type e = kind) in
     if target = FailingNodeID
     then failed_with DispatchFailedErrorType \<and> claim = Some ClaimStateFailed \<and> changes = 1 \<and> compensations = 1 \<and>
       story = [(AuditPhaseRevalidation, AuditVerdictPass), (AuditPhaseDispatch, AuditVerdictFail),
         (AuditPhaseCompensation, AuditVerdictPass), (AuditPhaseWorkflowFailed, AuditVerdictFail)]
     else if target = UnreachableNodeID
     then failed_with DispatchFailedErrorType \<and> claim = Some ClaimStateFailed \<and> changes = 0 \<and> compensations = 0 \<and>
       story = [(AuditPhaseRevalidation, AuditVerdictPass), (AuditPhaseDispatch, AuditVerdictUnknown),
         (AuditPhaseReconciliation, AuditVerdictFail), (AuditPhaseWorkflowFailed, AuditVerdictFail)]
     else if target = PartitionedNodeID
     then failed_with DispatchOutcomeUnknownErrorType \<and> claim = Some ClaimStateReconciliationRequired \<and> changes = 0 \<and> compensations = 0 \<and>
       story = [(AuditPhaseRevalidation, AuditVerdictPass), (AuditPhaseDispatch, AuditVerdictUnknown),
         (AuditPhaseReconciliation, AuditVerdictUnknown)]
     else r = None \<and> claim = Some ClaimStateCompleted \<and> changes = 1 \<and> compensations = 0 \<and>
       story = (if target = LostResponseNodeID
         then [(AuditPhaseRevalidation, AuditVerdictPass), (AuditPhaseDispatch, AuditVerdictUnknown),
           (AuditPhaseReconciliation, AuditVerdictPass), (AuditPhaseWorkflowComplete, AuditVerdictPass)]
         else [(AuditPhaseRevalidation, AuditVerdictPass), (AuditPhaseDispatch, AuditVerdictPass),
           (AuditPhaseWorkflowComplete, AuditVerdictPass)]))"
proof -
  let ?q = "dispatch_request i" and ?a = "sy_adapter w" and ?tgt = "p_TargetID (er_Proposal (si_req i))"
  define o1 o2 a2 where o: "o1 = fst (Sim_Dispatch None ?q ?a)" "o2 = fst (sim_answer ?q ?a)" "a2 = snd (sim_answer ?q ?a)"
  have k: "dq_IdempotencyKey ?q = ExecutionKey (er_IngressDecisionID (si_req i))" "dq_Proposal ?q = er_Proposal (si_req i)"
    by (simp_all add: dispatch_request_def)
  have "sim_inv ?a" "sa_effects ?a (dq_IdempotencyKey ?q) = None" using assms k by (simp_all add: startable_def)
  note out = sim_answer_outcome [OF this refl, unfolded k, folded o]
  have comp: "Mutations (snd (Sim_Compensate None ?q a2)) = Mutations a2"
    "Compensations (snd (Sim_Compensate None ?q a2)) (ExecutionKey (er_IngressDecisionID (si_req i))) =
       Compensations a2 (ExecutionKey (er_IngressDecisionID (si_req i))) + 1"
    by (simp_all add: Sim_Compensate_def Mutations_def Compensations_def fun_eq_iff k)
  obtain r s' where run: "SentryGateSagaWorkflow (direct_te i token t) i (start_state w now) = (r, s')"
    "ends i token (dispatch_log (trail_start w) o1 o2) (Checked o2) a2 r s'"
    using direct_run_answer [OF assms, of t] unfolding o by blast
  obtain rows where rows: "db_audit (sy_db (sg_world s')) = db_audit (sy_db (fst (dispatch_log (trail_start w) o1 o2))) @ rows"
    "list_all (own_row i) rows"
    "map (\<lambda>x. (ar_Phase x, ar_Verdict x)) rows = snd (dispatch_log (trail_start w) o1 o2) @ (case oc_Status (Checked o2) of
          OutcomeSuccess \<Rightarrow> [(AuditPhaseWorkflowComplete, AuditVerdictPass)]
        | OutcomeFailure \<Rightarrow> (if oc_PartiallyApplied (Checked o2) then [(AuditPhaseCompensation, AuditVerdictPass)] else []) @
            [(AuditPhaseWorkflowFailed, AuditVerdictFail)]
        | _ \<Rightarrow> [])"
    using ends_facts(1) [OF run(2)] by blast
  have base: "fst (dispatch_log (trail_start w) o1 o2) = w"
    by (simp add: dispatch_log_def log_row_def trail_start_def Let_def)
  note facts = ends_facts(2-4) [OF run(2)] rows(3) out comp
  note defs = Let_def dispatch_log_def log_row_def trail_start_def auditVerdict_def
  have ids: "FailingNodeID \<noteq> UnreachableNodeID" "FailingNodeID \<noteq> PartitionedNodeID" "UnreachableNodeID \<noteq> PartitionedNodeID"
    "LostResponseNodeID \<noteq> FailingNodeID" "LostResponseNodeID \<noteq> UnreachableNodeID" "LostResponseNodeID \<noteq> PartitionedNodeID"
    by (simp_all add: FailingNodeID_def UnreachableNodeID_def PartitionedNodeID_def LostResponseNodeID_def)
  consider "?tgt = FailingNodeID" | "?tgt = UnreachableNodeID" | "?tgt = PartitionedNodeID" | "?tgt = LostResponseNodeID"
    | "?tgt \<notin> {LostResponseNodeID, UnreachableNodeID, PartitionedNodeID, FailingNodeID}"
    by blast
  then show ?thesis
    by cases (rule exI [of _ r], rule exI [of _ s'], rule exI [of _ rows], use run(1) rows(1,2) base facts ids in \<open>simp add: defs own_row_def list_all_iff\<close>)+
qed

theorem direct_outcomes_witness:
  "\<exists>r s'. SentryGateSagaWorkflow (direct_te ready_info ''k'' 0) ready_info (start_state ready_system 0) = (r, s') \<and>
     r = None \<and> Mutations (sy_adapter (sg_world s')) (ExecutionKey ''d'') = 1"
  using direct_outcomes [OF ready_startable(1), of 0]
  by (auto simp: Let_def ready_info_def sample_prop_def FailingNodeID_def UnreachableNodeID_def PartitionedNodeID_def)

end
