(* ===== verification/Clients.thy ===== *)
theory Clients
  imports Contracts "HOL-Library.Word"
begin

text \<open>
  \<^verbatim>\<open>proxy/clients.go\<close>: the in-memory F5 and Zscaler simulators. Every method first looks at its
  context (\<open>ctx\<close> is the text of \<^verbatim>\<open>ctx.Err()\<close> when it is done) and then runs under the client's
  mutex, so a call is one step on the state; \<open>now\<close> is the clock. Revisions are 64-bit integers.
\<close>

section \<open>Errors\<close>

definition auth_handshake_failed :: go_error where
  "auth_handshake_failed = sentinel_error ErrAuthHandshakeFailed ''downstream authentication handshake failed''"

definition non_retryable_infra :: go_error where
  "non_retryable_infra = sentinel_error NonRetryableInfraError ''NON_RETRYABLE_INFRASTRUCTURE_FAULT''"

definition root_core_mutation :: go_error where
  "root_core_mutation = sentinel_error ErrRootCoreMutation
     ''critical compliance breach: autonomous mutation targeting ROOT_CORE_EDGE is blocked''"

definition infra_fault :: "string \<Rightarrow> go_error" where
  "infra_fault msg = wrap_error non_retryable_infra (err_text non_retryable_infra @ '': '' @ msg)"

definition fmt_int :: "int \<Rightarrow> string" where
  "fmt_int n = (if n < 0 then ''-'' @ fmt_d (nat (- n)) else fmt_d (nat n))"

section \<open>F5 BIG-IP\<close>

record CertUpdateRequest =
  cu_VirtualServer :: string
  cu_CommonName :: string
  cu_CertPEM :: string
  cu_KeyPEM :: string
  cu_ChainPEM :: string
  cu_ACMEOrderID :: string

record CertUpdateResult =
  cs_ProfileName :: string
  cs_AppliedAt :: time
  cs_FingerprintSHA :: string
  cs_TLSVersion :: string

record RoutingUpdateRequest =
  ru_PoolName :: string
  ru_Members :: "string list"
  ru_PersistKey :: string

record MockF5Client =
  f5_authenticated :: bool
  f5_token :: string
  f5_appliedCerts :: "string \<rightharpoonup> CertUpdateResult"
  f5_FailAuth :: bool
  f5_FailCertPush :: bool

definition NewMockF5Client :: MockF5Client where
  "NewMockF5Client = \<lparr>f5_authenticated = False, f5_token = '''', f5_appliedCerts = Map.empty,
     f5_FailAuth = False, f5_FailCertPush = False\<rparr>"

definition F5_Authenticate :: "string option \<Rightarrow> time \<Rightarrow> MockF5Client \<Rightarrow> go_error option \<times> MockF5Client" where
  "F5_Authenticate ctx now c = (case ctx of
       Some e \<Rightarrow> (Some (errors_New e), c)
     | None \<Rightarrow>
         if f5_FailAuth c then (Some auth_handshake_failed, c)
         else (None, c\<lparr>f5_token := ''f5-mock-token-'' @ fmt_int now, f5_authenticated := True\<rparr>))"

definition F5_requireAuth :: "MockF5Client \<Rightarrow> go_error option" where
  "F5_requireAuth c = (if \<not> f5_authenticated c \<or> f5_token c = '''' then Some auth_handshake_failed else None)"

definition F5_UpdateCertificate ::
  "string option \<Rightarrow> time \<Rightarrow> CertUpdateRequest \<Rightarrow> MockF5Client \<Rightarrow> (go_error + CertUpdateResult) \<times> MockF5Client" where
  "F5_UpdateCertificate ctx now req c = (case ctx of
       Some e \<Rightarrow> (Inl (errors_New e), c)
     | None \<Rightarrow> (case F5_requireAuth c of
         Some e \<Rightarrow> (Inl e, c)
       | None \<Rightarrow>
           if f5_FailCertPush c then (Inl non_retryable_infra, c)
           else if cu_CommonName req = '''' \<or> cu_CertPEM req = '''' \<or> cu_KeyPEM req = ''''
           then (Inl (infra_fault (''incomplete Let'' @ [CHR 0x27] @ ''s Encrypt certificate bundle'')), c)
           else
             let result = \<lparr>cs_ProfileName = ''clientssl-'' @ cu_VirtualServer req, cs_AppliedAt = now,
                   cs_FingerprintSHA = ''sha256:mock-'' @ cu_CommonName req @ ''-'' @ cu_ACMEOrderID req,
                   cs_TLSVersion = ''TLS1.3''\<rparr>
             in (Inr result, c\<lparr>f5_appliedCerts := (f5_appliedCerts c)(cu_VirtualServer req \<mapsto> result)\<rparr>)))"

definition F5_ModifyRouting ::
  "string option \<Rightarrow> RoutingUpdateRequest \<Rightarrow> MockF5Client \<Rightarrow> go_error option \<times> MockF5Client" where
  "F5_ModifyRouting ctx req c = (case ctx of
       Some e \<Rightarrow> (Some (errors_New e), c)
     | None \<Rightarrow> (case F5_requireAuth c of
         Some e \<Rightarrow> (Some e, c)
       | None \<Rightarrow> if ru_PoolName req = '''' then (Some (infra_fault ''empty pool name''), c) else (None, c)))"

definition F5_HealthProbe :: "string option \<Rightarrow> MockF5Client \<Rightarrow> go_error option" where
  "F5_HealthProbe ctx c = (case ctx of Some e \<Rightarrow> Some (errors_New e) | None \<Rightarrow> F5_requireAuth c)"

section \<open>Zscaler\<close>

datatype ZscalerPolicyAction = ZscalerActionAllow | ZscalerActionBlock | ZscalerActionDelete | ZscalerAction_other string

record ZscalerPolicyRequest =
  zr_PolicyID :: string
  zr_Action :: ZscalerPolicyAction
  zr_AppSegment :: string
  zr_UserGroup :: string
  zr_SourceIPCIDR :: string

record ZscalerPolicyResult =
  zp_PolicyID :: string
  zp_Revision :: "64 word"
  zp_AppliedAt :: time

record MockZscalerClient =
  zs_authenticated :: bool
  zs_sessionToken :: string
  zs_policies :: "string \<rightharpoonup> ZscalerPolicyResult"
  zs_FailAuth :: bool

definition NewMockZscalerClient :: MockZscalerClient where
  "NewMockZscalerClient = \<lparr>zs_authenticated = False, zs_sessionToken = '''', zs_policies = Map.empty, zs_FailAuth = False\<rparr>"

definition Zs_Authenticate :: "string option \<Rightarrow> time \<Rightarrow> MockZscalerClient \<Rightarrow> go_error option \<times> MockZscalerClient" where
  "Zs_Authenticate ctx now c = (case ctx of
       Some e \<Rightarrow> (Some (errors_New e), c)
     | None \<Rightarrow>
         if zs_FailAuth c then (Some auth_handshake_failed, c)
         else (None, c\<lparr>zs_sessionToken := ''zs-session-'' @ fmt_int now, zs_authenticated := True\<rparr>))"

definition Zs_requireAuth :: "MockZscalerClient \<Rightarrow> go_error option" where
  "Zs_requireAuth c = (if \<not> zs_authenticated c \<or> zs_sessionToken c = '''' then Some auth_handshake_failed else None)"

text \<open>A missing entry of the map reads as the zero result, whose revision is 0.\<close>

definition revision :: "string \<Rightarrow> MockZscalerClient \<Rightarrow> 64 word" where
  "revision pid c = (case zs_policies c pid of None \<Rightarrow> 0 | Some p \<Rightarrow> zp_Revision p)"

definition Zs_UpsertPolicy ::
  "string option \<Rightarrow> time \<Rightarrow> ZscalerPolicyRequest \<Rightarrow> MockZscalerClient \<Rightarrow>
     (go_error + ZscalerPolicyResult) \<times> MockZscalerClient" where
  "Zs_UpsertPolicy ctx now req c = (case ctx of
       Some e \<Rightarrow> (Inl (errors_New e), c)
     | None \<Rightarrow> (case Zs_requireAuth c of
         Some e \<Rightarrow> (Inl e, c)
       | None \<Rightarrow>
           if zr_PolicyID req = '''' \<or> zr_AppSegment req = ''''
           then (Inl (infra_fault ''incomplete Zero-Trust policy payload''), c)
           else
             let result = \<lparr>zp_PolicyID = zr_PolicyID req, zp_Revision = revision (zr_PolicyID req) c + 1,
                   zp_AppliedAt = now\<rparr>
             in (Inr result, c\<lparr>zs_policies := (zs_policies c)(zr_PolicyID req \<mapsto> result)\<rparr>)))"

definition Zs_DeletePolicy :: "string option \<Rightarrow> string \<Rightarrow> MockZscalerClient \<Rightarrow> go_error option \<times> MockZscalerClient" where
  "Zs_DeletePolicy ctx pid c = (case ctx of
       Some e \<Rightarrow> (Some (errors_New e), c)
     | None \<Rightarrow> (case Zs_requireAuth c of
         Some e \<Rightarrow> (Some e, c)
       | None \<Rightarrow>
           if pid = RootCoreEdgeID then (Some root_core_mutation, c)
           else (None, c\<lparr>zs_policies := (zs_policies c)(pid := None)\<rparr>)))"

definition Zs_GetPolicyRevision :: "string option \<Rightarrow> string \<Rightarrow> MockZscalerClient \<Rightarrow> go_error + 64 word" where
  "Zs_GetPolicyRevision ctx pid c = (case ctx of
       Some e \<Rightarrow> Inl (errors_New e)
     | None \<Rightarrow> (case Zs_requireAuth c of
         Some e \<Rightarrow> Inl e
       | None \<Rightarrow> (case zs_policies c pid of
           None \<Rightarrow> Inl (errors_New (''policy '' @ fmt_q pid @ '' not found''))
         | Some p \<Rightarrow> Inr (zp_Revision p))))"

section \<open>Sequences of calls\<close>

datatype zs_op =
    ZsAuth "string option" time
  | ZsUpsert "string option" time ZscalerPolicyRequest
  | ZsDelete "string option" string

fun zs_run :: "zs_op list \<Rightarrow> MockZscalerClient \<Rightarrow> MockZscalerClient" where
  "zs_run [] c = c"
| "zs_run (ZsAuth ctx now # ops) c = zs_run ops (snd (Zs_Authenticate ctx now c))"
| "zs_run (ZsUpsert ctx now req # ops) c = zs_run ops (snd (Zs_UpsertPolicy ctx now req c))"
| "zs_run (ZsDelete ctx pid # ops) c = zs_run ops (snd (Zs_DeletePolicy ctx pid c))"

text \<open>Every stored policy carries its own ID, and none is stored before the client authenticated.\<close>

definition stored_ok :: "string \<Rightarrow> ZscalerPolicyResult \<Rightarrow> bool" where
  "stored_ok pid p \<longleftrightarrow> zp_PolicyID p = pid \<and> pid \<noteq> ''''"

definition zs_inv :: "MockZscalerClient \<Rightarrow> bool" where
  "zs_inv c \<longleftrightarrow> (\<forall>pid p. zs_policies c pid = Some p \<longrightarrow> stored_ok pid p) \<and>
     (Zs_requireAuth c = None \<or> zs_policies c = Map.empty)"

lemma zs_step_inv:
  assumes "zs_inv c"
  shows "zs_inv (snd (Zs_Authenticate ctx now c))" "zs_inv (snd (Zs_UpsertPolicy ctx now req c))"
    "zs_inv (snd (Zs_DeletePolicy ctx pid c))"
proof -
  show "zs_inv (snd (Zs_Authenticate ctx now c))"
    using assms by (cases ctx; cases "zs_FailAuth c") (simp_all add: zs_inv_def Zs_Authenticate_def, simp add: Zs_requireAuth_def)
  have keep: "Zs_requireAuth (c\<lparr>zs_policies := m\<rparr>) = Zs_requireAuth c" for m by (simp add: Zs_requireAuth_def)
  show "zs_inv (snd (Zs_UpsertPolicy ctx now req c))"
    using assms by (cases ctx; cases "Zs_requireAuth c") (simp_all add: zs_inv_def Zs_UpsertPolicy_def Let_def keep stored_ok_def)
  show "zs_inv (snd (Zs_DeletePolicy ctx pid c))"
    using assms by (cases ctx; cases "Zs_requireAuth c") (simp_all add: zs_inv_def Zs_DeletePolicy_def keep)
qed

lemma zs_run_inv: "zs_inv c \<Longrightarrow> zs_inv (zs_run ops c)"
proof (induction ops arbitrary: c)
  case (Cons op ops)
  then show ?case by (cases op) (simp_all add: zs_step_inv)
qed simp

lemma zs_run_append: "zs_run (ops @ ops') c = zs_run ops' (zs_run ops c)"
proof (induction ops arbitrary: c)
  case (Cons op ops)
  then show ?case by (cases op) simp_all
qed simp

text \<open>The policy of the root core edge, once written, is never removed.\<close>

lemma zs_step_root:
  assumes "zs_policies c RootCoreEdgeID \<noteq> None"
  shows "zs_policies (zs_run [op] c) RootCoreEdgeID \<noteq> None"
  using assms
  by (cases op) (auto simp: Zs_Authenticate_def Zs_UpsertPolicy_def Zs_DeletePolicy_def Let_def split: option.splits)

lemma zs_run_root: "zs_policies c RootCoreEdgeID \<noteq> None \<Longrightarrow> zs_policies (zs_run ops c) RootCoreEdgeID \<noteq> None"
proof (induction ops arbitrary: c)
  case (Cons op ops)
  have "zs_run (op # ops) c = zs_run ops (zs_run [op] c)" using zs_run_append [of "[op]" ops c] by simp
  with Cons.IH [OF zs_step_root [OF Cons.prems, of op]] show ?case by simp
qed simp

section \<open>Properties\<close>

text \<open>
  C39. Whatever calls the Zscaler simulator receives, a stored policy of the root core edge
  is never removed, every stored policy carries the ID it is stored under, and without a session
  nothing is stored.
\<close>

theorem clients_protect_root:
  "zs_inv (zs_run ops NewMockZscalerClient) \<and>
   (zs_policies (zs_run ops NewMockZscalerClient) RootCoreEdgeID = None \<or>
    zs_policies (zs_run (ops @ later) NewMockZscalerClient) RootCoreEdgeID \<noteq> None)"
proof -
  have "zs_inv NewMockZscalerClient" by (simp add: zs_inv_def NewMockZscalerClient_def)
  then have "zs_inv (zs_run ops NewMockZscalerClient)" by (rule zs_run_inv)
  then show ?thesis using zs_run_root [of "zs_run ops NewMockZscalerClient" later] unfolding zs_run_append by blast
qed

theorem clients_protect_root_witness:
  "zs_policies (zs_run ([ZsAuth None 1, ZsUpsert None 2 \<lparr>zr_PolicyID = RootCoreEdgeID, zr_Action = ZscalerActionBlock,
     zr_AppSegment = ''s'', zr_UserGroup = '''', zr_SourceIPCIDR = ''''\<rparr>] @ [ZsDelete None RootCoreEdgeID]) NewMockZscalerClient)
     RootCoreEdgeID \<noteq> None"
  using clients_protect_root [of "[ZsAuth None 1, ZsUpsert None 2 \<lparr>zr_PolicyID = RootCoreEdgeID, zr_Action = ZscalerActionBlock,
     zr_AppSegment = ''s'', zr_UserGroup = '''', zr_SourceIPCIDR = ''''\<rparr>]" "[ZsDelete None RootCoreEdgeID]"]
  by (simp add: Zs_Authenticate_def Zs_UpsertPolicy_def NewMockZscalerClient_def Zs_requireAuth_def Let_def RootCoreEdgeID_def)

text \<open>
  With a session and a complete request, an upsert raises the policy's revision by one, modulo
  \<open>2^64\<close>, and reading the revision then returns it; other policies keep theirs.
\<close>

theorem clients_revision:
  assumes "Zs_requireAuth c = None" "zr_PolicyID req \<noteq> ''''" "zr_AppSegment req \<noteq> ''''"
  shows "Zs_GetPolicyRevision None (zr_PolicyID req) (snd (Zs_UpsertPolicy None now req c)) =
      Inr (word_of_int (uint (revision (zr_PolicyID req) c) + 1)) \<and>
    (pid = zr_PolicyID req \<or> revision pid (snd (Zs_UpsertPolicy None now req c)) = revision pid c)"
  using assms by (auto simp: Zs_GetPolicyRevision_def Zs_UpsertPolicy_def Zs_requireAuth_def Let_def revision_def
      word_of_int_uint split: option.splits)

theorem clients_revision_witness:
  "Zs_GetPolicyRevision None ''p'' (snd (Zs_UpsertPolicy None 7
     \<lparr>zr_PolicyID = ''p'', zr_Action = ZscalerActionAllow, zr_AppSegment = ''s'', zr_UserGroup = '''', zr_SourceIPCIDR = ''''\<rparr>
     (zs_run [ZsAuth None 1] NewMockZscalerClient))) = Inr 1"
  using clients_revision [of "zs_run [ZsAuth None 1] NewMockZscalerClient"
      "\<lparr>zr_PolicyID = ''p'', zr_Action = ZscalerActionAllow, zr_AppSegment = ''s'', zr_UserGroup = '''', zr_SourceIPCIDR = ''''\<rparr>" 7]
  by (simp add: Zs_Authenticate_def NewMockZscalerClient_def Zs_requireAuth_def revision_def)

end
