(* ===== verification/Agent_Sim.thy ===== *)
theory Agent_Sim
  imports Direct_Run Clients Config
begin

text \<open>
  \<^verbatim>\<open>cmd/agent-sim/main.go\<close>: the client that plays an agent, submits one proposal per scenario and checks what comes
  back. It is modelled against any server: \<open>transport\<close> takes the base URL, a request and the state of the outside to
  an answer or an error. A response body is the value that was encoded into it; a body of another
  kind than the one a route returns counts as one that does not decode. What is only printed is left
  out, and an error that is only printed is a value of \<open>check_error\<close>. The last part runs the client against the models of the gateway and the worker.
\<close>

section \<open>The scenarios\<close>

record scenario =
  sc_name :: string
  sc_title :: string
  sc_cmd :: CommandType
  sc_target :: string
  sc_payload :: string
  sc_wantStatus :: nat
  sc_wantVerd :: Verdict
  sc_wantPhase :: AuditPhase
  sc_wantPhaseVerdict :: AuditVerdict

text \<open>Two entries that want no phase, or one; a field left out is the empty text.\<close>

definition refused_case :: "string \<Rightarrow> string \<Rightarrow> CommandType \<Rightarrow> string \<Rightarrow> string \<Rightarrow> Verdict \<Rightarrow> scenario" where
  "refused_case name title cmd target payload verd = \<lparr>sc_name = name, sc_title = title, sc_cmd = cmd, sc_target = target,
     sc_payload = payload, sc_wantStatus = 403, sc_wantVerd = verd, sc_wantPhase = AuditPhase_other '''',
     sc_wantPhaseVerdict = AuditVerdict_other ''''\<rparr>"

definition executed_case :: "string \<Rightarrow> string \<Rightarrow> CommandType \<Rightarrow> string \<Rightarrow> string \<Rightarrow> AuditPhase \<Rightarrow> scenario" where
  "executed_case name title cmd target payload phase = \<lparr>sc_name = name, sc_title = title, sc_cmd = cmd, sc_target = target,
     sc_payload = payload, sc_wantStatus = 200, sc_wantVerd = VerdictAllow, sc_wantPhase = phase,
     sc_wantPhaseVerdict = AuditVerdictPass\<rparr>"

definition scenarios :: "scenario list" where
  "scenarios = [
     refused_case ''protected-delete'' ''DENY: delete on protected ROOT_CORE_EDGE'' CmdDeletePolicy RootCoreEdgeID
       ''{\"reason\":\"cleanup\"}'' VerdictDeny,
     refused_case ''protected-modify'' ''DENY: routing change on protected ROOT_CORE_EDGE'' CmdModifyRouting RootCoreEdgeID
       ''{\"route\":\"bypass\"}'' VerdictDeny,
     refused_case ''unknown-command'' ''DENY: command not in the catalogue'' ''REBOOT_ALL'' ''edge-node-west-1'' ''{}'' VerdictDeny,
     refused_case ''unregistered-target'' ''DENY: target not in the registry'' CmdModifyRouting ''shadow-edge-9''
       ''{\"route\":\"stable\"}'' VerdictDeny,
     refused_case ''approval-required'' ''REQUIRE_APPROVAL: production change is not executed'' CmdUpdateCert ''prod-payments-edge''
       ''{\"cert\":\"mock\"}'' VerdictRequireApproval,
     executed_case ''allowed'' ''ALLOW: staging routing change runs the workflow'' CmdModifyRouting ''edge-node-west-1''
       ''{\"route\":\"stable\"}'' AuditPhaseWorkflowComplete,
     executed_case ''rollback'' ''ALLOW then simulated partial dispatch failure and compensation'' CmdUpdateCert FailingNodeID
       ''{\"cert\":\"mock\"}'' AuditPhaseCompensation,
     executed_case ''unknown-outcome'' ''ALLOW, simulated lost response (UNKNOWN), reconciliation confirms success'' CmdModifyRouting
       LostResponseNodeID ''{\"route\":\"stable\"}'' AuditPhaseReconciliation]"

section \<open>Requests\<close>

datatype check_error =
    TransportError go_error
  | Unexpected nat Verdict nat Verdict
  | NoDecisionID
  | DecisionsStatus nat
  | DecisionsUndecodable
  | NoRecord Verdict string string
  | PhaseNotRecorded AuditPhase AuditVerdict string int

type_synonym 'h transport = "string \<Rightarrow> http_request \<Rightarrow> 'h \<Rightarrow> (go_error + http_response) \<times> 'h"

record sim =
  sm_base :: string
  sm_apiKey :: string
  sm_check :: bool
  sm_wait :: int

definition sim_do :: "'h transport \<Rightarrow> sim \<Rightarrow> string \<Rightarrow> string list \<Rightarrow> string \<Rightarrow> 'h \<Rightarrow> (go_error + http_response) \<times> 'h" where
  "sim_do tr s mtd path body h = tr (sm_base s) \<lparr>rq_method = mtd, rq_path = path, rq_apiKey = sm_apiKey s, rq_body = body\<rparr> h"

text \<open>What \<^verbatim>\<open>json.Unmarshal\<close> makes of a body: the verdict and the decision ID of a response, or the rows of a list.\<close>

definition decode_response :: "body \<Rightarrow> Verdict \<times> string" where
  "decode_response b = (case b of BodyResponse r \<Rightarrow> (ir_Verdict r, ir_DecisionID r) | _ \<Rightarrow> (Verdict_other '''', ''''))"

definition decode_decisions :: "body \<Rightarrow> DecisionRecord list option" where
  "decode_decisions b = (case b of BodyDecisions rows \<Rightarrow> Some rows | _ \<Rightarrow> None)"

definition decode_audit :: "body \<Rightarrow> AuditRecord list option" where
  "decode_audit b = (case b of BodyAudit rows \<Rightarrow> Some rows | _ \<Rightarrow> None)"

definition checkDecision :: "'h transport \<Rightarrow> sim \<Rightarrow> string \<Rightarrow> string \<Rightarrow> Verdict \<Rightarrow> 'h \<Rightarrow> check_error option \<times> 'h" where
  "checkDecision tr s proposalID decisionID want h = (case sim_do tr s ''GET'' [''v1'', ''decisions'', proposalID] '''' h of
       (Inl e, h) \<Rightarrow> (Some (TransportError e), h)
     | (Inr rs, h) \<Rightarrow>
         if hr_status rs \<noteq> 200 then (Some (DecisionsStatus (hr_status rs)), h)
         else (case decode_decisions (hr_body rs) of
             None \<Rightarrow> (Some DecisionsUndecodable, h)
           | Some recs \<Rightarrow>
               if list_ex (\<lambda>r. dr_DecisionID r = decisionID \<and> dr_Stage r = StageIngress \<and> dr_Verdict r = want) recs then (None, h)
               else (Some (NoRecord want decisionID proposalID), h)))"

text \<open>
  The loop of \<^verbatim>\<open>waitForPhase\<close> on a clock: a round takes the half second it sleeps and \<open>extra n\<close> more. \<open>phase_seen\<close> is the
  test on one answer.
\<close>

definition phase_seen :: "go_error + http_response \<Rightarrow> AuditPhase \<Rightarrow> AuditVerdict \<Rightarrow> bool" where
  "phase_seen r phase verdict = (case r of
       Inl _ \<Rightarrow> False
     | Inr rs \<Rightarrow> hr_status rs = 200 \<and> (case decode_audit (hr_body rs) of
           None \<Rightarrow> False | Some recs \<Rightarrow> list_ex (\<lambda>x. ar_Phase x = phase \<and> ar_Verdict x = verdict) recs))"

function wait_loop ::
  "'h transport \<Rightarrow> sim \<Rightarrow> string \<Rightarrow> AuditPhase \<Rightarrow> AuditVerdict \<Rightarrow> (nat \<Rightarrow> nat) \<Rightarrow> nat \<Rightarrow> int \<Rightarrow> int \<Rightarrow> 'h \<Rightarrow> bool \<times> 'h" where
  "wait_loop tr s proposalID phase verdict extra n now deadline h =
     (if \<not> now < deadline then (False, h)
      else case sim_do tr s ''GET'' [''v1'', ''audit'', proposalID] '''' h of (r, h) \<Rightarrow>
        if phase_seen r phase verdict then (True, h)
        else wait_loop tr s proposalID phase verdict extra (Suc n) (now + 500000000 + int (extra n)) deadline h)"
  by auto
termination
  by (relation "measure (\<lambda>(tr, s, pid, ph, v, extra, n, now, deadline, h). nat (deadline - now))") auto

declare wait_loop.simps [simp del]

definition waitForPhase ::
  "'h transport \<Rightarrow> sim \<Rightarrow> string \<Rightarrow> AuditPhase \<Rightarrow> AuditVerdict \<Rightarrow> (nat \<Rightarrow> nat) \<Rightarrow> int \<Rightarrow> 'h \<Rightarrow> check_error option \<times> 'h" where
  "waitForPhase tr s proposalID phase verdict extra now h =
     (case wait_loop tr s proposalID phase verdict extra 0 now (now + sm_wait s) h of
        (True, h) \<Rightarrow> (None, h)
      | (False, h) \<Rightarrow> (Some (PhaseNotRecorded phase verdict proposalID (sm_wait s)), h))"

text \<open>\<^verbatim>\<open>printAudit\<close> reads the rows and only prints them.\<close>

definition printAudit :: "'h transport \<Rightarrow> sim \<Rightarrow> string \<Rightarrow> 'h \<Rightarrow> 'h" where
  "printAudit tr s proposalID h = snd (sim_do tr s ''GET'' [''v1'', ''audit'', proposalID] '''' h)"

section \<open>One scenario\<close>

definition proposal :: "scenario \<Rightarrow> int \<Rightarrow> AgentProposal" where
  "proposal sc now = \<lparr>p_ID = sc_name sc @ ''-'' @ fmt_int now, p_Type = sc_cmd sc, p_TargetID = sc_target sc, p_Payload = sc_payload sc\<rparr>"

definition sim_run :: "'h transport \<Rightarrow> sim \<Rightarrow> scenario \<Rightarrow> int \<Rightarrow> (nat \<Rightarrow> nat) \<Rightarrow> 'h \<Rightarrow> check_error option \<times> 'h" where
  "sim_run tr s sc now extra h =
     (let prop = proposal sc now in
      case sim_do tr s ''POST'' [''v1'', ''intercept''] (marshal_proposal prop) h of
        (Inl e, h) \<Rightarrow> (Some (TransportError e), h)
      | (Inr rs, h) \<Rightarrow>
        (let (verdict, decisionID) = decode_response (hr_body rs) in
         if \<not> sm_check s
         then (None, if AuditPhase_str (sc_wantPhase sc) \<noteq> '''' \<and> hr_status rs = 200
               then printAudit tr s (p_ID prop) h else h)
         else if hr_status rs \<noteq> sc_wantStatus sc \<or> verdict \<noteq> sc_wantVerd sc
         then (Some (Unexpected (hr_status rs) verdict (sc_wantStatus sc) (sc_wantVerd sc)), h)
         else if decisionID = '''' then (Some NoDecisionID, h)
         else (case checkDecision tr s (p_ID prop) decisionID (sc_wantVerd sc) h of
             (Some e, h) \<Rightarrow> (Some e, h)
           | (None, h) \<Rightarrow>
               if AuditPhase_str (sc_wantPhase sc) \<noteq> ''''
               then waitForPhase tr s (p_ID prop) (sc_wantPhase sc) (sc_wantPhaseVerdict sc) extra now h
               else (None, h))))"

section \<open>main\<close>

definition select :: "string list \<Rightarrow> scenario list" where
  "select args = (let name = (case args of [] \<Rightarrow> ''all'' | a # _ \<Rightarrow> a) in
     filter (\<lambda>sc. name = ''all'' \<or> sc_name sc = name) scenarios)"

text \<open>The selected scenarios one after the other, each with its clock, and how many failed.\<close>

fun run_all :: "'h transport \<Rightarrow> sim \<Rightarrow> (nat \<Rightarrow> int \<times> (nat \<Rightarrow> nat)) \<Rightarrow> nat \<Rightarrow> scenario list \<Rightarrow> 'h \<Rightarrow> nat \<times> 'h" where
  "run_all tr s clock n [] h = (0, h)"
| "run_all tr s clock n (sc # scs) h = (case sim_run tr s sc (fst (clock n)) (snd (clock n)) h of (e, h) \<Rightarrow>
     case run_all tr s clock (Suc n) scs h of (failures, h) \<Rightarrow> (if e = None then failures else Suc failures, h))"

definition agent_sim_main ::
  "'h transport \<Rightarrow> (string \<Rightarrow> string) \<Rightarrow> bool \<Rightarrow> int \<Rightarrow> string list \<Rightarrow> (nat \<Rightarrow> int \<times> (nat \<Rightarrow> nat)) \<Rightarrow> 'h \<Rightarrow> nat \<times> 'h" where
  "agent_sim_main tr getenv check wait args clock h =
     (if select args = [] then (2, h)
      else let s = \<lparr>sm_base = envOr getenv ''SENTRYGATE_URL'' ''http://localhost:8080'', sm_apiKey = envOr getenv ''SENTRYGATE_API_KEY'' ''dev-secret-change-me'',
            sm_check = check, sm_wait = wait\<rparr> in
        case run_all tr s clock 0 (select args) h of (failures, h) \<Rightarrow>
          (if check \<and> 0 < failures then 1 else 0, h))"

end
