(* ===== verification/Deployment.thy ===== *)
theory Deployment
  imports Agent_Sim
begin

text \<open>
  The whole program at once: the agent simulator against the gateway, with the shipped policy of
  \<^verbatim>\<open>policies/default.yaml\<close>, the shared database, and the worker running each workflow that is started. Nothing fails in
  this deployment; that every scenario then behaves as the simulator expects is the acceptance
  check of the repository (\<^verbatim>\<open>agent-sim -check\<close>), here for every clock, every identifier and every state of the stores the request
  does not collide with.
\<close>

section \<open>The shipped policy\<close>

definition default_doc :: document where
  "default_doc = \<lparr>doc_Version = ''2026-09-27.1'', doc_MaxParallelTasks = 64,
     doc_Environments = [(''staging'', ''allow''), (''production'', ''require_approval'')],
     doc_Commands = [''MODIFY_ROUTING'', ''UPDATE_CERTIFICATE'', ''DELETE_POLICY''],
     doc_Agents = [\<lparr>ad_ID = ''agent-sim'', ad_Commands = [''MODIFY_ROUTING'', ''UPDATE_CERTIFICATE'', ''DELETE_POLICY'']\<rparr>],
     doc_Targets = [
       \<lparr>td_ID = ''ROOT_CORE_EDGE'', td_Environment = ''production'', td_Protected = Some True\<rparr>,
       \<lparr>td_ID = ''prod-payments-edge'', td_Environment = ''production'', td_Protected = Some False\<rparr>,
       \<lparr>td_ID = ''edge-node-west-1'', td_Environment = ''staging'', td_Protected = Some False\<rparr>,
       \<lparr>td_ID = ''FAILING_NODE'', td_Environment = ''staging'', td_Protected = Some False\<rparr>,
       \<lparr>td_ID = ''LOST_RESPONSE_NODE'', td_Environment = ''staging'', td_Protected = Some False\<rparr>]\<rparr>"

definition default_policy :: "string \<Rightarrow> Snapshot" where
  "default_policy digest = (document_snapshot default_doc)\<lparr>s_digest := digest\<rparr>"

lemma default_valid: "valid_document default_doc"
  by (auto simp: default_doc_def valid_document_def valid_agent_def valid_target_def versionPattern_def
      environmentPattern_def commandPattern_def agentIDPattern_def targetIDPattern_def class_match_def
      head_match_def is_alnum_def is_upper_def is_lower_def is_digit_def in_range_def of_char_def)

text \<open>The verdict the policy gives each scenario is the one the scenario wants.\<close>

lemma verdict_table:
  "list_all (\<lambda>sc. d_Verdict (Evaluate (Some (default_policy digest)) ''agent-sim'' (proposal sc now)) = sc_wantVerd sc) scenarios"
  by (simp add: scenarios_def refused_case_def executed_case_def proposal_def Evaluate_def default_policy_def document_snapshot_def
      default_doc_def HasAgent_def HasCommand_def AgentMayUse_def target_of_def EnvironmentMode_of_def zero_Decision_def
      CmdModifyRouting_def CmdUpdateCert_def CmdDeletePolicy_def RootCoreEdgeID_def FailingNodeID_def LostResponseNodeID_def Let_def)

lemma scenario_verdict:
  assumes "sc \<in> set scenarios"
  shows "d_Verdict (Evaluate (Some (default_policy digest)) ''agent-sim'' (proposal sc now)) = sc_wantVerd sc"
  using verdict_table assms by (simp add: list_all_iff)

section \<open>The proposals\<close>

definition clock_ok :: "int \<Rightarrow> bool" where
  "clock_ok now \<longleftrightarrow> 0 \<le> now \<and> now < 10 ^ 19"

lemma clock_text:
  assumes "clock_ok now"
  shows "list_all isDigit (fmt_int now)" "length (fmt_int now) \<le> 19" "fmt_int now \<noteq> []"
proof -
  have f: "fmt_int now = fmt_d (nat now)" "nat now < 10 ^ 19" using assms by (auto simp: fmt_int_def clock_ok_def nat_less_iff)
  show "list_all isDigit (fmt_int now)" "length (fmt_int now) \<le> 19" "fmt_int now \<noteq> []"
    unfolding f(1) using fmt_d_isDigit [of "nat now"] f(2) fmt_d_nonempty by auto
qed

lemma digit_class: "isDigit c \<Longrightarrow> is_digit c \<and> byte c < 128 \<and> htmlSafe c"
  by (auto simp: isDigit_def is_digit_def in_range_def htmlSafe_def of_char_def)

definition ascii :: "string \<Rightarrow> bool" where
  "ascii s \<longleftrightarrow> list_all (\<lambda>c. byte c < 128) s"

lemma ascii_simps [simp]: "ascii []" "ascii (c # s) \<longleftrightarrow> byte c < 128 \<and> ascii s" "ascii (s @ t) \<longleftrightarrow> ascii s \<and> ascii t"
  by (simp_all add: ascii_def)

lemma quote_length: "ascii s \<Longrightarrow> length (quote s) \<le> 6 * length s + 2"
proof -
  have "ascii s \<Longrightarrow> length (quote_body s) \<le> 6 * length s"
  proof (induction s)
    case (Cons c s)
    then show ?case by (subst quote_body.simps) (simp add: escape_byte_def)
  qed (simp add: quote_body.simps)
  then show "ascii s \<Longrightarrow> length (quote s) \<le> 6 * length s + 2" by (simp add: quote_def)
qed

lemma member_length: "ascii k \<Longrightarrow> ascii v \<Longrightarrow> length (member_text (k, v)) \<le> 6 * (length k + length v) + 5"
  using quote_length [of k] quote_length [of v] by (simp add: member_text_def)

lemma marshal_length:
  assumes "ascii (p_ID p)" "ascii (p_Type p)" "ascii (p_TargetID p)" "ascii (p_Payload p)"
  shows "length (marshal_proposal p) \<le> 6 * (length (p_ID p) + length (p_Type p) + length (p_TargetID p) + length (p_Payload p)) + 200"
  using member_length [of "''id''" "p_ID p"] member_length [of "''type''" "p_Type p"]
    member_length [of "''target_id''" "p_TargetID p"] member_length [of "''payload''" "p_Payload p"] assms
  by (simp add: marshal_proposal_def marshal_object_def)

lemmas scenario_defs = scenarios_def refused_case_def executed_case_def CmdModifyRouting_def CmdUpdateCert_def CmdDeletePolicy_def
  RootCoreEdgeID_def FailingNodeID_def LostResponseNodeID_def

lemma scenario_table:
  "list_all (\<lambda>sc. ascii (sc_name sc) \<and> ascii (sc_cmd sc) \<and> ascii (sc_target sc) \<and> ascii (sc_payload sc)) scenarios"
  "list_all (\<lambda>sc. length (sc_name sc) \<le> 20 \<and> length (sc_cmd sc) \<le> 20 \<and> length (sc_target sc) \<le> 20 \<and> length (sc_payload sc) \<le> 30) scenarios"
  "list_all (\<lambda>sc. list_all (\<lambda>c. is_alnum c \<or> c \<in> set ''._:-'') (sc_name sc)) scenarios"
  by (simp_all add: scenario_defs is_alnum_def is_upper_def is_lower_def is_digit_def in_range_def of_char_def)

lemma scenario_texts:
  assumes "sc \<in> set scenarios"
  shows "ascii (sc_name sc)" "ascii (sc_cmd sc)" "ascii (sc_target sc)" "ascii (sc_payload sc)"
    "length (sc_name sc) \<le> 20" "length (sc_cmd sc) \<le> 20" "length (sc_target sc) \<le> 20" "length (sc_payload sc) \<le> 30"
    "list_all (\<lambda>c. is_alnum c \<or> c \<in> set ''._:-'') (sc_name sc)"
  using scenario_table assms unfolding list_all_iff by blast+

lemma proposal_ok:
  assumes "sc \<in> set scenarios" "clock_ok now"
  shows "utf8_proposal (proposal sc now)" "proposalIDPattern (p_ID (proposal sc now))"
    "length (marshal_proposal (proposal sc now)) \<le> maxBodyBytes"
proof -
  note t = scenario_texts [OF assms(1)] and c = clock_text [OF assms(2)]
  have a: "ascii (fmt_int now)" using c(1) digit_class by (auto simp: ascii_def list_all_iff)
  then show "utf8_proposal (proposal sc now)"
    using t(1-4) by (auto simp: utf8_proposal_def proposal_def ascii_def list_all_iff intro!: ascii_utf8)
  have "list_all (\<lambda>c. is_alnum c \<or> c \<in> set ''._:-'') (fmt_int now)"
    using c(1) digit_class by (auto simp: list_all_iff is_alnum_def)
  then show "proposalIDPattern (p_ID (proposal sc now))"
    using t(5,9) c(2) by (simp add: proposalIDPattern_def class_match_def proposal_def)
  show "length (marshal_proposal (proposal sc now)) \<le> maxBodyBytes"
    using marshal_length [of "proposal sc now"] t(1-8) a c(2) by (simp add: proposal_def maxBodyBytes_def)
qed

section \<open>Gateway and worker as one server\<close>

text \<open>
  The gateway's keys and identifiers for the request at hand, and the worker's for the run it may
  start: \<open>dy_lag\<close> more requests are answered before that run is over.
\<close>

record deploy =
  dy_keyring :: Keyring
  dy_queue :: string
  dy_slots :: int
  dy_status :: Status
  dy_decisionID :: string
  dy_traceID :: string
  dy_now :: time
  dy_runID :: string
  dy_token :: string
  dy_lag :: nat

definition deploy_env :: "deploy \<Rightarrow> system \<Rightarrow> sql_env request_env" where
  "deploy_env g w = \<lparr>re_proxy = NewSentryProxy (sy_policy w) (dy_slots g), re_status = dy_status g, re_ended = None,
     re_fault = ok_env, re_decisionID = dy_decisionID g, re_traceID = dy_traceID g, re_now = dy_now g\<rparr>"

definition deploy_api :: "deploy \<Rightarrow> (sql_env, database, (StartWorkflowOptions \<times> ExecutionRequest) option) apiServer" where
  "deploy_api g = gateway_api (dy_keyring g) (dy_queue g) (\<lambda>opts q _. (Started (sw_ID opts) (dy_runID g), Some (opts, q)))"

definition run_of :: "deploy \<Rightarrow> StartWorkflowOptions \<Rightarrow> ExecutionRequest \<Rightarrow> saga_info" where
  "run_of g opts q = \<lparr>si_req = q, si_WorkflowID = sw_ID opts, si_RunID = dy_runID g\<rparr>"

text \<open>
  The server: how many proposals were submitted, the system, and the run that is not over yet. The
  run is one step of the system, at some time after its submission and before the next one. Each
  submission brings its own identifiers, \<open>gs n\<close> those of the \<open>n\<close>-th.
\<close>

record server =
  sv_count :: nat
  sv_world :: system
  sv_run :: "(nat \<times> deploy \<times> saga_info) option"

definition run_world :: "deploy \<Rightarrow> saga_info \<Rightarrow> system \<Rightarrow> system" where
  "run_world g i w = sg_world (snd (SentryGateSagaWorkflow (direct_te i (dy_token g) (dy_now g)) i (start_state w (dy_now g))))"

definition finish_run :: "server \<Rightarrow> server" where
  "finish_run h = (case sv_run h of
       None \<Rightarrow> h
     | Some (_, g, i) \<Rightarrow> h\<lparr>sv_world := run_world g i (sv_world h), sv_run := None\<rparr>)"

definition worker_turn :: "server \<Rightarrow> server" where
  "worker_turn h = (case sv_run h of
       Some (Suc k, gi) \<Rightarrow> h\<lparr>sv_run := Some (k, gi)\<rparr>
     | _ \<Rightarrow> finish_run h)"

definition serve :: "(nat \<Rightarrow> deploy) \<Rightarrow> json_texts \<Rightarrow> server transport" where
  "serve gs jd base rq h0 =
     (let post = (rq_method rq = ''POST''); h = (if post then finish_run h0 else worker_turn h0); g = gs (sv_count h) in
      case newHandler (deploy_api g) jd (deploy_env g (sv_world h)) rq (sy_db (sv_world h), None) of (rs, db, started) \<Rightarrow>
        (Inr rs, h\<lparr>sv_count := (if post then Suc (sv_count h) else sv_count h), sv_world := (sv_world h)\<lparr>sy_db := db\<rparr>,
           sv_run := (case started of None \<Rightarrow> sv_run h | Some (opts, q) \<Rightarrow> Some (dy_lag g, g, run_of g opts q))\<rparr>))"

lemma worker_turn_count [simp]: "sv_count (worker_turn h) = sv_count h"
  by (simp add: worker_turn_def finish_run_def split: option.splits prod.splits nat.splits)

lemma worker_turn_simps [simp]:
  "worker_turn \<lparr>sv_count = n, sv_world = w, sv_run = None\<rparr> = \<lparr>sv_count = n, sv_world = w, sv_run = None\<rparr>"
  "worker_turn \<lparr>sv_count = n, sv_world = w, sv_run = Some (Suc k, gi)\<rparr> = \<lparr>sv_count = n, sv_world = w, sv_run = Some (k, gi)\<rparr>"
  "worker_turn \<lparr>sv_count = n, sv_world = w, sv_run = Some (0, g, i)\<rparr> = \<lparr>sv_count = n, sv_world = run_world g i w, sv_run = None\<rparr>"
  by (simp_all add: worker_turn_def finish_run_def)

lemma deploy_api_simps [simp]:
  "ap_keyring (deploy_api g) = dy_keyring g" "ap_taskQueue (deploy_api g) = dy_queue g" "ap_AppendDecision (deploy_api g) = Sql_AppendDecision"
  "ap_ListDecisionsByProposal (deploy_api g) = Sql_ListDecisionsByProposal" "ap_ListByProposal (deploy_api g) = Sql_ListByProposal"
  "ap_ExecuteWorkflow (deploy_api g) opts q x = (Started (sw_ID opts) (dy_runID g), Some (opts, q))"
  by (simp_all add: deploy_api_def gateway_api_def)

lemma deploy_env_simps [simp]:
  "re_fault (deploy_env g w) = ok_env" "re_decisionID (deploy_env g w) = dy_decisionID g" "re_ended (deploy_env g w) = None"
  "sp_policy (re_proxy (deploy_env g w)) = sy_policy w" "se_read ok_env = None"
  by (simp_all add: deploy_env_def NewSentryProxy_def ok_env_def Let_def)

lemma newHandler_v1:
  assumes "Resolve (dy_keyring g) key = Some a"
  shows "newHandler (deploy_api g) jd env \<lparr>rq_method = m, rq_path = ''v1'' # x # xs, rq_apiKey = key, rq_body = b\<rparr> sw =
    protected_mux (deploy_api g) jd env \<lparr>rq_method = m, rq_path = ''v1'' # x # xs, rq_apiKey = key, rq_body = b\<rparr> (Some a) sw"
  using assms by (simp add: newHandler_def Middleware_def WithAgentID_def)

lemma serve_get:
  assumes "newHandler (deploy_api (gs (sv_count h))) jd (deploy_env (gs (sv_count h)) (sv_world (worker_turn h)))
      \<lparr>rq_method = ''GET'', rq_path = path, rq_apiKey = key, rq_body = ''''\<rparr> (sy_db (sv_world (worker_turn h)), None) =
    (rs, sy_db (sv_world (worker_turn h)), None)"
  shows "serve gs jd base \<lparr>rq_method = ''GET'', rq_path = path, rq_apiKey = key, rq_body = ''''\<rparr> h = (Inr rs, worker_turn h)"
  using assms by (simp add: serve_def Let_def)

lemma serve_decisions:
  assumes "\<And>n. Resolve (dy_keyring (gs n)) key = Some a" "proposalIDPattern pid"
  shows "serve gs jd base \<lparr>rq_method = ''GET'', rq_path = [''v1'', ''decisions'', pid], rq_apiKey = key, rq_body = ''''\<rparr> h =
    (Inr (writeJSON 200 (BodyDecisions (filter (\<lambda>r. dr_ProposalID r = pid) (db_decisions (sy_db (sv_world (worker_turn h))))))), worker_turn h)"
proof -
  have "pid \<noteq> ''''" using assms(2) by (auto simp: proposalIDPattern_def class_match_def)
  then show ?thesis
    using assms by (intro serve_get) (simp add: newHandler_v1 protected_mux_def route_of_def is_get_def decisionsByProposal_def
        Sql_ListDecisionsByProposal_def)
qed

lemma serve_audit:
  assumes "\<And>n. Resolve (dy_keyring (gs n)) key = Some a" "proposalIDPattern pid"
  obtains rows where "set rows = {r \<in> set (db_audit (sy_db (sv_world (worker_turn h)))). ar_ProposalID r = pid}"
    "serve gs jd base \<lparr>rq_method = ''GET'', rq_path = [''v1'', ''audit'', pid], rq_apiKey = key, rq_body = ''''\<rparr> h =
      (Inr (writeJSON 200 (BodyAudit rows)), worker_turn h)"
proof -
  have "pid \<noteq> ''''" using assms(2) by (auto simp: proposalIDPattern_def class_match_def)
  then show thesis
    using assms by (intro that [of "sort_key audit_sort_key (filter (\<lambda>r. ar_ProposalID r = pid) (db_audit (sy_db (sv_world (worker_turn h)))))"]
        serve_get) (simp_all add: newHandler_v1 protected_mux_def route_of_def is_get_def auditByProposal_def
        Sql_ListByProposal_def writeJSON_def)
qed

section \<open>Submitting a proposal\<close>

definition ingress_of :: "deploy \<Rightarrow> system \<Rightarrow> string \<Rightarrow> AgentProposal \<Rightarrow> DecisionRecord" where
  "ingress_of g w a p = ingress_record (deploy_env g w) a p (Evaluate (sy_policy w) a p)"

lemma serve_submit:
  assumes "Resolve (dy_keyring g) key = Some a" "a \<noteq> ''''"
    and "utf8_proposal p" "proposalIDPattern (p_ID p)" "length (marshal_proposal p) \<le> maxBodyBytes"
    and "Sql_AppendDecision ok_env (ingress_of g w a p) (sy_db w) = (None, db)"
  defines "v \<equiv> d_Verdict (Evaluate (sy_policy w) a p)"
    and "opts \<equiv> start_options (deploy_api g) p" and "q \<equiv> execution_request a p (ingress_of g w a p)"
  shows "\<exists>rs. newHandler (deploy_api g) jd (deploy_env g w)
        \<lparr>rq_method = ''POST'', rq_path = [''v1'', ''intercept''], rq_apiKey = key, rq_body = marshal_proposal p\<rparr> (sy_db w, None) =
      (rs, db, if v = VerdictAllow then Some (opts, q) else None) \<and>
    hr_status rs = (if v = VerdictAllow then 200 else 403) \<and> decode_response (hr_body rs) = (v, dy_decisionID g)"
proof -
  have dec: "decodeProposal jd (marshal_proposal p) zero_AgentProposal = Inr p"
    using decode_marshal [OF assms(3,4), of "[]"] assms(5) by simp
  have ev: "EvaluateThrottled (re_proxy (deploy_env g w)) (re_ended (deploy_env g w)) a p = Inr (Evaluate (sy_policy w) a p)"
    by (simp add: EvaluateThrottled_Inr)
  have ap: "ap_AppendDecision (deploy_api g) (re_fault (deploy_env g w)) (ingress_record (deploy_env g w) a p (Evaluate (sy_policy w) a p)) (sy_db w) = (None, db)"
    using assms(6) by (simp add: ingress_of_def)
  have id: "dr_DecisionID (ingress_record (deploy_env g w) a p (Evaluate (sy_policy w) a p)) = dy_decisionID g"
    by (simp add: ingress_record_def)
  have v: "v \<in> {VerdictAllow, VerdictDeny, VerdictRequireApproval}" using Evaluate_verdicts by (simp add: v_def)
  have ctx: "AgentIDFromContext (Some a) = Some a" using assms(2) by (simp add: AgentIDFromContext_def)
  have n: "newHandler (deploy_api g) jd (deploy_env g w) \<lparr>rq_method = ''POST'', rq_path = [''v1'', ''intercept''], rq_apiKey = key, rq_body = marshal_proposal p\<rparr> (sy_db w, None) =
      intercept (deploy_api g) jd (deploy_env g w) (marshal_proposal p) (Some a) (sy_db w, None)"
    using assms(1) by (simp add: newHandler_v1 protected_mux_def route_of_def)
  from v show ?thesis
    unfolding n intercept_def prod.case ctx option.case dec sum.case ev Let_def ap v_def [symmetric] id
    by (elim insertE emptyE) (simp_all add: start_workflow_def opts_def start_options_def Let_def writeJSON_def decode_response_def q_def ingress_of_def)
qed

section \<open>A deployment that is ready for a scenario\<close>

text \<open>
  The stores are sound, the shipped policy is in force, and the identifiers this request brings with
  it are new; nothing is audited for its proposal yet.
\<close>

definition started_run :: "deploy \<Rightarrow> AgentProposal \<Rightarrow> system \<Rightarrow> saga_info" where
  "started_run g p w = run_of g (start_options (deploy_api g) p) (execution_request ''agent-sim'' p (ingress_of g w ''agent-sim'' p))"

definition ready_for :: "deploy \<Rightarrow> AgentProposal \<Rightarrow> system \<Rightarrow> bool" where
  "ready_for g p w \<longleftrightarrow> sys_ok w \<and> (\<exists>digest. sy_policy w = Some (default_policy digest)) \<and>
     dy_decisionID g \<noteq> '''' \<and> dy_runID g \<noteq> '''' \<and> dy_token g \<noteq> '''' \<and>
     \<not> IsZero (dy_now g) \<and> fresh_id (db_decisions (sy_db w)) (dy_decisionID g) \<and>
     fresh_id (db_decisions (sy_db w)) (''wf_saga-'' @ p_ID p @ ''_'' @ dy_runID g) \<and>
     ''wf_saga-'' @ p_ID p @ ''_'' @ dy_runID g \<noteq> dy_decisionID g \<and>
     sa_effects (sy_adapter w) (ExecutionKey (dy_decisionID g)) = None \<and> rows_free (started_run g p w) 0 (sy_db w) \<and>
     (\<forall>x \<in> set (db_audit (sy_db w)). ar_ProposalID x \<noteq> p_ID p)"

lemma started_run_simps [simp]:
  "si_req (started_run g p w) = \<lparr>er_AgentID = ''agent-sim'', er_Proposal = p, er_IngressDecisionID = dy_decisionID g, er_RequestHash = RequestHash p\<rparr>"
  "si_WorkflowID (started_run g p w) = ''saga-'' @ p_ID p" "si_RunID (started_run g p w) = dy_runID g"
  by (simp_all add: started_run_def run_of_def execution_request_def ingress_of_def ingress_record_def)

lemma ingress_appended:
  assumes "ready_for g p w" "p_ID p \<noteq> ''''"
  obtains db where "Sql_AppendDecision ok_env (ingress_of g w ''agent-sim'' p) (sy_db w) = (None, db)" "sql_inv db"
    "db_decisions db = db_decisions (sy_db w) @ [ingress_of g w ''agent-sim'' p]" "sql_claims db = sql_claims (sy_db w)"
    "db_audit db = db_audit (sy_db w)"
proof -
  let ?r = "ingress_of g w ''agent-sim'' p"
  obtain e db where a: "Sql_AppendDecision ok_env ?r (sy_db w) = (e, db)" by fastforce
  have inv: "sql_inv (sy_db w)" using assms(1) by (simp add: ready_for_def sys_ok_def)
  have "Validate ?r = None"
    using assms Evaluate_verdicts [of "sy_policy w" "''agent-sim''" p] RequestHash_nonempty
    by (auto simp: Validate_None_iff ingress_of_def ingress_record_def deploy_env_def ready_for_def)
  moreover have "lookup_decision (db_decisions (sy_db w)) (dr_DecisionID ?r) = None"
    using assms(1) by (simp add: lookup_None_iff ready_for_def ingress_of_def ingress_record_def)
  ultimately have "e = None" "db_decisions db = db_decisions (sy_db w) @ [?r]"
    using sqlr.append_quiet [OF inv ok_env_quiet a] by (simp_all add: spec_append_def)
  with a Sql_AppendDecision_cases [OF inv a] append_audit [of ok_env ?r "sy_db w"] show thesis by (intro that [of db]) simp_all
qed

lemma ready_startable_run:
  assumes r: "ready_for g p w" "p_ID p \<noteq> ''''" and v: "d_Verdict (Evaluate (sy_policy w) ''agent-sim'' p) = VerdictAllow"
    and db: "sql_inv db" "db_decisions db = db_decisions (sy_db w) @ [ingress_of g w ''agent-sim'' p]"
      "sql_claims db = sql_claims (sy_db w)" "db_audit db = db_audit (sy_db w)"
  shows "startable (started_run g p w) (dy_token g) (dy_now g) (w\<lparr>sy_db := db\<rparr>)"
proof -
  let ?r = "ingress_of g w ''agent-sim'' p" and ?d = "dy_decisionID g"
  have f: "fresh_id (db_decisions (sy_db w)) ?d" "sql_inv (sy_db w)" using r(1) by (simp_all add: ready_for_def sys_ok_def)
  have rid: "dr_DecisionID ?r = ?d" by (simp add: ingress_of_def ingress_record_def)
  have "lookup_decision (db_decisions db) ?d = Some ?r"
    using f(1) rid unfolding db(2) by (simp add: lookup_append flip: lookup_None_iff)
  moreover have "VerifyIngress ?r (si_req (started_run g p w)) (''saga-'' @ p_ID p) = None"
    using r v by (simp add: VerifyIngress_None_iff ready_for_def ingress_of_def ingress_record_def)
  moreover have "?d \<notin> ec_DecisionID ` set (db_claims (sy_db w))"
    using f by (auto simp: sql_inv_def sql_known_def fresh_id_def)
  then have "sql_claims (sy_db w) ?d = None" by (simp add: sql_claims_eq find_None_key)
  moreover have "d_Verdict (Revalidate (sy_policy w) (si_req (started_run g p w))) = VerdictAllow"
    using v by (simp add: Revalidate_def Let_def)
  ultimately show ?thesis
    using r db rid unfolding startable_def
    by (simp add: ready_for_def sys_ok_def claimable_def rows_free_def fresh_id_def)
qed

text \<open>What makes a check succeed, against any server.\<close>

lemma sim_run_passes:
  assumes "sm_check s" and p: "p = proposal sc now"
    and post: "tr (sm_base s) \<lparr>rq_method = ''POST'', rq_path = [''v1'', ''intercept''], rq_apiKey = sm_apiKey s, rq_body = marshal_proposal p\<rparr> h = (Inr rs, h1)"
    and rs: "hr_status rs = sc_wantStatus sc" "decode_response (hr_body rs) = (sc_wantVerd sc, d)" "d \<noteq> ''''"
    and dec: "tr (sm_base s) \<lparr>rq_method = ''GET'', rq_path = [''v1'', ''decisions'', p_ID p], rq_apiKey = sm_apiKey s, rq_body = ''''\<rparr> h1 =
        (Inr (writeJSON 200 (BodyDecisions recs)), h2)"
      "\<exists>r \<in> set recs. dr_DecisionID r = d \<and> dr_Stage r = StageIngress \<and> dr_Verdict r = sc_wantVerd sc"
    and aud: "if AuditPhase_str (sc_wantPhase sc) \<noteq> ''''
      then wait_loop tr s (p_ID p) (sc_wantPhase sc) (sc_wantPhaseVerdict sc) extra 0 now (now + sm_wait s) h2 = (True, h') else h' = h2"
  shows "sim_run tr s sc now extra h = (None, h')"
proof -
  have c: "checkDecision tr s (p_ID p) d (sc_wantVerd sc) h1 = (None, h2)"
    using dec by (auto simp: checkDecision_def sim_do_def writeJSON_def decode_decisions_def list_ex_iff)
  show ?thesis
    using post rs c aud assms(1) unfolding p by (simp add: sim_run_def sim_do_def waitForPhase_def Let_def split: if_splits)
qed

section \<open>Waiting for the run\<close>

text \<open>How long the simulator has waited before its \<open>k\<close>-th poll after the \<open>n\<close>-th.\<close>

primrec waited :: "(nat \<Rightarrow> nat) \<Rightarrow> nat \<Rightarrow> nat \<Rightarrow> int" where
  "waited extra n 0 = 0"
| "waited extra n (Suc k) = 500000000 + int (extra n) + waited extra (Suc n) k"

definition audited :: "string \<Rightarrow> AuditPhase \<Rightarrow> AuditVerdict \<Rightarrow> system \<Rightarrow> bool" where
  "audited pid ph v w \<longleftrightarrow> (\<exists>x \<in> set (db_audit (sy_db w)). ar_ProposalID x = pid \<and> ar_Phase x = ph \<and> ar_Verdict x = v)"

lemma poll:
  assumes "\<And>n. Resolve (dy_keyring (gs n)) (sm_apiKey s) = Some a" "proposalIDPattern pid" "now < deadline"
  shows "wait_loop (serve gs jd) s pid ph v extra n now deadline h =
    (if audited pid ph v (sv_world (worker_turn h)) then (True, worker_turn h)
     else wait_loop (serve gs jd) s pid ph v extra (Suc n) (now + 500000000 + int (extra n)) deadline (worker_turn h))"
proof -
  obtain rows where rows: "set rows = {r \<in> set (db_audit (sy_db (sv_world (worker_turn h)))). ar_ProposalID r = pid}"
    "serve gs jd (sm_base s) \<lparr>rq_method = ''GET'', rq_path = [''v1'', ''audit'', pid], rq_apiKey = sm_apiKey s, rq_body = ''''\<rparr> h =
      (Inr (writeJSON 200 (BodyAudit rows)), worker_turn h)"
    using serve_audit [where gs = gs, OF assms(1,2)] by blast
  have "phase_seen (Inr (writeJSON 200 (BodyAudit rows))) ph v \<longleftrightarrow> audited pid ph v (sv_world (worker_turn h))"
    using rows(1) by (auto simp: phase_seen_def writeJSON_def decode_audit_def list_ex_iff audited_def)
  with assms(3) rows(2) show ?thesis by (subst wait_loop.simps) (simp add: sim_do_def)
qed

lemma poll_done:
  assumes "\<And>n. Resolve (dy_keyring (gs n)) (sm_apiKey s) = Some a" "proposalIDPattern pid" "now < deadline" "audited pid ph v w"
  shows "wait_loop (serve gs jd) s pid ph v extra n now deadline \<lparr>sv_count = c, sv_world = w, sv_run = None\<rparr> =
    (True, \<lparr>sv_count = c, sv_world = w, sv_run = None\<rparr>)"
  using assms by (subst poll [where gs = gs, OF assms(1-3)]) simp

lemma poll_pending:
  assumes "\<And>n. Resolve (dy_keyring (gs n)) (sm_apiKey s) = Some a" "proposalIDPattern pid"
    and "\<not> audited pid ph v w" "audited pid ph v (run_world g i w)"
  shows "now + waited extra n k < deadline \<Longrightarrow>
    wait_loop (serve gs jd) s pid ph v extra n now deadline \<lparr>sv_count = c, sv_world = w, sv_run = Some (k, g, i)\<rparr> =
      (True, \<lparr>sv_count = c, sv_world = run_world g i w, sv_run = None\<rparr>)"
proof (induction k arbitrary: n now)
  case 0
  then show ?case using assms(4) by (subst poll [where gs = gs, OF assms(1,2)]) simp_all
next
  case (Suc k)
  have "0 \<le> waited extra (Suc n) k" by (induction k arbitrary: n) simp_all
  then have "now < deadline" using Suc.prems by simp
  with Suc.IH [of "now + 500000000 + int (extra n)" "Suc n"] Suc.prems assms(3) show ?case
    by (subst poll [where gs = gs, OF assms(1,2)]) (simp_all add: algebra_simps)
qed

lemma wanted_table:
  "list_all (\<lambda>sc. (if sc_wantVerd sc = VerdictAllow
       then sc_wantStatus sc = 200 \<and> sc_wantPhaseVerdict sc = AuditVerdictPass \<and>
         (sc_target sc = ''edge-node-west-1'' \<and> sc_wantPhase sc = AuditPhaseWorkflowComplete \<or>
          sc_target sc = FailingNodeID \<and> sc_wantPhase sc = AuditPhaseCompensation \<or>
          sc_target sc = LostResponseNodeID \<and> sc_wantPhase sc = AuditPhaseReconciliation)
       else sc_wantStatus sc = 403 \<and> sc_wantPhase sc = AuditPhase_other '''')) scenarios"
  by (simp add: scenarios_def refused_case_def executed_case_def)

lemma wanted:
  assumes "sc \<in> set scenarios"
  shows "if sc_wantVerd sc = VerdictAllow
       then sc_wantStatus sc = 200 \<and> sc_wantPhaseVerdict sc = AuditVerdictPass \<and>
         (sc_target sc = ''edge-node-west-1'' \<and> sc_wantPhase sc = AuditPhaseWorkflowComplete \<or>
          sc_target sc = FailingNodeID \<and> sc_wantPhase sc = AuditPhaseCompensation \<or>
          sc_target sc = LostResponseNodeID \<and> sc_wantPhase sc = AuditPhaseReconciliation)
       else sc_wantStatus sc = 403 \<and> sc_wantPhase sc = AuditPhase_other ''''"
  using wanted_table assms unfolding list_all_iff by blast

text \<open>The first poll comes after one other request.\<close>

lemma found_after_lag:
  assumes key: "\<And>n. Resolve (dy_keyring (gs n)) (sm_apiKey s) = Some a" and pk: "proposalIDPattern pid"
    and "\<not> audited pid ph v w" "audited pid ph v (run_world g i w)" "waited extra 0 (k - 1) < sm_wait s"
  shows "wait_loop (serve gs jd) s pid ph v extra 0 now (now + sm_wait s) (worker_turn \<lparr>sv_count = c, sv_world = w, sv_run = Some (k, g, i)\<rparr>) =
    (True, \<lparr>sv_count = c, sv_world = run_world g i w, sv_run = None\<rparr>)"
proof (cases k)
  case 0
  then show ?thesis using poll_done [where gs = gs, OF key pk _ assms(4)] assms(5) by simp
next
  case (Suc m)
  then show ?thesis using poll_pending [where gs = gs, OF key pk assms(3,4)] assms(5) by simp
qed

section \<open>One scenario\<close>

text \<open>What a submission leaves alone: the policy, and everything under identifiers that are not its own.\<close>

definition framed :: "deploy \<Rightarrow> AgentProposal \<Rightarrow> system \<Rightarrow> system \<Rightarrow> bool" where
  "framed g p w w' \<longleftrightarrow> sy_policy w' = sy_policy w \<and>
     dr_DecisionID ` set (db_decisions (sy_db w')) \<subseteq>
       dr_DecisionID ` set (db_decisions (sy_db w)) \<union> {dy_decisionID g, ''wf_saga-'' @ p_ID p @ ''_'' @ dy_runID g} \<and>
     (\<forall>k. k \<noteq> ExecutionKey (dy_decisionID g) \<longrightarrow> sa_effects (sy_adapter w') k = sa_effects (sy_adapter w) k) \<and>
     (\<forall>x \<in> set (db_audit (sy_db w')). x \<in> set (db_audit (sy_db w)) \<or> ar_ProposalID x = p_ID p \<and> (\<exists>y. ar_RecordID x = p_ID p @ ''-'' @ y))"

lemma sim_call_other:
  assumes "k \<noteq> dq_IdempotencyKey q"
  shows "sa_effects (snd (Sim_Dispatch None q a)) k = sa_effects a k" "sa_effects (snd (Sim_Reconcile None q a)) k = sa_effects a k"
  using assms by (simp_all add: Sim_Dispatch_def Sim_Reconcile_def sim_apply_def sim_fence_def Let_def split: option.split)

lemma sim_answer_other: "k \<noteq> dq_IdempotencyKey q \<Longrightarrow> sa_effects (snd (sim_answer q a)) k = sa_effects a k"
  using sim_call_other [of k q] by (simp add: sim_answer_def split_beta)

lemma compensate_effects: "sa_effects (snd (Sim_Compensate None q a)) = sa_effects a"
  by (simp add: Sim_Compensate_def)

text \<open>The run of an allowed scenario ends with the audit row the scenario waits for.\<close>

lemma wanted_row:
  assumes sc: "sc \<in> set scenarios" "sc_wantVerd sc = VerdictAllow"
    and st: "startable i token now w" and tgt: "p_TargetID (er_Proposal (si_req i)) = sc_target sc"
  obtains r s' rows recs where "SentryGateSagaWorkflow (direct_te i token t) i (start_state w now) = (r, s')" "meanwhile w (sg_world s')"
    "db_audit (sy_db (sg_world s')) = db_audit (sy_db w) @ rows" "list_all (own_row i) rows"
    "(sc_wantPhase sc, sc_wantPhaseVerdict sc) \<in> set (map (\<lambda>x. (ar_Phase x, ar_Verdict x)) rows)"
    "db_decisions (sy_db (sg_world s')) = db_decisions (sy_db w) @ recs"
    "list_all (\<lambda>r. dr_DecisionID r = ''wf_'' @ si_WorkflowID i @ ''_'' @ si_RunID i) recs"
    "sy_policy (sg_world s') = sy_policy w"
    "\<forall>k. k \<noteq> ExecutionKey (er_IngressDecisionID (si_req i)) \<longrightarrow> sa_effects (sy_adapter (sg_world s')) k = sa_effects (sy_adapter w) k"
proof -
  let ?q = "dispatch_request i" and ?a = "sy_adapter w"
  define o1 o2 where o: "o1 = fst (Sim_Dispatch None ?q ?a)" "o2 = fst (sim_answer ?q ?a)"
  have k: "p_TargetID (dq_Proposal ?q) = sc_target sc" "dq_IdempotencyKey ?q = ExecutionKey (er_IngressDecisionID (si_req i))"
    by (simp_all add: dispatch_request_def tgt)
  have "sim_inv ?a" "sa_effects ?a (dq_IdempotencyKey ?q) = None" using st by (simp_all add: startable_def dispatch_request_def)
  note out = sim_answer_outcome [OF this k(1), folded o]
  obtain r s' where run: "SentryGateSagaWorkflow (direct_te i token t) i (start_state w now) = (r, s')"
    "ends i token (dispatch_log (trail_start w) o1 o2) (Checked o2) (snd (sim_answer ?q ?a)) r s'"
    using direct_run_answer [OF st, of t] unfolding o by blast
  have m: "meanwhile w (sg_world s')"
    using workflow_chain [OF _ run(1)] direct_worker chain_meanwhile unfolding worker_temporal_def by blast
  have base: "fst (dispatch_log (trail_start w) o1 o2) = w" by (simp add: dispatch_log_def log_row_def trail_start_def Let_def)
  note facts = ends_facts [OF run(2), unfolded base]
  obtain rows where rows: "db_audit (sy_db (sg_world s')) = db_audit (sy_db w) @ rows" "list_all (own_row i) rows"
    "map (\<lambda>x. (ar_Phase x, ar_Verdict x)) rows = snd (dispatch_log (trail_start w) o1 o2) @ (case oc_Status (Checked o2) of
          OutcomeSuccess \<Rightarrow> [(AuditPhaseWorkflowComplete, AuditVerdictPass)]
        | OutcomeFailure \<Rightarrow> (if oc_PartiallyApplied (Checked o2) then [(AuditPhaseCompensation, AuditVerdictPass)] else []) @
            [(AuditPhaseWorkflowFailed, AuditVerdictFail)]
        | _ \<Rightarrow> [])"
    using facts(1) by blast
  have ids: "FailingNodeID \<noteq> UnreachableNodeID" "FailingNodeID \<noteq> PartitionedNodeID" "LostResponseNodeID \<noteq> FailingNodeID"
    "LostResponseNodeID \<noteq> UnreachableNodeID" "LostResponseNodeID \<noteq> PartitionedNodeID"
    "''edge-node-west-1'' \<notin> {FailingNodeID, UnreachableNodeID, PartitionedNodeID, LostResponseNodeID}"
    by (simp_all add: FailingNodeID_def UnreachableNodeID_def PartitionedNodeID_def LostResponseNodeID_def)
  have w: "(sc_wantPhase sc, sc_wantPhaseVerdict sc) \<in> set (map (\<lambda>x. (ar_Phase x, ar_Verdict x)) rows)"
    unfolding rows(3) using wanted [OF sc(1)] sc(2) out ids
    by (auto simp: dispatch_log_def log_row_def auditVerdict_def Let_def)
  have e: "\<forall>x. x \<noteq> ExecutionKey (er_IngressDecisionID (si_req i)) \<longrightarrow> sa_effects (sy_adapter (sg_world s')) x = sa_effects ?a x"
    using facts(2) sim_answer_other [of _ ?q ?a] by (simp add: compensate_effects k(2))
  from facts(6) obtain recs where "db_decisions (sy_db (sg_world s')) = db_decisions (sy_db w) @ recs"
    "list_all (\<lambda>r. dr_DecisionID r = ''wf_'' @ si_WorkflowID i @ ''_'' @ si_RunID i) recs" by blast
  from that [OF run(1) m rows(1,2) w this facts(5) e] show thesis .
qed

text \<open>The request and, if it is allowed, the run it starts.\<close>

lemma scenario_served:
  assumes sc: "sc \<in> set scenarios" "clock_ok now" and key: "Resolve (dy_keyring g) key = Some ''agent-sim''"
    and p: "p = proposal sc now" and ready: "ready_for g p w"
  obtains rs db where "newHandler (deploy_api g) jd (deploy_env g w)
      \<lparr>rq_method = ''POST'', rq_path = [''v1'', ''intercept''], rq_apiKey = key, rq_body = marshal_proposal p\<rparr> (sy_db w, None) =
      (rs, db, if sc_wantVerd sc = VerdictAllow
         then Some (start_options (deploy_api g) p, execution_request ''agent-sim'' p (ingress_of g w ''agent-sim'' p)) else None)"
    "hr_status rs = sc_wantStatus sc" "decode_response (hr_body rs) = (sc_wantVerd sc, dy_decisionID g)"
    "ingress_of g w ''agent-sim'' p \<in> set (db_decisions db)" "dr_Verdict (ingress_of g w ''agent-sim'' p) = sc_wantVerd sc"
    "db_audit db = db_audit (sy_db w)" "sys_ok (w\<lparr>sy_db := db\<rparr>)" "framed g p w (w\<lparr>sy_db := db\<rparr>)"
    "sc_wantVerd sc = VerdictAllow \<Longrightarrow> startable (started_run g p w) (dy_token g) (dy_now g) (w\<lparr>sy_db := db\<rparr>)"
proof -
  note pk = proposal_ok [OF sc, folded p]
  have pid: "p_ID p \<noteq> ''''" using pk(2) by (auto simp: proposalIDPattern_def class_match_def)
  obtain digest where pol: "sy_policy w = Some (default_policy digest)" and ok: "sys_ok w"
    using ready by (auto simp: ready_for_def)
  have v: "d_Verdict (Evaluate (sy_policy w) ''agent-sim'' p) = sc_wantVerd sc" using scenario_verdict [OF sc(1)] by (simp add: pol p)
  let ?r = "ingress_of g w ''agent-sim'' p" and ?i = "started_run g p w"
  obtain db where db: "Sql_AppendDecision ok_env ?r (sy_db w) = (None, db)" "sql_inv db"
      "db_decisions db = db_decisions (sy_db w) @ [?r]" "sql_claims db = sql_claims (sy_db w)" "db_audit db = db_audit (sy_db w)"
    using ingress_appended [OF ready pid] .
  have rf: "dr_DecisionID ?r = dy_decisionID g" "dr_Verdict ?r = sc_wantVerd sc"
    using v by (simp_all add: ingress_of_def ingress_record_def)
  obtain rs where post: "newHandler (deploy_api g) jd (deploy_env g w)
      \<lparr>rq_method = ''POST'', rq_path = [''v1'', ''intercept''], rq_apiKey = key, rq_body = marshal_proposal p\<rparr> (sy_db w, None) =
      (rs, db, if sc_wantVerd sc = VerdictAllow then Some (start_options (deploy_api g) p, execution_request ''agent-sim'' p ?r) else None)"
    "hr_status rs = (if sc_wantVerd sc = VerdictAllow then 200 else 403)" "decode_response (hr_body rs) = (sc_wantVerd sc, dy_decisionID g)"
    using serve_submit [OF key _ pk db(1), of jd] unfolding v by auto
  show thesis
  proof (rule that [OF post(1) _ post(3) _ rf(2) db(5)])
    show "hr_status rs = sc_wantStatus sc" using post(2) wanted [OF sc(1)] by (simp split: if_splits)
    show "?r \<in> set (db_decisions db)" by (simp add: db(3))
    show "sys_ok (w\<lparr>sy_db := db\<rparr>)" using ok db(2) by (simp add: sys_ok_def)
    show "framed g p w (w\<lparr>sy_db := db\<rparr>)" using db(3,5) rf(1) by (auto simp: framed_def)
    show "startable ?i (dy_token g) (dy_now g) (w\<lparr>sy_db := db\<rparr>)" if "sc_wantVerd sc = VerdictAllow"
      by (rule ready_startable_run [OF ready pid _ db(2-5)]) (use v that in simp)
  qed
qed

lemma framed_trans:
  assumes "framed g p u v" "framed g p v w"
  shows "framed g p u w"
proof -
  let ?I = "\<lambda>w. dr_DecisionID ` set (db_decisions (sy_db w))"
  have "?I w \<subseteq> ?I u \<union> {dy_decisionID g, ''wf_saga-'' @ p_ID p @ ''_'' @ dy_runID g}" using assms unfolding framed_def by blast
  moreover have "\<forall>x \<in> set (db_audit (sy_db w)). x \<in> set (db_audit (sy_db u)) \<or>
      ar_ProposalID x = p_ID p \<and> (\<exists>y. ar_RecordID x = p_ID p @ ''-'' @ y)" using assms unfolding framed_def by blast
  ultimately show ?thesis using assms unfolding framed_def by simp
qed

text \<open>What the run of an allowed scenario leaves.\<close>

lemma scenario_run:
  assumes sc: "sc \<in> set scenarios" "sc_wantVerd sc = VerdictAllow" and p: "p = proposal sc now"
    and st: "startable (started_run g p v) (dy_token g) (dy_now g) w" and ok: "sys_ok w"
  shows "audited (p_ID p) (sc_wantPhase sc) (sc_wantPhaseVerdict sc) (run_world g (started_run g p v) w)"
    "sys_ok (run_world g (started_run g p v) w)" "framed g p w (run_world g (started_run g p v) w)"
    "set (db_decisions (sy_db w)) \<subseteq> set (db_decisions (sy_db (run_world g (started_run g p v) w)))"
proof -
  let ?i = "started_run g p v"
  have tgt: "p_TargetID (er_Proposal (si_req ?i)) = sc_target sc" by (simp add: p proposal_def)
  obtain r s' rows recs where run: "SentryGateSagaWorkflow (direct_te ?i (dy_token g) (dy_now g)) ?i (start_state w (dy_now g)) = (r, s')"
    "meanwhile w (sg_world s')" "db_audit (sy_db (sg_world s')) = db_audit (sy_db w) @ rows" "list_all (own_row ?i) rows"
    "(sc_wantPhase sc, sc_wantPhaseVerdict sc) \<in> set (map (\<lambda>x. (ar_Phase x, ar_Verdict x)) rows)"
    "db_decisions (sy_db (sg_world s')) = db_decisions (sy_db w) @ recs"
    "list_all (\<lambda>r. dr_DecisionID r = ''wf_'' @ si_WorkflowID ?i @ ''_'' @ si_RunID ?i) recs"
    "sy_policy (sg_world s') = sy_policy w"
    "\<forall>k. k \<noteq> ExecutionKey (er_IngressDecisionID (si_req ?i)) \<longrightarrow> sa_effects (sy_adapter (sg_world s')) k = sa_effects (sy_adapter w) k"
    by (rule wanted_row [OF sc st tgt])
  have w: "run_world g ?i w = sg_world s'" by (simp add: run_world_def run(1))
  show "audited (p_ID p) (sc_wantPhase sc) (sc_wantPhaseVerdict sc) (run_world g ?i w)"
    unfolding w using run(3-5) by (auto simp: audited_def list_all_iff own_row_def)
  show "sys_ok (run_world g ?i w)" unfolding w by (rule sys_ok_meanwhile [OF run(2) ok])
  show "framed g p w (run_world g ?i w)" unfolding w using run(3,4,6-9) by (auto simp: framed_def list_all_iff own_row_def)
  show "set (db_decisions (sy_db w)) \<subseteq> set (db_decisions (sy_db (run_world g ?i w)))" unfolding w run(6) by auto
qed

lemma scenario_passes:
  assumes sc: "sc \<in> set scenarios" "clock_ok now" and s: "sm_check s" "waited extra 0 (dy_lag (gs n) - 1) < sm_wait s"
    and key: "\<And>n. Resolve (dy_keyring (gs n)) (sm_apiKey s) = Some ''agent-sim''"
    and ready: "ready_for (gs n) (proposal sc now) w"
  obtains w' where "sim_run (serve gs jd) s sc now extra \<lparr>sv_count = n, sv_world = w, sv_run = None\<rparr> =
      (None, \<lparr>sv_count = Suc n, sv_world = w', sv_run = None\<rparr>)" "sys_ok w'" "framed (gs n) (proposal sc now) w w'"
proof -
  define p g where p: "p = proposal sc now" and g: "g = gs n"
  have ready': "ready_for g p w" using ready by (simp add: p g)
  have d: "dy_decisionID g \<noteq> ''''" using ready' by (simp add: ready_for_def)
  note pk = proposal_ok(2) [OF sc, folded p]
  let ?r = "ingress_of g w ''agent-sim'' p" and ?i = "started_run g p w"
  obtain rs db where sv: "newHandler (deploy_api g) jd (deploy_env g w)
      \<lparr>rq_method = ''POST'', rq_path = [''v1'', ''intercept''], rq_apiKey = sm_apiKey s, rq_body = marshal_proposal p\<rparr> (sy_db w, None) =
      (rs, db, if sc_wantVerd sc = VerdictAllow then Some (start_options (deploy_api g) p, execution_request ''agent-sim'' p ?r) else None)"
    "hr_status rs = sc_wantStatus sc" "decode_response (hr_body rs) = (sc_wantVerd sc, dy_decisionID g)"
    "?r \<in> set (db_decisions db)" "dr_Verdict ?r = sc_wantVerd sc" "db_audit db = db_audit (sy_db w)"
    "sys_ok (w\<lparr>sy_db := db\<rparr>)" "framed g p w (w\<lparr>sy_db := db\<rparr>)"
    "sc_wantVerd sc = VerdictAllow \<Longrightarrow> startable ?i (dy_token g) (dy_now g) (w\<lparr>sy_db := db\<rparr>)"
    using scenario_served [OF sc key [of n, folded g] p ready', of jd] by blast
  let ?w1 = "w\<lparr>sy_db := db\<rparr>"
  have rf: "dr_ProposalID ?r = p_ID p" "dr_DecisionID ?r = dy_decisionID g" "dr_Stage ?r = StageIngress"
    by (simp_all add: ingress_of_def ingress_record_def)
  define h1 where "h1 = \<lparr>sv_count = Suc n, sv_world = ?w1,
    sv_run = (if sc_wantVerd sc = VerdictAllow then Some (dy_lag g, g, ?i) else None)\<rparr>"
  have post: "serve gs jd (sm_base s) \<lparr>rq_method = ''POST'', rq_path = [''v1'', ''intercept''], rq_apiKey = sm_apiKey s, rq_body = marshal_proposal p\<rparr>
      \<lparr>sv_count = n, sv_world = w, sv_run = None\<rparr> = (Inr rs, h1)"
    using sv(1) by (simp add: serve_def finish_run_def h1_def Let_def g started_run_def)
  have passes: "sim_run (serve gs jd) s sc now extra \<lparr>sv_count = n, sv_world = w, sv_run = None\<rparr> = (None, h')"
    if "?r \<in> set (db_decisions (sy_db (sv_world (worker_turn h1))))"
      "if AuditPhase_str (sc_wantPhase sc) \<noteq> ''''
       then wait_loop (serve gs jd) s (p_ID p) (sc_wantPhase sc) (sc_wantPhaseVerdict sc) extra 0 now (now + sm_wait s) (worker_turn h1) = (True, h')
       else h' = worker_turn h1" for h'
    by (rule sim_run_passes [where tr = "serve gs jd", OF s(1) p post sv(2,3) d
          serve_decisions [where gs = gs and key = "sm_apiKey s" and h = h1, OF key pk] _ that(2)])
      (use that(1) rf sv(5) in \<open>auto intro!: bexI [of _ ?r]\<close>)
  show thesis
  proof (cases "sc_wantVerd sc = VerdictAllow")
    case False
    then have turn: "worker_turn h1 = \<lparr>sv_count = Suc n, sv_world = ?w1, sv_run = None\<rparr>" by (simp add: h1_def)
    have "AuditPhase_str (sc_wantPhase sc) = ''''" using wanted [OF sc(1)] False by simp
    from passes [of "worker_turn h1"] this sv(4) turn have "sim_run (serve gs jd) s sc now extra \<lparr>sv_count = n, sv_world = w, sv_run = None\<rparr> =
      (None, \<lparr>sv_count = Suc n, sv_world = ?w1, sv_run = None\<rparr>)" by simp
    from that [OF this sv(7)] sv(8) show thesis by (simp add: p g)
  next
    case True
    let ?done = "\<lparr>sv_count = Suc n, sv_world = run_world g ?i ?w1, sv_run = None\<rparr>"
    note run = scenario_run [OF sc(1) True p sv(9) [OF True] sv(7)]
    have quiet: "\<not> audited (p_ID p) (sc_wantPhase sc) (sc_wantPhaseVerdict sc) ?w1"
      using ready' sv(6) by (auto simp: audited_def ready_for_def)
    have h1: "h1 = \<lparr>sv_count = Suc n, sv_world = ?w1, sv_run = Some (dy_lag g, g, ?i)\<rparr>" using True by (simp add: h1_def)
    have "?r \<in> set (db_decisions (sy_db (sv_world (worker_turn h1))))"
      using run(4) sv(4) by (cases "dy_lag g") (auto simp: h1)
    moreover have "wait_loop (serve gs jd) s (p_ID p) (sc_wantPhase sc) (sc_wantPhaseVerdict sc) extra 0 now (now + sm_wait s) (worker_turn h1) =
        (True, ?done)"
      unfolding h1 by (rule found_after_lag [OF key pk quiet run(1) s(2) [folded g]])
    moreover have "AuditPhase_str (sc_wantPhase sc) \<noteq> ''''" using wanted [OF sc(1)] True by auto
    ultimately have "sim_run (serve gs jd) s sc now extra \<lparr>sv_count = n, sv_world = w, sv_run = None\<rparr> = (None, ?done)"
      using passes [of ?done] by simp
    from that [OF this run(2)] framed_trans [OF sv(8) run(3)] show thesis by (simp add: p g)
  qed
qed

section \<open>All scenarios\<close>

text \<open>The names keep the identifiers of different scenarios apart, whatever follows them.\<close>

definition separate :: "scenario \<Rightarrow> scenario \<Rightarrow> bool" where
  "separate a b \<longleftrightarrow> (\<forall>x y. sc_name a @ ''-'' @ x \<noteq> sc_name b @ ''-'' @ y)"

lemma separate_table: "sorted_wrt separate scenarios"
  by (simp add: scenarios_def refused_case_def executed_case_def separate_def)

lemma separate_select: "sorted_wrt separate (select args)"
  using separate_table by (simp add: select_def Let_def sorted_wrt_filter)

lemma select_scenarios: "set (select args) \<subseteq> set scenarios"
  by (auto simp: select_def Let_def)

text \<open>A submission leaves a deployment ready for one with other identifiers.\<close>

lemma ready_framed:
  assumes "ready_for g' (proposal b now') w" "framed g (proposal a now) w w'" "sys_ok w'" "separate a b"
    and ids: "dy_decisionID g = NewDecisionID t" "dy_decisionID g' = NewDecisionID t'" "t' \<noteq> t"
  shows "ready_for g' (proposal b now') w'"
proof -
  let ?p = "proposal a now" and ?q = "proposal b now'"
  have sep: "p_ID ?p @ x \<noteq> p_ID ?q @ y" for x y
    using assms(4) by (simp add: separate_def proposal_def)
  have "''wf_saga-'' @ p_ID ?q @ ''_'' @ dy_runID g' \<notin> {dy_decisionID g, ''wf_saga-'' @ p_ID ?p @ ''_'' @ dy_runID g}"
    using sep by (auto simp: ids(1) NewDecisionID_def dest: sym)
  moreover have "dy_decisionID g' \<notin> {dy_decisionID g, ''wf_saga-'' @ p_ID ?p @ ''_'' @ dy_runID g}"
    using ids by (simp add: NewDecisionID_def)
  moreover have "rows_free (started_run g' ?q w') 0 (sy_db w')"
  proof -
    have "p_ID ?q @ y \<notin> ar_RecordID ` set (db_audit (sy_db w'))" if "p_ID ?q @ y \<notin> ar_RecordID ` set (db_audit (sy_db w))" for y
      using assms(2) that sep unfolding framed_def by (metis (no_types, lifting) image_iff)
    then show ?thesis using assms(1) by (simp add: ready_for_def rows_free_def)
  qed
  moreover have "ExecutionKey (dy_decisionID g') \<noteq> ExecutionKey (dy_decisionID g)" using ids by (simp add: ExecutionKey_inj NewDecisionID_def)
  moreover have "p_ID ?p \<noteq> p_ID ?q" using sep [of "[]" "[]"] by simp
  then have "\<forall>x \<in> set (db_audit (sy_db w')). ar_ProposalID x \<noteq> p_ID ?q"
    using assms(1,2) unfolding framed_def ready_for_def by metis
  ultimately show ?thesis
    using assms(1-3) unfolding framed_def ready_for_def fresh_id_def by auto
qed

lemma run_all_passes:
  assumes "sm_check s" and key: "\<And>n. Resolve (dy_keyring (gs n)) (sm_apiKey s) = Some ''agent-sim''"
    and ids: "\<And>n. dy_decisionID (gs n) = NewDecisionID (rnd n)" "inj rnd"
  shows "sorted_wrt separate scs \<Longrightarrow> set scs \<subseteq> set scenarios \<Longrightarrow>
    (\<And>k. k < length scs \<Longrightarrow> clock_ok (fst (clock (n + k))) \<and> ready_for (gs (n + k)) (proposal (scs ! k) (fst (clock (n + k)))) w \<and>
       waited (snd (clock (n + k))) 0 (dy_lag (gs (n + k)) - 1) < sm_wait s) \<Longrightarrow>
    fst (run_all (serve gs jd) s clock n scs \<lparr>sv_count = n, sv_world = w, sv_run = None\<rparr>) = 0"
proof (induction scs arbitrary: n w)
  case (Cons sc scs)
  have "clock_ok (fst (clock n))" "ready_for (gs n) (proposal sc (fst (clock n))) w" "sc \<in> set scenarios"
    "waited (snd (clock n)) 0 (dy_lag (gs n) - 1) < sm_wait s"
    using Cons.prems(2) Cons.prems(3) [of 0] by simp_all
  then obtain w' where w': "sim_run (serve gs jd) s sc (fst (clock n)) (snd (clock n)) \<lparr>sv_count = n, sv_world = w, sv_run = None\<rparr> =
      (None, \<lparr>sv_count = Suc n, sv_world = w', sv_run = None\<rparr>)" "sys_ok w'" "framed (gs n) (proposal sc (fst (clock n))) w w'"
    using scenario_passes [where gs = gs and jd = jd, OF _ _ assms(1) _ key] by blast
  have "fst (run_all (serve gs jd) s clock (Suc n) scs \<lparr>sv_count = Suc n, sv_world = w', sv_run = None\<rparr>) = 0"
  proof (rule Cons.IH)
    fix k assume k: "k < length scs"
    have "separate sc (scs ! k)" using Cons.prems(1) k by simp
    moreover have "rnd (Suc n + k) \<noteq> rnd n" using ids(2) by (simp add: inj_eq)
    ultimately show "clock_ok (fst (clock (Suc n + k))) \<and> ready_for (gs (Suc n + k)) (proposal (scs ! k) (fst (clock (Suc n + k)))) w' \<and>
        waited (snd (clock (Suc n + k))) 0 (dy_lag (gs (Suc n + k)) - 1) < sm_wait s"
      using Cons.prems(3) [of "Suc k"] k ready_framed [OF _ w'(3,2) _ ids(1) ids(1)] by auto
  qed (use Cons.prems(1,2) in auto)
  then show ?case by (simp add: w'(1) split_beta)
qed simp

section \<open>Properties\<close>

text \<open>
  C7. The acceptance check of the repository holds: with the shipped policy, which is valid, the
  simulator run with \<^verbatim>\<open>-check\<close> against the gateway and the worker exits with code 0, for one scenario
  and for all of them in one go. For each scenario the gateway answers with the expected status and
  verdict, the decision is on record, and where the change is executed the worker's run ends with the
  expected audit row, which the simulator finds if the run is over before its deadline; the runs do not get in each other's way.
\<close>

theorem agent_sim_passes:
  assumes "select args \<noteq> []"
    and "\<And>n. Resolve (dy_keyring (gs n)) (envOr getenv ''SENTRYGATE_API_KEY'' ''dev-secret-change-me'') = Some ''agent-sim''"
    and "\<And>n. dy_decisionID (gs n) = NewDecisionID (rnd n)" "inj rnd"
    and "\<And>n. n < length (select args) \<Longrightarrow>
      clock_ok (fst (clock n)) \<and> ready_for (gs n) (proposal (select args ! n) (fst (clock n))) w \<and>
      waited (snd (clock n)) 0 (dy_lag (gs n) - 1) < wait"
  shows "valid_document default_doc \<and>
    fst (agent_sim_main (serve gs jd) getenv True wait args clock \<lparr>sv_count = 0, sv_world = w, sv_run = None\<rparr>) = 0"
proof
  let ?s = "\<lparr>sm_base = envOr getenv ''SENTRYGATE_URL'' ''http://localhost:8080'',
    sm_apiKey = envOr getenv ''SENTRYGATE_API_KEY'' ''dev-secret-change-me'', sm_check = True, sm_wait = wait\<rparr>"
  have "fst (run_all (serve gs jd) ?s clock 0 (select args) \<lparr>sv_count = 0, sv_world = w, sv_run = None\<rparr>) = 0"
    by (rule run_all_passes [OF _ _ assms(3,4) separate_select select_scenarios]) (use assms(2,5) in simp_all)
  then show "fst (agent_sim_main (serve gs jd) getenv True wait args clock \<lparr>sv_count = 0, sv_world = w, sv_run = None\<rparr>) = 0"
    using assms(1) by (simp add: agent_sim_main_def Let_def split_beta)
qed (rule default_valid)

definition demo_keys :: "(string \<times> string) list" where
  "demo_keys = [(''agent-sim'', ''dev-secret-change-me'')]"

definition demo_deploy :: "nat \<Rightarrow> deploy" where
  "demo_deploy n = \<lparr>dy_keyring = \<lparr>kr_entries = map entry_of demo_keys\<rparr>, dy_queue = ''sentrygate-saga'', dy_slots = 64,
     dy_status = \<lparr>st_Version = '''', st_Digest = '''', st_LoadedAt = 0, st_MaxParallelTasks = 64, st_ReloadStatus = ''ok'',
       st_LastReloadError = '''', st_LastReloadErrorAt = None\<rparr>,
     dy_decisionID = NewDecisionID (fmt_d n), dy_traceID = '''', dy_now = 0, dy_runID = ''r'', dy_token = ''k'', dy_lag = 3\<rparr>"

lemma demo_ready:
  "ready_for (demo_deploy n) p (worker_boot migrate (Some (default_policy '''')))"
  by (auto simp: ready_for_def demo_deploy_def worker_boot_def sys_ok_def IsZero_def zero_time_def fresh_id_def NewDecisionID_def
      rows_free_def migrate_def NewSimulatedAdapter_def sim_inv_def sim_ok_def sql_inv_def sql_known_def)

theorem agent_sim_passes_witness:
  "fst (agent_sim_main (serve demo_deploy (\<lambda>_. ''invalid'')) (\<lambda>_. '''') True 30000000000 [''all''] (\<lambda>n. (int n, \<lambda>_. 0))
     \<lparr>sv_count = 0, sv_world = worker_boot migrate (Some (default_policy '''')), sv_run = None\<rparr>) = 0"
proof -
  have k: "Resolve (dy_keyring (demo_deploy n)) (envOr (\<lambda>_. '''') ''SENTRYGATE_API_KEY'' ''dev-secret-change-me'') = Some ''agent-sim''" for n
    by (simp add: demo_deploy_def envOr_def, subst Resolve_iff) (simp_all add: demo_keys_def)
  have all: "select [''all''] = scenarios" by (simp add: select_def)
  then have "select [''all''] \<noteq> []" "length (select [''all'']) = 8" by (simp_all add: scenarios_def)
  moreover have "waited (\<lambda>_. 0) 0 (dy_lag (demo_deploy n) - 1) < 30000000000" for n
    by (simp add: demo_deploy_def eval_nat_numeral)
  ultimately show ?thesis
    using agent_sim_passes [where args = "[''all'']" and wait = 30000000000 and gs = demo_deploy and getenv = "\<lambda>_. ''''" and rnd = fmt_d
        and clock = "\<lambda>n. (int n, \<lambda>_. 0)" and w = "worker_boot migrate (Some (default_policy ''''))" and jd = "\<lambda>_. ''invalid''"]
      k demo_ready by (simp add: clock_ok_def inj_def fmt_d_inj) (simp add: demo_deploy_def)
qed

end
