(* ===== verification/Memory_Store.thy ===== *)
theory Memory_Store
  imports Claim_Store Record_Store
begin

text \<open>
  \<^verbatim>\<open>internal/decision/store.go\<close> and \<^verbatim>\<open>claim.go\<close>: the in-process \<^verbatim>\<open>MemoryStore\<close>, one
  definition per method. Each method runs under the store's mutex, so a call is one step on the
  state. \<open>ctx\<close> is the text of \<^verbatim>\<open>ctx.Err()\<close> when the context is done. Copying the \<^verbatim>\<open>Reasons\<close>
  slice is the identity here, since values are immutable. The store is shown to keep its index
  consistent, to implement the record contract and to interpret \<open>claim_store\<close>.
\<close>

section \<open>State and operations\<close>

record MemoryStore =
  ms_records :: "DecisionRecord list"
  ms_byID :: "string \<rightharpoonup> nat"
  ms_claims :: claim_map

definition NewMemoryStore :: MemoryStore where
  "NewMemoryStore = \<lparr>ms_records = [], ms_byID = Map.empty, ms_claims = Map.empty\<rparr>"

type_synonym ctx = "string option"

definition Mem_AppendDecision :: "ctx \<Rightarrow> DecisionRecord \<Rightarrow> MemoryStore \<Rightarrow> go_error option \<times> MemoryStore" where
  "Mem_AppendDecision ctx r m = (case ctx of
       Some e \<Rightarrow> (Some (errors_New e), m)
     | None \<Rightarrow> (case Validate r of
         Some e \<Rightarrow> (Some e, m)
       | None \<Rightarrow> (case ms_byID m (dr_DecisionID r) of
           Some i \<Rightarrow> if Equal (ms_records m ! i) r then (None, m) else (Some decision_conflict, m)
         | None \<Rightarrow> (None, m\<lparr>ms_byID := (ms_byID m)(dr_DecisionID r \<mapsto> length (ms_records m)),
                          ms_records := ms_records m @ [r]\<rparr>))))"

definition Mem_GetDecision :: "ctx \<Rightarrow> string \<Rightarrow> MemoryStore \<Rightarrow> go_error + DecisionRecord" where
  "Mem_GetDecision ctx d m = (case ctx of
       Some e \<Rightarrow> Inl (errors_New e)
     | None \<Rightarrow> (case ms_byID m d of
         None \<Rightarrow> Inl decision_not_found
       | Some i \<Rightarrow> Inr (ms_records m ! i)))"

fun list_decisions :: "string \<Rightarrow> DecisionRecord list \<Rightarrow> DecisionRecord list \<Rightarrow> DecisionRecord list" where
  "list_decisions p [] out = out"
| "list_decisions p (r # rs) out =
     list_decisions p rs (if dr_ProposalID r = p then out @ [r] else out)"

definition Mem_ListDecisionsByProposal ::
  "ctx \<Rightarrow> string \<Rightarrow> MemoryStore \<Rightarrow> go_error + DecisionRecord list" where
  "Mem_ListDecisionsByProposal ctx p m = (case ctx of
       Some e \<Rightarrow> Inl (errors_New e)
     | None \<Rightarrow> Inr (list_decisions p (ms_records m) []))"

definition Mem_All :: "MemoryStore \<Rightarrow> DecisionRecord list" where
  "Mem_All m = ms_records m"

definition Mem_ClaimExecution ::
  "ctx \<Rightarrow> string \<Rightarrow> ClaimOwner \<Rightarrow> time \<Rightarrow> MemoryStore \<Rightarrow> go_error option \<times> MemoryStore" where
  "Mem_ClaimExecution ctx d w t m = (case ctx of
       Some e \<Rightarrow> (Some (errors_New e), m)
     | None \<Rightarrow>
         if d = '''' \<or> \<not> Valid w then (Some (invalid_claim d), m)
         else (case ms_byID m d of
             None \<Rightarrow> (Some decision_not_found, m)
           | Some _ \<Rightarrow>
               let taken = (None, m\<lparr>ms_claims := (ms_claims m)(d \<mapsto>
                     \<lparr>ec_DecisionID = d, ec_Owner = w, ec_State = ClaimStateClaimed,
                      ec_ClaimedAt = t, ec_UpdatedAt = t\<rparr>)\<rparr>)
               in (case ms_claims m d of
                   None \<Rightarrow> taken
                 | Some c \<Rightarrow>
                     if ec_State c = ClaimStateReleased then taken
                     else if ec_Owner c = w \<and> ec_State c = ClaimStateClaimed then (None, m)
                     else (Some (ClaimHeldError c), m))))"

definition Mem_AdvanceClaim ::
  "ctx \<Rightarrow> string \<Rightarrow> ClaimOwner \<Rightarrow> ClaimState \<Rightarrow> time \<Rightarrow> MemoryStore \<Rightarrow> go_error option \<times> MemoryStore" where
  "Mem_AdvanceClaim ctx d w to t m = (case ctx of
       Some e \<Rightarrow> (Some (errors_New e), m)
     | None \<Rightarrow> (case ClaimSources to of
         None \<Rightarrow> (Some (invalid_target to), m)
       | Some from \<Rightarrow> (case ms_claims m d of
           None \<Rightarrow> (Some claim_not_held, m)
         | Some c \<Rightarrow>
             if ec_Owner c \<noteq> w \<or> ec_State c \<notin> set from then (Some claim_not_held, m)
             else (None, m\<lparr>ms_claims := (ms_claims m)(d \<mapsto> c\<lparr>ec_State := to, ec_UpdatedAt := t\<rparr>)\<rparr>))))"

definition Mem_GetClaim :: "ctx \<Rightarrow> string \<Rightarrow> MemoryStore \<Rightarrow> go_error + ExecutionClaim" where
  "Mem_GetClaim ctx d m = (case ctx of
       Some e \<Rightarrow> Inl (errors_New e)
     | None \<Rightarrow> (case ms_claims m d of None \<Rightarrow> Inl claim_not_found | Some c \<Rightarrow> Inr c))"

section \<open>Invariant\<close>

text \<open>
  The index maps exactly the recorded IDs, each to the position of the one record that has it;
  every record is valid; claims exist for recorded decisions only, under their own ID.
\<close>

definition mem_index_ok :: "MemoryStore \<Rightarrow> bool" where
  "mem_index_ok m \<longleftrightarrow> (\<forall>d i. ms_byID m d = Some i \<longleftrightarrow>
     i < length (ms_records m) \<and> dr_DecisionID (ms_records m ! i) = d)"

definition mem_inv :: "MemoryStore \<Rightarrow> bool" where
  "mem_inv m \<longleftrightarrow> mem_index_ok m \<and> (\<forall>r \<in> set (ms_records m). Validate r = None) \<and>
     dom (ms_claims m) \<subseteq> dom (ms_byID m) \<and>
     (\<forall>d c. ms_claims m d = Some c \<longrightarrow> ec_DecisionID c = d)"

definition mem_known :: "MemoryStore \<Rightarrow> string set" where
  "mem_known m = dom (ms_byID m)"

lemma NewMemoryStore_inv [simp]: "mem_inv NewMemoryStore"
  by (simp add: mem_inv_def mem_index_ok_def NewMemoryStore_def)

lemma mem_index_append:
  assumes "mem_index_ok m" "ms_byID m (dr_DecisionID r) = None"
  shows "mem_index_ok (m\<lparr>ms_byID := (ms_byID m)(dr_DecisionID r \<mapsto> length (ms_records m)),
    ms_records := ms_records m @ [r]\<rparr>)"
  using assms unfolding mem_index_ok_def
  by (auto simp: nth_append less_Suc_eq split: if_splits) (metis option.distinct(1))

lemma mem_byID_iff:
  "mem_inv m \<Longrightarrow> ms_byID m d = Some i \<longleftrightarrow> i < length (ms_records m) \<and> dr_DecisionID (ms_records m ! i) = d"
  by (simp add: mem_inv_def mem_index_ok_def)

lemma mem_known_records: "mem_inv m \<Longrightarrow> mem_known m = dr_DecisionID ` set (ms_records m)"
  by (auto simp: mem_known_def mem_byID_iff dom_def in_set_conv_nth image_iff) (metis nth_mem)

lemma mem_ids_distinct:
  assumes "mem_inv m" shows "distinct (map dr_DecisionID (ms_records m))"
  unfolding distinct_conv_nth using mem_byID_iff [OF assms] by (auto, metis option.inject)

lemma Mem_AppendDecision_inv:
  assumes "mem_inv m" "Mem_AppendDecision ctx r m = (e, m')"
  shows "mem_inv m'"
  using assms mem_index_append [of m r]
  by (auto simp: Mem_AppendDecision_def mem_inv_def dom_def split: option.splits if_splits) blast+

lemma mem_inv_put:
  assumes "mem_inv m" "d \<in> dom (ms_byID m)" "ec_DecisionID c = d"
  shows "mem_inv (m\<lparr>ms_claims := (ms_claims m)(d \<mapsto> c)\<rparr>)"
  using assms by (auto simp: mem_inv_def mem_index_ok_def)

lemma mem_invD:
  "mem_inv m \<Longrightarrow> ms_claims m d = Some c \<Longrightarrow> ec_DecisionID c = d \<and> d \<in> dom (ms_byID m)"
  by (auto simp: mem_inv_def)

lemma Mem_ClaimExecution_inv:
  assumes "mem_inv m" "Mem_ClaimExecution ctx d w t m = (e, m')"
  shows "mem_inv m'"
  using assms
  by (auto simp: Mem_ClaimExecution_def Let_def intro!: mem_inv_put split: option.splits if_splits)

lemma Mem_AdvanceClaim_inv:
  assumes "mem_inv m" "Mem_AdvanceClaim ctx d w to t m = (e, m')"
  shows "mem_inv m'"
  using assms
  by (auto simp: Mem_AdvanceClaim_def dest: mem_invD intro!: mem_inv_put
      split: option.splits if_splits)

section \<open>The claim contract\<close>

interpretation mem: claim_store Mem_ClaimExecution Mem_AdvanceClaim Mem_GetClaim ms_claims mem_known
  "\<lambda>ctx. ctx = None" mem_inv
proof unfold_locales
  fix s f d w t e s'
  assume inv: "mem_inv s" and c: "Mem_ClaimExecution f d w t s = (e, s')"
  show "mem_inv s' \<and> mem_known s' = mem_known s \<and>
      (ms_claims s' = ms_claims s \<or> take_claim d w t (ms_claims s) (ms_claims s'))"
    using Mem_ClaimExecution_inv [OF inv c] c
    by (auto simp: Mem_ClaimExecution_def Let_def mem_known_def take_claim_def claimable_def
        new_claim_def split: option.splits if_splits)
  show "(map_option err_is e, ms_claims s') = spec_claim (mem_known s) d w t (ms_claims s)"
    if "f = None"
    using c that by (auto simp: Mem_ClaimExecution_def Let_def mem_known_def spec_claim_def
        claimable_def new_claim_def split: option.splits if_splits)
next
  fix s f d w to t e s'
  assume inv: "mem_inv s" and c: "Mem_AdvanceClaim f d w to t s = (e, s')"
  show "mem_inv s' \<and> mem_known s' = mem_known s \<and>
      (ms_claims s' = ms_claims s \<or> move_claim d w to t (ms_claims s) (ms_claims s'))"
    using Mem_AdvanceClaim_inv [OF inv c] c
    by (auto simp: Mem_AdvanceClaim_def mem_known_def move_claim_def may_advance_def
        split: option.splits if_splits)
  show "(map_option err_is e, ms_claims s') = spec_advance d w to t (ms_claims s)"
    if "f = None"
    using c that by (auto simp: Mem_AdvanceClaim_def spec_advance_def may_advance_def
        split: option.splits if_splits)
qed (auto simp: Mem_AdvanceClaim_def Mem_GetClaim_def move_claim_def may_advance_def mem_inv_def
    mem_known_def split: option.splits if_splits)

section \<open>The record contract\<close>

lemma list_decisions_filter: "list_decisions p rs out = out @ filter (\<lambda>r. dr_ProposalID r = p) rs"
  by (induction rs arbitrary: out) simp_all

lemma mem_lookup:
  assumes "mem_inv m"
  shows "lookup_decision (ms_records m) d = map_option (\<lambda>i. ms_records m ! i) (ms_byID m d)"
proof (cases "ms_byID m d")
  case None
  then have "fresh_id (ms_records m) d"
    using mem_known_records [OF assms] by (auto simp: fresh_id_def mem_known_def)
  with None show ?thesis by (simp add: lookup_None_iff)
next
  case (Some i)
  then have "i < length (ms_records m)" "dr_DecisionID (ms_records m ! i) = d"
    using mem_byID_iff [OF assms] by auto
  with Some lookup_mem [OF mem_ids_distinct [OF assms], of "ms_records m ! i"] show ?thesis by simp
qed

lemma Mem_AppendDecision_spec:
  assumes "mem_inv m"
  shows "(case Mem_AppendDecision None r m of (e, m') \<Rightarrow> (map_option err_is e, ms_records m')) =
    spec_append r (ms_records m)"
proof (cases r rule: Validate_cases)
  case 1
  then show ?thesis
    by (cases "ms_byID m (dr_DecisionID r)")
      (simp_all add: Mem_AppendDecision_def spec_append_def mem_lookup [OF assms])
qed (simp add: Mem_AppendDecision_def spec_append_def)

interpretation memr: record_store Mem_AppendDecision Mem_GetDecision Mem_ListDecisionsByProposal
  ms_records "\<lambda>_. True" "\<lambda>ctx. ctx = None" mem_inv
proof unfold_locales
  fix s f r e s'
  assume inv: "mem_inv s" and c: "Mem_AppendDecision f r s = (e, s')"
  show "mem_inv s' \<and> (ms_records s' = ms_records s \<or> ms_records s' = ms_records s @ [r] \<and>
      Validate r = None \<and> fresh_id (ms_records s) (dr_DecisionID r))"
    using Mem_AppendDecision_inv [OF inv c] c mem_lookup [OF inv, of "dr_DecisionID r"]
    by (auto simp: Mem_AppendDecision_def lookup_None_iff split: option.splits if_splits)
  show "(map_option err_is e, ms_records s') = spec_append r (ms_records s)" if "f = None"
    using c that Mem_AppendDecision_spec [OF inv, of r] by simp
next
  fix s f r s'
  assume inv: "mem_inv s" and c: "Mem_AppendDecision f r s = (None, s')"
  have inv': "mem_inv s'" using Mem_AppendDecision_inv [OF inv c] .
  have "r \<in> set (ms_records s')"
    using c by (auto simp: Mem_AppendDecision_def mem_byID_iff [OF inv] in_set_conv_nth
        split: option.splits if_splits)
  then show "lookup_decision (ms_records s') (dr_DecisionID r) = Some r"
    by (rule lookup_mem [OF mem_ids_distinct [OF inv']])
next
  fix s f d r
  assume inv: "mem_inv s"
  show "Mem_GetDecision f d s = (case lookup_decision (ms_records s) d of
      None \<Rightarrow> Inl decision_not_found | Some r \<Rightarrow> Inr r)" if "f = None"
    using that by (simp add: Mem_GetDecision_def mem_lookup [OF inv] split: option.splits)
  show "lookup_decision (ms_records s) d = Some r" if "Mem_GetDecision f d s = Inr r"
    using that by (simp add: Mem_GetDecision_def mem_lookup [OF inv] split: option.splits)
  show "Validate r = None" if "r \<in> set (ms_records s)"
    using that inv by (simp add: mem_inv_def)
qed (simp_all add: Mem_ListDecisionsByProposal_def list_decisions_filter)

text \<open>Every operation acts on one part of the state only.\<close>

lemma Mem_AppendDecision_claims: "ms_claims (snd (Mem_AppendDecision ctx r m)) = ms_claims m"
  by (simp add: Mem_AppendDecision_def split: option.splits)

lemma Mem_ClaimExecution_records: "ms_records (snd (Mem_ClaimExecution ctx d w t m)) = ms_records m"
  by (simp add: Mem_ClaimExecution_def Let_def split: option.splits)

lemma Mem_AdvanceClaim_records: "ms_records (snd (Mem_AdvanceClaim ctx d w to t m)) = ms_records m"
  by (simp add: Mem_AdvanceClaim_def split: option.splits)

end
