(* ===== verification/Row_Codec.thy ===== *)
theory Row_Codec
  imports Time_Parse Json Sqlite_Store
begin

text \<open>
  The text level of \<^verbatim>\<open>internal/audit\<close>: what the \<^verbatim>\<open>INSERT\<close> statements bind to the \<^verbatim>\<open>TEXT\<close> columns of
  the three tables (enum strings, the JSON array of the reasons, RFC 3339 timestamps), the
  statements on rows of texts, and the \<^verbatim>\<open>scan\<close> functions that read a row back with every way in
  which a stored text can be refused. The tables of \<open>Sqlite_Store\<close>, whose columns hold values, are
  the abstraction: on storable rows the methods that write and those that read commute with it.
\<close>

section \<open>Enum columns\<close>

text \<open>A conversion such as \<^verbatim>\<open>contracts.Verdict(verdict)\<close>: the constant with that text, if there is one.\<close>

definition conversion :: "('a \<Rightarrow> string) \<Rightarrow> 'a list \<Rightarrow> (string \<Rightarrow> 'a) \<Rightarrow> string \<Rightarrow> 'a" where
  "conversion str constants other s =
     (case find (\<lambda>x. str x = s) constants of Some x \<Rightarrow> x | None \<Rightarrow> other s)"

definition Verdict_of :: "string \<Rightarrow> Verdict" where
  "Verdict_of = conversion Verdict_str [VerdictAllow, VerdictDeny, VerdictRequireApproval] Verdict_other"

definition DecisionStage_of :: "string \<Rightarrow> DecisionStage" where
  "DecisionStage_of = conversion DecisionStage_str [StageIngress, StageWorkflowRevalidation] Stage_other"

definition ReasonCode_of :: "string \<Rightarrow> ReasonCode" where
  "ReasonCode_of = conversion ReasonCode_str
     [ReasonAgentUnknown, ReasonCommandUnknown, ReasonCommandNotPermitted,
      ReasonTargetUnregistered, ReasonTargetProtected, ReasonEnvironmentDenied,
      ReasonApprovalRequired, ReasonEnvironmentAllowed, ReasonPolicyUnavailable,
      ReasonRequestHashMismatch, ReasonIngressDecisionNotFound, ReasonIngressDecisionWrongStage,
      ReasonIngressDecisionNotAllow, ReasonIngressAgentMismatch, ReasonIngressHashMismatch,
      ReasonIngressIdentityMismatch, ReasonIngressDecisionAlreadyClaimed] Reason_other"

definition ClaimState_of :: "string \<Rightarrow> ClaimState" where
  "ClaimState_of = conversion ClaimState_str
     [ClaimStateClaimed, ClaimStateExecuting, ClaimStateReconciliationRequired,
      ClaimStateCompleted, ClaimStateFailed, ClaimStateReleased] ClaimState_other"

definition AuditPhase_of :: "string \<Rightarrow> AuditPhase" where
  "AuditPhase_of = conversion AuditPhase_str
     [AuditPhaseRevalidation, AuditPhaseExecutionFence, AuditPhaseDispatch,
      AuditPhaseReconciliation, AuditPhaseCompensation, AuditPhaseWorkflowComplete,
      AuditPhaseWorkflowFailed] AuditPhase_other"

fun AuditVerdict_str :: "AuditVerdict \<Rightarrow> string" where
  "AuditVerdict_str AuditVerdictPass = ''PASS''"
| "AuditVerdict_str AuditVerdictFail = ''FAIL''"
| "AuditVerdict_str AuditVerdictUnknown = ''UNKNOWN''"
| "AuditVerdict_str (AuditVerdict_other s) = s"

definition AuditVerdict_of :: "string \<Rightarrow> AuditVerdict" where
  "AuditVerdict_of = conversion AuditVerdict_str
     [AuditVerdictPass, AuditVerdictFail, AuditVerdictUnknown] AuditVerdict_other"

section \<open>The reasons column\<close>

text \<open>\<^verbatim>\<open>json.Marshal(rec.Reasons)\<close>: a nil slice is \<^verbatim>\<open>null\<close>, and the model does not tell it from an empty one.\<close>

definition marshal_reasons :: "ReasonCode list \<Rightarrow> string" where
  "marshal_reasons rs = (if rs = [] then ''null'' else marshal_array (map ReasonCode_str rs))"

text \<open>
  \<^verbatim>\<open>json.Unmarshal([]byte(reasons), &r.Reasons)\<close>: one value with nothing but white space behind it;
  \<^verbatim>\<open>null\<close> leaves the slice nil, a \<^verbatim>\<open>null\<close> element is the empty text.
\<close>

fun reason_elements :: "json list \<Rightarrow> ReasonCode list option" where
  "reason_elements [] = Some []"
| "reason_elements (v # vs) = (case v of
       JStr s \<Rightarrow> map_option ((#) (ReasonCode_of s)) (reason_elements vs)
     | JNull \<Rightarrow> map_option ((#) (ReasonCode_of '''')) (reason_elements vs)
     | _ \<Rightarrow> None)"

definition unmarshal_reasons :: "string \<Rightarrow> json_error + ReasonCode list" where
  "unmarshal_reasons s = (case readValue (s, AtEOF) of
       Value v rest \<Rightarrow>
         if \<not> list_all isSpace rest then Inl SyntaxError
         else (case v of
             JNull \<Rightarrow> Inr []
           | JArr vs \<Rightarrow> (case reason_elements vs of None \<Rightarrow> Inl UnmarshalTypeError | Some rs \<Rightarrow> Inr rs)
           | _ \<Rightarrow> Inl UnmarshalTypeError)
     | ReadError e \<Rightarrow> Inl e
     | _ \<Rightarrow> Inl UnexpectedEOF)"

section \<open>Rows of texts\<close>

record decision_columns =
  dc_decision_id :: string
  dc_stage :: string
  dc_proposal_id :: string
  dc_agent_id :: string
  dc_request_hash :: string
  dc_command :: string
  dc_target_id :: string
  dc_environment :: string
  dc_verdict :: string
  dc_reasons :: string
  dc_policy_version :: string
  dc_policy_digest :: string
  dc_workflow_id :: string
  dc_trace_id :: string
  dc_recorded_at :: string

record audit_columns =
  ac_record_id :: string
  ac_proposal_id :: string
  ac_workflow_id :: string
  ac_run_id :: string
  ac_phase :: string
  ac_verdict :: string
  ac_target_id :: string
  ac_command :: string
  ac_detail :: string
  ac_recorded_at :: string

record claim_columns =
  cc_decision_id :: string
  cc_workflow_id :: string
  cc_run_id :: string
  cc_claim_token :: string
  cc_state :: string
  cc_claimed_at :: string
  cc_updated_at :: string

record text_database =
  tx_audit :: "audit_columns list"
  tx_decisions :: "decision_columns list"
  tx_claims :: "claim_columns list"

text \<open>The values bound by the \<^verbatim>\<open>INSERT\<close> statements.\<close>

definition decision_values :: "DecisionRecord \<Rightarrow> decision_columns" where
  "decision_values rec =
     \<lparr>dc_decision_id = dr_DecisionID rec, dc_stage = DecisionStage_str (dr_Stage rec),
      dc_proposal_id = dr_ProposalID rec, dc_agent_id = dr_AgentID rec,
      dc_request_hash = dr_RequestHash rec, dc_command = dr_Command rec,
      dc_target_id = dr_TargetID rec, dc_environment = dr_Environment rec,
      dc_verdict = Verdict_str (dr_Verdict rec), dc_reasons = marshal_reasons (dr_Reasons rec),
      dc_policy_version = dr_PolicyVersion rec, dc_policy_digest = dr_PolicyDigest rec,
      dc_workflow_id = dr_WorkflowID rec, dc_trace_id = dr_TraceID rec,
      dc_recorded_at = formatTime (dr_RecordedAt rec)\<rparr>"

definition audit_values :: "AuditRecord \<Rightarrow> audit_columns" where
  "audit_values r =
     \<lparr>ac_record_id = ar_RecordID r, ac_proposal_id = ar_ProposalID r,
      ac_workflow_id = ar_WorkflowID r, ac_run_id = ar_RunID r,
      ac_phase = AuditPhase_str (ar_Phase r), ac_verdict = AuditVerdict_str (ar_Verdict r),
      ac_target_id = ar_TargetID r, ac_command = ar_Command r, ac_detail = ar_Detail r,
      ac_recorded_at = formatTime (ar_RecordedAt r)\<rparr>"

definition claim_values :: "ExecutionClaim \<Rightarrow> claim_columns" where
  "claim_values c =
     \<lparr>cc_decision_id = ec_DecisionID c, cc_workflow_id = o_WorkflowID (ec_Owner c),
      cc_run_id = o_RunID (ec_Owner c), cc_claim_token = o_Token (ec_Owner c),
      cc_state = ClaimState_str (ec_State c), cc_claimed_at = formatTime (ec_ClaimedAt c),
      cc_updated_at = formatTime (ec_UpdatedAt c)\<rparr>"

section \<open>Scanning rows\<close>

type_synonym json_messages = "json_error \<Rightarrow> string"

definition scanAudit :: "audit_columns \<Rightarrow> go_error + AuditRecord" where
  "scanAudit sc = (case parseTime (ac_recorded_at sc) of
       Inl e \<Rightarrow> Inl e
     | Inr t \<Rightarrow> Inr
         \<lparr>ar_RecordID = ac_record_id sc, ar_ProposalID = ac_proposal_id sc,
          ar_WorkflowID = ac_workflow_id sc, ar_RunID = ac_run_id sc,
          ar_Phase = AuditPhase_of (ac_phase sc), ar_Verdict = AuditVerdict_of (ac_verdict sc),
          ar_TargetID = ac_target_id sc, ar_Command = ac_command sc, ar_Detail = ac_detail sc,
          ar_RecordedAt = t\<rparr>)"

definition scanDecision :: "json_messages \<Rightarrow> decision_columns \<Rightarrow> go_error + DecisionRecord" where
  "scanDecision msg sc = (case unmarshal_reasons (dc_reasons sc) of
       Inl e \<Rightarrow> Inl (errors_New (''decode reasons: '' @ msg e))
     | Inr rs \<Rightarrow> (case parseTime (dc_recorded_at sc) of
         Inl e \<Rightarrow> Inl e
       | Inr t \<Rightarrow> Inr
           \<lparr>dr_DecisionID = dc_decision_id sc, dr_Stage = DecisionStage_of (dc_stage sc),
            dr_ProposalID = dc_proposal_id sc, dr_AgentID = dc_agent_id sc,
            dr_RequestHash = dc_request_hash sc, dr_Command = dc_command sc,
            dr_TargetID = dc_target_id sc, dr_Environment = dc_environment sc,
            dr_Verdict = Verdict_of (dc_verdict sc), dr_Reasons = rs,
            dr_PolicyVersion = dc_policy_version sc, dr_PolicyDigest = dc_policy_digest sc,
            dr_WorkflowID = dc_workflow_id sc, dr_TraceID = dc_trace_id sc, dr_RecordedAt = t\<rparr>))"

definition scanClaim :: "claim_columns \<Rightarrow> go_error + ExecutionClaim" where
  "scanClaim sc = (case parseTime (cc_claimed_at sc) of
       Inl e \<Rightarrow> Inl e
     | Inr claimed \<Rightarrow> (case parseTime (cc_updated_at sc) of
         Inl e \<Rightarrow> Inl e
       | Inr updated \<Rightarrow> Inr
           \<lparr>ec_DecisionID = cc_decision_id sc,
            ec_Owner = \<lparr>o_WorkflowID = cc_workflow_id sc, o_RunID = cc_run_id sc, o_Token = cc_claim_token sc\<rparr>,
            ec_State = ClaimState_of (cc_state sc), ec_ClaimedAt = claimed, ec_UpdatedAt = updated\<rparr>))"

text \<open>The loop over \<^verbatim>\<open>rows.Next()\<close>: the first row that does not scan ends it.\<close>

fun scan_rows :: "('r \<Rightarrow> go_error + 'a) \<Rightarrow> 'r list \<Rightarrow> go_error + 'a list" where
  "scan_rows scan [] = Inr []"
| "scan_rows scan (r # rs) = (case scan r of
       Inl e \<Rightarrow> Inl e
     | Inr x \<Rightarrow> (case scan_rows scan rs of Inl e \<Rightarrow> Inl e | Inr xs \<Rightarrow> Inr (x # xs)))"

section \<open>Queries on texts\<close>

definition Text_GetClaim :: "sql_env \<Rightarrow> string \<Rightarrow> text_database \<Rightarrow> go_error + ExecutionClaim" where
  "Text_GetClaim env d s = (case QueryRow (se_read env) (find (\<lambda>c. cc_decision_id c = d) (tx_claims s)) of
       NoRows \<Rightarrow> Inl claim_not_found
     | Query_error m \<Rightarrow> Inl (errors_New (''read claim: '' @ m))
     | Row c \<Rightarrow> scanClaim c)"

definition Text_GetDecision ::
  "json_messages \<Rightarrow> sql_env \<Rightarrow> string \<Rightarrow> text_database \<Rightarrow> go_error + DecisionRecord" where
  "Text_GetDecision msg env d s =
     (case QueryRow (se_read env) (find (\<lambda>r. dc_decision_id r = d) (tx_decisions s)) of
       NoRows \<Rightarrow> Inl decision_not_found
     | Query_error m \<Rightarrow> Inl (errors_New (''read decision: '' @ m))
     | Row r \<Rightarrow> (case scanDecision msg r of
         Inl e \<Rightarrow> Inl (wrap_error e (''read decision: '' @ err_text e))
       | Inr rec \<Rightarrow> Inr rec))"

definition Text_ListDecisionsByProposal ::
  "json_messages \<Rightarrow> sql_env \<Rightarrow> string \<Rightarrow> text_database \<Rightarrow> go_error + DecisionRecord list" where
  "Text_ListDecisionsByProposal msg env p s = (case se_read env of
       Some m \<Rightarrow> Inl (errors_New m)
     | None \<Rightarrow> scan_rows (scanDecision msg) (filter (\<lambda>r. dc_proposal_id r = p) (tx_decisions s)))"

definition auditByID :: "sql_env \<Rightarrow> string \<Rightarrow> text_database \<Rightarrow> go_error + AuditRecord" where
  "auditByID env i s = (case QueryRow (se_read env) (find (\<lambda>r. ac_record_id r = i) (tx_audit s)) of
       NoRows \<Rightarrow> Inl (errors_New no_rows)
     | Query_error m \<Rightarrow> Inl (errors_New m)
     | Row r \<Rightarrow> scanAudit r)"

definition Text_ListByProposal :: "sql_env \<Rightarrow> string \<Rightarrow> text_database \<Rightarrow> go_error + AuditRecord list" where
  "Text_ListByProposal env p s = (case se_read env of
       Some m \<Rightarrow> Inl (errors_New m)
     | None \<Rightarrow> scan_rows scanAudit (sort_key (\<lambda>r. (ac_recorded_at r, ac_record_id r))
         (filter (\<lambda>r. ac_proposal_id r = p) (tx_audit s))))"

section \<open>Statements on texts\<close>

definition insert_audit_text :: "AuditRecord \<Rightarrow> text_database \<Rightarrow> string + nat \<times> text_database" where
  "insert_audit_text r s =
     (if list_ex (\<lambda>r'. ac_record_id r' = ar_RecordID r) (tx_audit s) then Inr (0, s)
      else Inr (1, s\<lparr>tx_audit := tx_audit s @ [audit_values r]\<rparr>))"

definition insert_decision_text :: "DecisionRecord \<Rightarrow> text_database \<Rightarrow> string + nat \<times> text_database" where
  "insert_decision_text r s =
     (if list_ex (\<lambda>r'. dc_decision_id r' = dr_DecisionID r) (tx_decisions s) then Inr (0, s)
      else Inr (1, s\<lparr>tx_decisions := tx_decisions s @ [decision_values r]\<rparr>))"

definition upsert_claim_text ::
  "string \<Rightarrow> string \<Rightarrow> ClaimOwner \<Rightarrow> time \<Rightarrow> text_database \<Rightarrow> string + nat \<times> text_database" where
  "upsert_claim_text fk d w at s =
     (let ts = formatTime at;
          row = \<lparr>cc_decision_id = d, cc_workflow_id = o_WorkflowID w, cc_run_id = o_RunID w,
                 cc_claim_token = o_Token w, cc_state = ''CLAIMED'', cc_claimed_at = ts, cc_updated_at = ts\<rparr>
      in case find (\<lambda>c. cc_decision_id c = d) (tx_claims s) of
           None \<Rightarrow>
             if list_ex (\<lambda>r. dc_decision_id r = d) (tx_decisions s)
             then Inr (1, s\<lparr>tx_claims := tx_claims s @ [row]\<rparr>)
             else Inl fk
         | Some c \<Rightarrow>
             if cc_state c = ''RELEASED''
             then Inr (1, s\<lparr>tx_claims := map (\<lambda>c. if cc_decision_id c = d then row else c) (tx_claims s)\<rparr>)
             else Inr (0, s))"

definition check_text :: "string \<Rightarrow> bool" where
  "check_text st \<longleftrightarrow> st \<in> {''CLAIMED'', ''EXECUTING'', ''RECONCILIATION_REQUIRED'', ''COMPLETED'', ''FAILED'', ''RELEASED''}"

definition update_claim_text ::
  "string \<Rightarrow> ClaimOwner \<Rightarrow> ClaimState \<Rightarrow> ClaimState list \<Rightarrow> time \<Rightarrow> text_database \<Rightarrow> string + nat \<times> text_database" where
  "update_claim_text d w to sources at s =
     (let match = (\<lambda>c. cc_decision_id c = d \<and> cc_workflow_id c = o_WorkflowID w
            \<and> cc_run_id c = o_RunID w \<and> cc_claim_token c = o_Token w
            \<and> cc_state c \<in> ClaimState_str ` set sources);
          n = length (filter match (tx_claims s))
      in if n \<noteq> 0 \<and> \<not> check_text (ClaimState_str to) then Inl ''CHECK constraint failed''
         else Inr (n, s\<lparr>tx_claims := map (\<lambda>c. if match c
           then c\<lparr>cc_state := ClaimState_str to, cc_updated_at := formatTime at\<rparr> else c) (tx_claims s)\<rparr>))"

section \<open>The methods on texts\<close>

text \<open>
  The writing methods of the store on rows of texts, with every error their reads can meet.
  \<open>tv_later\<close> is what other connections do between the write of a call and its follow-up read; the
  driver behaves as \<open>tv_sql\<close> says.
\<close>

record text_env =
  tv_sql :: sql_env
  tv_later :: "text_database \<Rightarrow> text_database"

definition Text_ClaimExecution ::
  "text_env \<Rightarrow> string \<Rightarrow> ClaimOwner \<Rightarrow> time \<Rightarrow> text_database \<Rightarrow> go_error option \<times> text_database" where
  "Text_ClaimExecution env d w t s =
     (if d = '''' \<or> \<not> Valid w then (Some (invalid_claim d), s)
      else case ExecContext (se_exec (tv_sql env)) (upsert_claim_text (se_fk (tv_sql env)) d w t) s of
          (Exec_error m, s') \<Rightarrow>
            if strings_Contains m fk_phrase
            then (Some (wrap_error decision_not_found (err_text decision_not_found @ '': '' @ m)), s')
            else (Some (errors_New (''claim execution: '' @ m)), s')
        | (Rows_error m, s') \<Rightarrow> (Some (errors_New (''claim execution: '' @ m)), s')
        | (Rows n, s') \<Rightarrow>
            if n = 1 then (None, s')
            else (case Text_GetClaim (tv_sql env) d (tv_later env s') of
                Inl e \<Rightarrow> (Some (wrap_error e (''read existing claim: '' @ err_text e)), s')
              | Inr c \<Rightarrow>
                  if ec_Owner c = w \<and> ec_State c = ClaimStateClaimed then (None, s')
                  else (Some (ClaimHeldError c), s')))"

definition Text_AdvanceClaim ::
  "text_env \<Rightarrow> string \<Rightarrow> ClaimOwner \<Rightarrow> ClaimState \<Rightarrow> time \<Rightarrow> text_database \<Rightarrow> go_error option \<times> text_database" where
  "Text_AdvanceClaim env d w to t s = (case ClaimSources to of
       None \<Rightarrow> (Some (invalid_target to), s)
     | Some from \<Rightarrow> (case ExecContext (se_exec (tv_sql env)) (update_claim_text d w to from t) s of
         (Exec_error m, s') \<Rightarrow> (Some (errors_New (''advance claim: '' @ m)), s')
       | (Rows_error m, s') \<Rightarrow> (Some (errors_New (''advance claim: '' @ m)), s')
       | (Rows n, s') \<Rightarrow> if n \<noteq> 1 then (Some claim_not_held, s') else (None, s')))"

definition Text_AppendDecision ::
  "json_messages \<Rightarrow> text_env \<Rightarrow> DecisionRecord \<Rightarrow> text_database \<Rightarrow> go_error option \<times> text_database" where
  "Text_AppendDecision msg env r s = (case Validate r of
       Some e \<Rightarrow> (Some e, s)
     | None \<Rightarrow> (case ExecContext (se_exec (tv_sql env)) (insert_decision_text r) s of
         (Exec_error m, s') \<Rightarrow> (Some (errors_New (''insert decision: '' @ m)), s')
       | (Rows_error m, s') \<Rightarrow> (Some (errors_New m), s')
       | (Rows n, s') \<Rightarrow>
           if n = 1 then (None, s')
           else (case QueryRow (se_read (tv_sql env)) (find (\<lambda>x. dc_decision_id x = dr_DecisionID r) (tx_decisions (tv_later env s'))) of
               NoRows \<Rightarrow> (Some (errors_New (''read existing decision: '' @ no_rows)), s')
             | Query_error m \<Rightarrow> (Some (errors_New (''read existing decision: '' @ m)), s')
             | Row row \<Rightarrow> (case scanDecision msg row of
                 Inl e \<Rightarrow> (Some (wrap_error e (''read existing decision: '' @ err_text e)), s')
               | Inr existing \<Rightarrow>
                   if \<not> Equal existing r then (Some decision_conflict, s') else (None, s')))))"

definition Text_Append ::
  "text_env \<Rightarrow> time \<Rightarrow> AuditRecord \<Rightarrow> text_database \<Rightarrow> go_error option \<times> text_database" where
  "Text_Append env now r0 s =
     (if ar_RecordID r0 = '''' \<or> ar_ProposalID r0 = '''' \<or> AuditPhase_str (ar_Phase r0) = ''''
      then (Some audit_persist_failed, s)
      else
        let r = (if IsZero (ar_RecordedAt r0) then r0\<lparr>ar_RecordedAt := now\<rparr> else r0);
            failed = (\<lambda>m. Some (wrap_error audit_persist_failed (err_text audit_persist_failed @ '': '' @ m)))
        in case ExecContext (se_exec (tv_sql env)) (insert_audit_text r) s of
            (Exec_error m, s') \<Rightarrow> (failed m, s')
          | (Rows_error m, s') \<Rightarrow> (Some (errors_New m), s')
          | (Rows n, s') \<Rightarrow>
              if n = 1 then (None, s')
              else (case auditByID (tv_sql env) (ar_RecordID r) (tv_later env s') of
                  Inl e \<Rightarrow> (failed (err_text e), s')
                | Inr existing \<Rightarrow>
                    let sameTime = (ar_RecordedAt existing = ar_RecordedAt r)
                    in if \<not> sameTime \<or> existing\<lparr>ar_RecordedAt := zero_time\<rparr> \<noteq> r\<lparr>ar_RecordedAt := zero_time\<rparr>
                       then (failed (''record '' @ ar_RecordID r @ '' already exists with different content''), s')
                       else (None, s')))"

text \<open>Calls of these methods, by any connection.\<close>

datatype text_op =
    TxDecision text_env DecisionRecord
  | TxAudit text_env time AuditRecord
  | TxClaim text_env string ClaimOwner time
  | TxAdvance text_env string ClaimOwner ClaimState time

fun tx_exec :: "json_messages \<Rightarrow> text_op \<Rightarrow> text_database \<Rightarrow> text_database" where
  "tx_exec msg (TxDecision env r) s = snd (Text_AppendDecision msg env r s)"
| "tx_exec msg (TxAudit env now r) s = snd (Text_Append env now r s)"
| "tx_exec msg (TxClaim env d w t) s = snd (Text_ClaimExecution env d w t s)"
| "tx_exec msg (TxAdvance env d w to t) s = snd (Text_AdvanceClaim env d w to t s)"

definition tx_run :: "json_messages \<Rightarrow> text_op list \<Rightarrow> text_database \<Rightarrow> text_database" where
  "tx_run msg ops s = fold (tx_exec msg) ops s"

section \<open>Storable rows\<close>

text \<open>
  An enum value is one the code can hold: its text is that of no constant but itself. A timestamp
  has a four-digit year, and the reasons are UTF-8.
\<close>

definition storable_time :: "time \<Rightarrow> bool" where
  "storable_time t \<longleftrightarrow> 0 \<le> year_of_time t \<and> year_of_time t < 10000"

definition storable_decision :: "DecisionRecord \<Rightarrow> bool" where
  "storable_decision r \<longleftrightarrow> DecisionStage_of (DecisionStage_str (dr_Stage r)) = dr_Stage r \<and>
     Verdict_of (Verdict_str (dr_Verdict r)) = dr_Verdict r \<and>
     list_all (\<lambda>c. ReasonCode_of (ReasonCode_str c) = c \<and> valid_utf8 (ReasonCode_str c)) (dr_Reasons r) \<and>
     storable_time (dr_RecordedAt r)"

definition storable_audit :: "AuditRecord \<Rightarrow> bool" where
  "storable_audit r \<longleftrightarrow> AuditPhase_of (AuditPhase_str (ar_Phase r)) = ar_Phase r \<and>
     AuditVerdict_of (AuditVerdict_str (ar_Verdict r)) = ar_Verdict r \<and> storable_time (ar_RecordedAt r)"

definition storable_claim :: "ExecutionClaim \<Rightarrow> bool" where
  "storable_claim c \<longleftrightarrow> ClaimState_of (ClaimState_str (ec_State c)) = ec_State c \<and>
     storable_time (ec_ClaimedAt c) \<and> storable_time (ec_UpdatedAt c)"

definition storable :: "database \<Rightarrow> bool" where
  "storable s \<longleftrightarrow> list_all storable_audit (db_audit s) \<and> list_all storable_decision (db_decisions s) \<and>
     list_all storable_claim (db_claims s)"

definition texts :: "database \<Rightarrow> text_database" where
  "texts s = \<lparr>tx_audit = map audit_values (db_audit s), tx_decisions = map decision_values (db_decisions s),
     tx_claims = map claim_values (db_claims s)\<rparr>"

section \<open>A row scans back\<close>

lemma ClaimState_of_str: "check_state st \<Longrightarrow> ClaimState_of (ClaimState_str st) = st"
  by (cases st) (simp_all add: check_state_def ClaimState_of_def conversion_def)

lemma reason_elements_map:
  "list_all (\<lambda>c. ReasonCode_of (ReasonCode_str c) = c) rs \<Longrightarrow>
    reason_elements (map JStr (map ReasonCode_str rs)) = Some rs"
  by (induction rs) auto

lemma unmarshal_marshal_reasons:
  assumes "list_all (\<lambda>c. ReasonCode_of (ReasonCode_str c) = c \<and> valid_utf8 (ReasonCode_str c)) rs"
  shows "unmarshal_reasons (marshal_reasons rs) = Inr rs"
proof (cases "rs = []")
  case True
  have "readValue (''null'', AtEOF) = Value JNull []"
    by (simp add: readValue_def isSpace_def begin_value_def digit_def)
  with True show ?thesis by (simp add: marshal_reasons_def unmarshal_reasons_def)
next
  case False
  have "list_all valid_utf8 (map ReasonCode_str rs)" using assms by (auto simp: list_all_iff)
  from read_array [OF this, of "[]" AtEOF]
  have "readValue (marshal_reasons rs, AtEOF) = Value (JArr (map JStr (map ReasonCode_str rs))) []"
    using False by (simp add: marshal_reasons_def)
  moreover have "reason_elements (map JStr (map ReasonCode_str rs)) = Some rs"
    by (rule reason_elements_map) (use assms in \<open>auto simp: list_all_iff\<close>)
  ultimately show ?thesis by (simp add: unmarshal_reasons_def)
qed

lemma parse_storable: "storable_time t \<Longrightarrow> parseTime (formatTime t) = Inr t"
  by (simp add: storable_time_def parse_format)

lemma scan_decision_values: "storable_decision r \<Longrightarrow> scanDecision msg (decision_values r) = Inr r"
  by (simp add: storable_decision_def scanDecision_def decision_values_def unmarshal_marshal_reasons parse_storable)

lemma scan_audit_values: "storable_audit r \<Longrightarrow> scanAudit (audit_values r) = Inr r"
  by (simp add: storable_audit_def scanAudit_def audit_values_def parse_storable)

lemma scan_claim_values: "storable_claim c \<Longrightarrow> scanClaim (claim_values c) = Inr c"
  by (simp add: storable_claim_def scanClaim_def claim_values_def parse_storable)

lemma scan_rows_map:
  assumes "\<And>r. r \<in> set rs \<Longrightarrow> scan (vals r) = Inr r"
  shows "scan_rows scan (map vals rs) = Inr rs"
  using assms by (induction rs) auto

section \<open>Queries and statements commute with the texts\<close>

lemma find_map_values: "find P (map f xs) = map_option f (find (P \<circ> f) xs)"
  by (induction xs) auto

lemma filter_map_values: "filter P (map f xs) = map f (filter (P \<circ> f) xs)"
  by (simp add: filter_map)

lemma sort_key_map: "sort_key k (map f xs) = map f (sort_key (k \<circ> f) xs)"
proof (induction xs)
  case (Cons x xs)
  have "insort_key k (f y) (map f zs) = map f (insort_key (k \<circ> f) y zs)" for y zs
    by (induction zs) auto
  with Cons show ?case by (simp add: comp_def)
qed simp



lemma values_keys [simp]:
  "dc_decision_id (decision_values r) = dr_DecisionID r" "dc_proposal_id (decision_values r) = dr_ProposalID r"
  "ac_record_id (audit_values a) = ar_RecordID a" "ac_proposal_id (audit_values a) = ar_ProposalID a"
  "ac_recorded_at (audit_values a) = formatTime (ar_RecordedAt a)"
  "cc_decision_id (claim_values c) = ec_DecisionID c" "cc_state (claim_values c) = ClaimState_str (ec_State c)"
  "cc_workflow_id (claim_values c) = o_WorkflowID (ec_Owner c)" "cc_run_id (claim_values c) = o_RunID (ec_Owner c)"
  "cc_claim_token (claim_values c) = o_Token (ec_Owner c)"
  by (simp_all add: decision_values_def audit_values_def claim_values_def)

lemma find_in: "find P xs = Some x \<Longrightarrow> list_all Q xs \<Longrightarrow> Q x"
  by (induction xs) (auto split: if_splits)

lemma Text_GetClaim_refines:
  assumes "storable s"
  shows "Text_GetClaim env d (texts s) = Sql_GetClaim env d s"
proof -
  have "find (\<lambda>c. ec_DecisionID c = d) (db_claims s) = Some c \<Longrightarrow> scanClaim (claim_values c) = Inr c" for c
    using assms scan_claim_values find_in [of _ _ c storable_claim] by (simp add: storable_def)
  then show ?thesis
    by (auto simp: Text_GetClaim_def Sql_GetClaim_def claim_row_def texts_def QueryRow_def find_map_values comp_def split: option.splits)
qed

lemma Text_GetDecision_refines:
  assumes "storable s"
  shows "Text_GetDecision msg env d (texts s) = Sql_GetDecision env d s"
proof -
  have "find (\<lambda>r. dr_DecisionID r = d) (db_decisions s) = Some r \<Longrightarrow> scanDecision msg (decision_values r) = Inr r" for r
    using assms scan_decision_values find_in [of _ _ r storable_decision] by (simp add: storable_def)
  then show ?thesis
    by (auto simp: Text_GetDecision_def Sql_GetDecision_def decision_row_def texts_def QueryRow_def find_map_values comp_def split: option.splits)
qed

lemma Text_ListDecisions_refines:
  assumes "storable s"
  shows "Text_ListDecisionsByProposal msg env p (texts s) = Sql_ListDecisionsByProposal env p s"
proof -
  have "scan_rows (scanDecision msg) (map decision_values (filter (\<lambda>r. dr_ProposalID r = p) (db_decisions s)))
      = Inr (filter (\<lambda>r. dr_ProposalID r = p) (db_decisions s))"
    by (rule scan_rows_map) (use assms in \<open>auto simp: storable_def list_all_iff intro: scan_decision_values\<close>)
  then show ?thesis
    by (simp add: Text_ListDecisionsByProposal_def Sql_ListDecisionsByProposal_def texts_def filter_map_values comp_def split: option.splits)
qed

lemma Text_ListByProposal_refines:
  assumes "storable s"
  shows "Text_ListByProposal env p (texts s) = Sql_ListByProposal env p s"
proof -
  let ?rows = "sort_key audit_sort_key (filter (\<lambda>r. ar_ProposalID r = p) (db_audit s))"
  have "scan_rows scanAudit (map audit_values ?rows) = Inr ?rows"
    by (rule scan_rows_map) (use assms in \<open>auto simp: storable_def list_all_iff intro: scan_audit_values\<close>)
  moreover have "(\<lambda>r. (ac_recorded_at r, ac_record_id r)) \<circ> audit_values = audit_sort_key"
    by (simp add: fun_eq_iff audit_sort_key_def)
  ultimately show ?thesis
    by (simp add: Text_ListByProposal_def Sql_ListByProposal_def texts_def filter_map_values sort_key_map comp_def split: option.splits)
qed

lemma auditByID_refines:
  assumes "storable s"
  shows "auditByID env i (texts s) = (case QueryRow (se_read env) (audit_row i s) of
      NoRows \<Rightarrow> Inl (errors_New no_rows) | Query_error m \<Rightarrow> Inl (errors_New m) | Row r \<Rightarrow> Inr r)"
proof -
  have "find (\<lambda>r. ar_RecordID r = i) (db_audit s) = Some r \<Longrightarrow> scanAudit (audit_values r) = Inr r" for r
    using assms scan_audit_values find_in [of _ _ r storable_audit] by (simp add: storable_def)
  then show ?thesis
    by (auto simp: auditByID_def audit_row_def texts_def QueryRow_def find_map_values comp_def split: option.splits)
qed

abbreviation text_result :: "string + nat \<times> database \<Rightarrow> string + nat \<times> text_database" where
  "text_result \<equiv> map_sum id (map_prod id texts)"

lemma list_ex_map: "list_ex P (map f xs) = list_ex (P \<circ> f) xs"
  by (induction xs) auto

lemma insert_audit_refines: "insert_audit_text r (texts s) = text_result (insert_audit r s)"
  by (simp add: insert_audit_text_def insert_audit_def texts_def list_ex_map comp_def)

lemma insert_decision_refines: "insert_decision_text r (texts s) = text_result (insert_decision r s)"
  by (simp add: insert_decision_text_def insert_decision_def texts_def list_ex_map comp_def)

lemma state_text_eq:
  assumes "check_state st" "ClaimState_of (ClaimState_str st') = st'"
  shows "ClaimState_str st' = ClaimState_str st \<longleftrightarrow> st' = st"
  using ClaimState_of_str [OF assms(1)] assms(2) by metis

lemma released_text:
  assumes "storable_claim c"
  shows "ClaimState_str (ec_State c) = ''RELEASED'' \<longleftrightarrow> ec_State c = ClaimStateReleased"
  using state_text_eq [of ClaimStateReleased "ec_State c"] assms by (simp add: check_state_def storable_claim_def)

lemma upsert_claim_refines:
  assumes "storable s"
  shows "upsert_claim_text fk d w t (texts s) = text_result (upsert_claim fk d w t s)"
proof -
  have "claim_row d s = Some c \<Longrightarrow> storable_claim c" for c
    using assms find_in [of _ _ c storable_claim] by (simp add: storable_def claim_row_def)
  moreover have "find (\<lambda>c. cc_decision_id c = d) (tx_claims (texts s)) = map_option claim_values (claim_row d s)"
    by (simp add: texts_def find_map_values comp_def claim_row_def)
  moreover have "claim_values (c\<lparr>ec_Owner := w, ec_State := ClaimStateClaimed, ec_ClaimedAt := t, ec_UpdatedAt := t\<rparr>) =
      \<lparr>cc_decision_id = ec_DecisionID c, cc_workflow_id = o_WorkflowID w, cc_run_id = o_RunID w,
       cc_claim_token = o_Token w, cc_state = ''CLAIMED'', cc_claimed_at = formatTime t, cc_updated_at = formatTime t\<rparr>" for c
    by (simp add: claim_values_def)
  ultimately show ?thesis
    by (auto simp: upsert_claim_text_def upsert_claim_def Let_def released_text texts_def list_ex_map comp_def
        claim_values_def split: option.splits)
qed

lemma update_claim_refines:
  assumes "storable s" "check_state to" "list_all check_state sources"
  shows "update_claim_text d w to sources t (texts s) = text_result (update_claim d w to sources t s)"
proof -
  define match where "match = (\<lambda>c::ExecutionClaim. ec_DecisionID c = d \<and> o_WorkflowID (ec_Owner c) = o_WorkflowID w
    \<and> o_RunID (ec_Owner c) = o_RunID w \<and> o_Token (ec_Owner c) = o_Token w \<and> ec_State c \<in> set sources)"
  define match' where "match' = (\<lambda>c::claim_columns. cc_decision_id c = d \<and> cc_workflow_id c = o_WorkflowID w
    \<and> cc_run_id c = o_RunID w \<and> cc_claim_token c = o_Token w \<and> cc_state c \<in> ClaimState_str ` set sources)"
  have m: "match' (claim_values c) = match c" if "c \<in> set (db_claims s)" for c
  proof -
    have "ClaimState_of (ClaimState_str (ec_State c)) = ec_State c"
      using that assms(1) by (simp add: storable_def storable_claim_def list_all_iff)
    with assms(3) have "ClaimState_str (ec_State c) = ClaimState_str st \<longleftrightarrow> ec_State c = st" if "st \<in> set sources" for st
      using state_text_eq [of st "ec_State c"] that by (simp add: list_all_iff)
    then have "ClaimState_str (ec_State c) \<in> ClaimState_str ` set sources \<longleftrightarrow> ec_State c \<in> set sources"
      by (metis (no_types, lifting) image_iff)
    then show ?thesis by (simp add: match_def match'_def)
  qed
  have "filter (match' \<circ> claim_values) (db_claims s) = filter match (db_claims s)"
    by (simp add: m cong: filter_cong)
  moreover have "map (\<lambda>c. if match' c then c\<lparr>cc_state := ClaimState_str to, cc_updated_at := formatTime t\<rparr> else c)
      (map claim_values (db_claims s)) =
    map claim_values (map (\<lambda>c. if match c then c\<lparr>ec_State := to, ec_UpdatedAt := t\<rparr> else c) (db_claims s))"
    by (simp add: m) (simp add: claim_values_def)
  moreover have "check_text (ClaimState_str to)"
    using assms(2) by (cases to) (simp_all add: check_state_def check_text_def)
  ultimately show ?thesis
    using assms(2) by (simp add: update_claim_text_def update_claim_def texts_def Let_def
        match_def [symmetric] match'_def [symmetric])
qed

text \<open>Every statement keeps the rows storable.\<close>

lemma storable_migrate: "storable migrate"
  by (simp add: storable_def migrate_def)

lemma insert_audit_storable:
  "storable s \<Longrightarrow> storable_audit r \<Longrightarrow> insert_audit r s = Inr (n, s') \<Longrightarrow> storable s'"
  by (auto simp: insert_audit_def storable_def split: if_splits)

lemma insert_decision_storable:
  "storable s \<Longrightarrow> storable_decision r \<Longrightarrow> insert_decision r s = Inr (n, s') \<Longrightarrow> storable s'"
  by (auto simp: insert_decision_def storable_def split: if_splits)

lemma claimed_storable:
  "storable_time t \<Longrightarrow> ec_State c = ClaimStateClaimed \<Longrightarrow> ec_ClaimedAt c = t \<Longrightarrow> ec_UpdatedAt c = t \<Longrightarrow> storable_claim c"
  using ClaimState_of_str [of ClaimStateClaimed] by (simp add: storable_claim_def check_state_def)

lemma upsert_claim_storable:
  assumes "storable s" "storable_time t" "upsert_claim fk d w t s = Inr (n, s')"
  shows "storable s'"
proof -
  have "list_all storable_claim (map (\<lambda>c. if ec_DecisionID c = d
      then c\<lparr>ec_Owner := w, ec_State := ClaimStateClaimed, ec_ClaimedAt := t, ec_UpdatedAt := t\<rparr> else c) (db_claims s))"
    using assms(1,2) by (auto simp: storable_def list_all_iff intro: claimed_storable)
  moreover have "storable_claim \<lparr>ec_DecisionID = d, ec_Owner = w, ec_State = ClaimStateClaimed, ec_ClaimedAt = t, ec_UpdatedAt = t\<rparr>"
    using assms(2) by (rule claimed_storable) simp_all
  ultimately show ?thesis
    using assms(1,3) by (auto simp: upsert_claim_def storable_def split: option.splits if_splits)
qed

lemma update_claim_storable:
  assumes "storable s" "storable_time t" "check_state to" "update_claim d w to sources t s = Inr (n, s')"
  shows "storable s'"
proof -
  have "storable_claim (c\<lparr>ec_State := to, ec_UpdatedAt := t\<rparr>)" if "storable_claim c" for c
    using that assms(2) ClaimState_of_str [OF assms(3)] by (simp add: storable_claim_def)
  then show ?thesis
    using assms(1,4) by (auto simp: update_claim_def storable_def list_all_iff Let_def split: if_splits)
qed

section \<open>The methods commute with the texts\<close>

lemma exec_texts:
  assumes "stmt' (texts s) = text_result (stmt s)"
  shows "ExecContext f stmt' (texts s) = map_prod id texts (ExecContext f stmt s)"
  using assms by (auto simp: ExecContext_def split: exec_fault.splits sum.splits)

lemma exec_storable:
  assumes "storable s" "\<And>n s'. stmt s = Inr (n, s') \<Longrightarrow> storable s'" "ExecContext f stmt s = (x, s')"
  shows "storable s'"
  using assms by (auto simp: ExecContext_def split: exec_fault.splits sum.splits)

text \<open>Other connections do the same to the texts as to the values.\<close>

definition same_env :: "text_env \<Rightarrow> sql_env \<Rightarrow> bool" where
  "same_env tenv env \<longleftrightarrow> tv_sql tenv = env \<and>
     (\<forall>s. storable s \<longrightarrow> storable (se_later env s) \<and> tv_later tenv (texts s) = texts (se_later env s))"

lemma Text_ClaimExecution_refines:
  assumes "storable s" "storable_time t" "same_env tenv env"
  shows "Text_ClaimExecution tenv d w t (texts s) = map_prod id texts (Sql_ClaimExecution env d w t s)"
    "storable (snd (Sql_ClaimExecution env d w t s))"
proof -
  obtain x s' where e: "ExecContext (se_exec env) (upsert_claim (se_fk env) d w t) s = (x, s')" by fastforce
  have st: "storable s'" by (rule exec_storable [OF assms(1) _ e]) (rule upsert_claim_storable [OF assms(1,2)])
  have env: "tv_sql tenv = env" "storable (se_later env s')" "tv_later tenv (texts s') = texts (se_later env s')"
    using assms(3) st by (auto simp: same_env_def)
  note e' = exec_texts [where stmt' = "upsert_claim_text (se_fk env) d w t" and stmt = "upsert_claim (se_fk env) d w t" and f = "se_exec env" and s = s, OF upsert_claim_refines [OF assms(1)], unfolded e]
  show "storable (snd (Sql_ClaimExecution env d w t s))"
    using st assms(1) by (auto simp: Sql_ClaimExecution_def e split: exec_result.splits sum.splits)
  show "Text_ClaimExecution tenv d w t (texts s) = map_prod id texts (Sql_ClaimExecution env d w t s)"
    by (auto simp: Text_ClaimExecution_def Sql_ClaimExecution_def e e' env Text_GetClaim_refines split: exec_result.splits sum.splits)
qed

lemma Text_AdvanceClaim_refines:
  assumes "storable s" "storable_time t" "same_env tenv env"
  shows "Text_AdvanceClaim tenv d w to t (texts s) = map_prod id texts (Sql_AdvanceClaim env d w to t s)"
    "storable (snd (Sql_AdvanceClaim env d w to t s))"
proof (atomize (full), cases "ClaimSources to")
  case None
  then show "Text_AdvanceClaim tenv d w to t (texts s) = map_prod id texts (Sql_AdvanceClaim env d w to t s) \<and>
      storable (snd (Sql_AdvanceClaim env d w to t s))"
    using assms(1) by (simp add: Text_AdvanceClaim_def Sql_AdvanceClaim_def)
next
  case (Some src)
  have c: "check_state to" "list_all check_state src"
    using Some by (auto simp: ClaimSources_def check_state_def split: ClaimState.splits)
  obtain x s' where e: "ExecContext (se_exec env) (update_claim d w to src t) s = (x, s')" by fastforce
  have st: "storable s'" by (rule exec_storable [OF assms(1) _ e]) (rule update_claim_storable [OF assms(1,2) c(1)])
  have "tv_sql tenv = env" using assms(3) by (simp add: same_env_def)
  with exec_texts [where stmt' = "update_claim_text d w to src t" and stmt = "update_claim d w to src t" and f = "se_exec env" and s = s, OF update_claim_refines [OF assms(1) c], unfolded e] st
  show "Text_AdvanceClaim tenv d w to t (texts s) = map_prod id texts (Sql_AdvanceClaim env d w to t s) \<and>
      storable (snd (Sql_AdvanceClaim env d w to t s))"
    by (auto simp: Text_AdvanceClaim_def Sql_AdvanceClaim_def Some e split: exec_result.splits)
qed

lemma Text_AppendDecision_refines:
  assumes "storable s" "storable_decision r" "same_env tenv env"
  shows "Text_AppendDecision msg tenv r (texts s) = map_prod id texts (Sql_AppendDecision env r s)"
    "storable (snd (Sql_AppendDecision env r s))"
proof -
  obtain x s' where e: "ExecContext (se_exec env) (insert_decision r) s = (x, s')" by fastforce
  have st: "storable s'" by (rule exec_storable [OF assms(1) _ e]) (rule insert_decision_storable [OF assms(1,2)])
  have env: "tv_sql tenv = env" "storable (se_later env s')" "tv_later tenv (texts s') = texts (se_later env s')"
    using assms(3) st by (auto simp: same_env_def)
  have row: "find (\<lambda>x. dc_decision_id x = d) (tx_decisions (texts z)) = map_option decision_values (decision_row d z)" for d z
    by (simp add: texts_def find_map_values comp_def decision_row_def)
  have scan: "scanDecision msg (decision_values y) = Inr y" if "decision_row d (se_later env s') = Some y" for d y
    using env(2) find_in [of _ _ y storable_decision] that by (auto simp: storable_def decision_row_def intro: scan_decision_values)
  note e' = exec_texts [where stmt' = "insert_decision_text r" and stmt = "insert_decision r" and f = "se_exec env" and s = s, OF insert_decision_refines, unfolded e]
  show "storable (snd (Sql_AppendDecision env r s))"
    using st assms(1) by (auto simp: Sql_AppendDecision_def e split: option.splits exec_result.splits query_row.splits)
  show "Text_AppendDecision msg tenv r (texts s) = map_prod id texts (Sql_AppendDecision env r s)"
    by (auto simp: Text_AppendDecision_def Sql_AppendDecision_def e e' env row QueryRow_def scan split: option.splits exec_result.splits)
qed

lemma stamped_storable: "storable_audit a \<Longrightarrow> storable_time now \<Longrightarrow> storable_audit (a\<lparr>ar_RecordedAt := now\<rparr>)"
  by (simp add: storable_audit_def)

lemma Text_Append_refines:
  assumes "storable s" "storable_audit a" "storable_time now" "same_env tenv env"
  shows "Text_Append tenv now a (texts s) = map_prod id texts (Sql_Append env now a s)"
    "storable (snd (Sql_Append env now a s))"
proof -
  define b where "b = (if IsZero (ar_RecordedAt a) then a\<lparr>ar_RecordedAt := now\<rparr> else a)"
  have sb: "storable_audit b" using assms(2,3) by (simp add: b_def stamped_storable)
  obtain x s' where e: "ExecContext (se_exec env) (insert_audit b) s = (x, s')" by fastforce
  have st: "storable s'" by (rule exec_storable [OF assms(1) _ e]) (rule insert_audit_storable [OF assms(1) sb])
  have env: "tv_sql tenv = env" "storable (se_later env s')" "tv_later tenv (texts s') = texts (se_later env s')"
    using assms(4) st by (auto simp: same_env_def)
  note e' = exec_texts [where stmt' = "insert_audit_text b" and stmt = "insert_audit b" and f = "se_exec env" and s = s, OF insert_audit_refines, unfolded e]
  show "storable (snd (Sql_Append env now a s))"
    using st assms(1) unfolding Sql_Append_def b_def [symmetric] Let_def
    by (auto simp: e split: exec_result.splits query_row.splits)
  show "Text_Append tenv now a (texts s) = map_prod id texts (Sql_Append env now a s)"
    unfolding Text_Append_def Sql_Append_def b_def [symmetric] Let_def
    by (auto simp: e e' env auditByID_refines [OF env(2)] errors_New_def split: exec_result.splits query_row.splits)
qed

section \<open>Records stay in the texts\<close>

lemma exec_decisions:
  assumes "ExecContext f stmt s = (x, s')" "\<And>n s'. stmt s = Inr (n, s') \<Longrightarrow> \<exists>rs. tx_decisions s' = tx_decisions s @ rs"
  shows "\<exists>rs. tx_decisions s' = tx_decisions s @ rs"
  using assms by (auto simp: ExecContext_def split: exec_fault.splits sum.splits)

lemma statement_decisions:
  "insert_decision_text r s = Inr (n, s') \<Longrightarrow> \<exists>rs. tx_decisions s' = tx_decisions s @ rs"
  "insert_audit_text a s = Inr (n, s') \<Longrightarrow> \<exists>rs. tx_decisions s' = tx_decisions s @ rs"
  "upsert_claim_text fk d w t s = Inr (n, s') \<Longrightarrow> \<exists>rs. tx_decisions s' = tx_decisions s @ rs"
  "update_claim_text d w to src t s = Inr (n, s') \<Longrightarrow> \<exists>rs. tx_decisions s' = tx_decisions s @ rs"
  by (auto simp: insert_decision_text_def insert_audit_text_def upsert_claim_text_def update_claim_text_def Let_def
      split: if_splits option.splits)

lemma append_text_state:
  "\<exists>x. ExecContext (se_exec (tv_sql env)) (insert_decision_text r) s = (x, snd (Text_AppendDecision msg env r s)) \<or>
     snd (Text_AppendDecision msg env r s) = s"
  by (auto simp: Text_AppendDecision_def split: option.splits prod.splits exec_result.splits query_row.splits sum.splits)

lemma tx_exec_decisions: "\<exists>rs. tx_decisions (tx_exec msg op s) = tx_decisions s @ rs"
proof (cases op)
  case (TxDecision env r)
  then show ?thesis
    using append_text_state [of env r s msg] exec_decisions [OF _ statement_decisions(1)] by (auto dest: exec_decisions)
next
  case (TxAudit env now r)
  define b where "b = (if IsZero (ar_RecordedAt r) then r\<lparr>ar_RecordedAt := now\<rparr> else r)"
  obtain x s' where e: "ExecContext (se_exec (tv_sql env)) (insert_audit_text b) s = (x, s')" by fastforce
  have "snd (Text_Append env now r s) \<in> {s, s'}"
    unfolding Text_Append_def b_def [symmetric] Let_def by (auto simp: e split: exec_result.splits sum.splits)
  with TxAudit exec_decisions [OF e statement_decisions(2)] show ?thesis by auto
next
  case (TxClaim env d w t)
  obtain x s' where e: "ExecContext (se_exec (tv_sql env)) (upsert_claim_text (se_fk (tv_sql env)) d w t) s = (x, s')" by fastforce
  have "snd (Text_ClaimExecution env d w t s) \<in> {s, s'}"
    by (auto simp: Text_ClaimExecution_def e split: exec_result.splits sum.splits)
  with TxClaim exec_decisions [OF e statement_decisions(3)] show ?thesis by auto
next
  case (TxAdvance env d w to t)
  show ?thesis
  proof (cases "ClaimSources to")
    case (Some src)
    obtain x s' where e: "ExecContext (se_exec (tv_sql env)) (update_claim_text d w to src t) s = (x, s')" by fastforce
    have "snd (Text_AdvanceClaim env d w to t s) = s'"
      by (auto simp: Text_AdvanceClaim_def Some e split: exec_result.splits)
    with TxAdvance exec_decisions [OF e statement_decisions(4)] show ?thesis by simp
  qed (simp add: TxAdvance Text_AdvanceClaim_def)
qed

lemma tx_run_decisions: "\<exists>rs. tx_decisions (tx_run msg ops s) = tx_decisions s @ rs"
proof (induction ops arbitrary: s)
  case (Cons op ops)
  from Cons [of "tx_exec msg op s"] tx_exec_decisions [of msg op s] show ?case by (auto simp: tx_run_def)
qed (simp add: tx_run_def)

lemma find_prefix: "find P xs = Some x \<Longrightarrow> find P (xs @ ys) = Some x"
  by (induction xs) auto

lemma find_new: "\<not> list_ex P xs \<Longrightarrow> P x \<Longrightarrow> find P (xs @ [x]) = Some x"
  by (induction xs) auto

text \<open>A successful append leaves a row that scans to the record.\<close>

lemma appended_row:
  assumes "Text_AppendDecision msg env r s = (None, s')" "tv_later env = tx_run msg others" "storable_decision r"
  obtains row where "find (\<lambda>x. dc_decision_id x = dr_DecisionID r) (tx_decisions s') = Some row" "scanDecision msg row = Inr r"
proof (cases "list_ex (\<lambda>x. dc_decision_id x = dr_DecisionID r) (tx_decisions s)")
  case False
  then have "tx_decisions s' = tx_decisions s @ [decision_values r]"
    using assms(1) by (auto simp: Text_AppendDecision_def ExecContext_def insert_decision_text_def
        split: option.splits exec_fault.splits)
  with that [of "decision_values r"] find_new [OF False, of "decision_values r"] scan_decision_values [OF assms(3)]
  show thesis by simp
next
  case True
  then obtain row where row: "find (\<lambda>x. dc_decision_id x = dr_DecisionID r) (tx_decisions s) = Some row"
    by (cases "find (\<lambda>x. dc_decision_id x = dr_DecisionID r) (tx_decisions s)") (auto simp: find_None_iff list_ex_iff)
  obtain rs where "tx_decisions (tx_run msg others s) = tx_decisions s @ rs" using tx_run_decisions by blast
  then have later: "find (\<lambda>x. dc_decision_id x = dr_DecisionID r) (tx_decisions (tv_later env s)) = Some row"
    using find_prefix [OF row] assms(2) by simp
  have "s' = s \<and> scanDecision msg row = Inr r"
    using assms(1) True later by (auto simp: Text_AppendDecision_def ExecContext_def insert_decision_text_def QueryRow_def Equal_iff
        split: option.splits exec_fault.splits sum.splits if_splits)
  with row that show thesis by blast
qed

text \<open>A table of each kind with one row, written in January 1970.\<close>

definition sample_decision_row :: DecisionRecord where
  "sample_decision_row = \<lparr>dr_DecisionID = ''d1'', dr_Stage = StageIngress, dr_ProposalID = ''p1'', dr_AgentID = ''a1'',
     dr_RequestHash = ''h1'', dr_Command = ''DEPLOY_CONFIG'', dr_TargetID = ''t1'', dr_Environment = ''dev'',
     dr_Verdict = VerdictAllow, dr_Reasons = [], dr_PolicyVersion = ''v1'', dr_PolicyDigest = ''g1'',
     dr_WorkflowID = ''w1'', dr_TraceID = '''', dr_RecordedAt = 1500000000\<rparr>"

definition sample_claim_row :: ExecutionClaim where
  "sample_claim_row = \<lparr>ec_DecisionID = ''d1'', ec_Owner = \<lparr>o_WorkflowID = ''w1'', o_RunID = ''r1'', o_Token = ''k1''\<rparr>,
     ec_State = ClaimStateExecuting, ec_ClaimedAt = 2000000000, ec_UpdatedAt = 3000000000\<rparr>"

definition sample_audit_row :: AuditRecord where
  "sample_audit_row = \<lparr>ar_RecordID = ''a1'', ar_ProposalID = ''p1'', ar_WorkflowID = ''w1'', ar_RunID = ''r1'',
     ar_Phase = AuditPhaseDispatch, ar_Verdict = AuditVerdictUnknown, ar_TargetID = ''t1'',
     ar_Command = ''DEPLOY_CONFIG'', ar_Detail = ''sent'', ar_RecordedAt = 4000000000\<rparr>"

definition sample_tables :: database where
  "sample_tables = \<lparr>db_audit = [sample_audit_row], db_decisions = [sample_decision_row], db_claims = [sample_claim_row]\<rparr>"

definition sample_quiet :: sql_env where
  "sample_quiet = \<lparr>se_exec = Exec_ok, se_later = (\<lambda>s. s), se_read = None, se_fk = ''FOREIGN KEY constraint failed''\<rparr>"

lemma january_storable: "0 \<le> t \<Longrightarrow> t < 1000000000 * 86400 \<Longrightarrow> storable_time t"
proof -
  assume "0 \<le> t" "t < 1000000000 * 86400"
  then have "0 \<le> t div 1000000000" "t div 1000000000 < 86400" by simp_all
  then have "t div 1000000000 div 86400 = 0" by simp
  moreover have "civil_of_days 0 = (1970, 1, 1)" by code_simp
  ultimately show ?thesis by (simp add: storable_time_def year_of_time_def)
qed

lemma sample_rows_storable:
  "storable_decision sample_decision_row" "storable_claim sample_claim_row" "storable_audit sample_audit_row"
  by (simp_all add: storable_decision_def storable_claim_def storable_audit_def january_storable sample_decision_row_def
      sample_claim_row_def sample_audit_row_def DecisionStage_of_def Verdict_of_def ClaimState_of_def AuditPhase_of_def
      AuditVerdict_of_def conversion_def)

lemma sample_tables_storable: "storable sample_tables"
  by (simp add: storable_def sample_tables_def sample_rows_storable)

text \<open>
  C20. On storable rows every query reads back, through the texts in the columns, exactly
  what was written: \<^verbatim>\<open>GetClaim\<close>, \<^verbatim>\<open>GetDecision\<close>, \<^verbatim>\<open>ListDecisionsByProposal\<close> and \<^verbatim>\<open>ListByProposal\<close> on the
  text tables give what they give on the tables of values, errors of the driver included.
\<close>

theorem text_queries_refine:
  assumes "storable s"
  shows "Text_GetClaim env d (texts s) = Sql_GetClaim env d s
      \<and> Text_GetDecision msg env d (texts s) = Sql_GetDecision env d s
      \<and> Text_ListDecisionsByProposal msg env p (texts s) = Sql_ListDecisionsByProposal env p s
      \<and> Text_ListByProposal env p (texts s) = Sql_ListByProposal env p s"
  using assms
  by (simp only: Text_GetClaim_refines Text_GetDecision_refines Text_ListDecisions_refines Text_ListByProposal_refines)

theorem text_queries_refine_witness:
  "storable sample_tables \<and>
   Text_GetDecision (\<lambda>_. '''') sample_quiet ''d1'' (texts sample_tables) = Inr sample_decision_row \<and>
   Text_GetClaim sample_quiet ''d1'' (texts sample_tables) = Inr sample_claim_row \<and>
   Text_ListByProposal sample_quiet ''p1'' (texts sample_tables) = Inr [sample_audit_row]"
  using text_queries_refine [OF sample_tables_storable, of sample_quiet "''d1''" "\<lambda>_. ''''" "''p1''"] sample_tables_storable
  by (simp add: Sql_GetDecision_def Sql_GetClaim_def Sql_ListByProposal_def QueryRow_def decision_row_def
      claim_row_def sample_quiet_def sample_tables_def sample_decision_row_def sample_claim_row_def sample_audit_row_def)

text \<open>
  C40. The writing methods on rows of texts do what the methods on values do: as long as
  what is written is storable, \<^verbatim>\<open>ClaimExecution\<close>, \<^verbatim>\<open>AdvanceClaim\<close>, \<^verbatim>\<open>AppendDecision\<close> and \<^verbatim>\<open>Append\<close> return the same
  error or success and leave the texts of the same tables, with every fault of the driver, and the tables stay
  storable. So what is shown of the tables of values holds of the database file.
\<close>

theorem text_methods_refine:
  assumes "storable s" "storable_time t" "storable_decision r" "storable_audit a" "same_env tenv env"
  shows "Text_ClaimExecution tenv d w t (texts s) = map_prod id texts (Sql_ClaimExecution env d w t s)
      \<and> Text_AdvanceClaim tenv d w to t (texts s) = map_prod id texts (Sql_AdvanceClaim env d w to t s)
      \<and> Text_AppendDecision msg tenv r (texts s) = map_prod id texts (Sql_AppendDecision env r s)
      \<and> Text_Append tenv t a (texts s) = map_prod id texts (Sql_Append env t a s)
      \<and> list_all storable [snd (Sql_ClaimExecution env d w t s), snd (Sql_AdvanceClaim env d w to t s),
          snd (Sql_AppendDecision env r s), snd (Sql_Append env t a s)]"
  using Text_ClaimExecution_refines [OF assms(1,2,5)] Text_AdvanceClaim_refines [OF assms(1,2,5)]
    Text_AppendDecision_refines [OF assms(1,3,5)] Text_Append_refines [OF assms(1,4,2,5)]
  by simp

definition sample_tenv :: text_env where
  "sample_tenv = \<lparr>tv_sql = sample_quiet, tv_later = (\<lambda>s. s)\<rparr>"

theorem text_methods_refine_witness:
  "Text_AdvanceClaim sample_tenv ''d1'' (ec_Owner sample_claim_row) ClaimStateCompleted 5000000000 (texts sample_tables) =
   (None, texts (sample_tables\<lparr>db_claims := [sample_claim_row\<lparr>ec_State := ClaimStateCompleted, ec_UpdatedAt := 5000000000\<rparr>]\<rparr>))"
proof -
  have "storable_time 5000000000" by (rule january_storable) simp_all
  moreover have "same_env sample_tenv sample_quiet" by (simp add: same_env_def sample_tenv_def sample_quiet_def)
  ultimately show ?thesis
    using text_methods_refine [OF sample_tables_storable, of 5000000000 sample_decision_row sample_audit_row sample_tenv sample_quiet
        "''d1''" "ec_Owner sample_claim_row" ClaimStateCompleted]
    by (simp add: sample_rows_storable Sql_AdvanceClaim_def ClaimSources_def ExecContext_def sample_quiet_def update_claim_def
        sample_tables_def sample_claim_row_def check_state_def)
qed

text \<open>
  C32. A decision record whose append succeeded is read back unchanged, through its texts in the
  columns, for ever: after any number of calls of the store by any connection, appends of decision and audit
  rows, claims and their transitions, with whatever faults. The append itself may be a retry that finds
  the record in place, with other connections' calls in between. The record has to be storable: a
  four-digit year, reasons in UTF-8, and enum values of the code.
\<close>

theorem text_record_for_ever:
  assumes "Text_AppendDecision msg env r s = (None, s')" "tv_later env = tx_run msg others" "storable_decision r"
    and "se_read env' = None"
  shows "Text_GetDecision msg env' (dr_DecisionID r) (tx_run msg ops s') = Inr r"
proof -
  obtain row where row: "find (\<lambda>x. dc_decision_id x = dr_DecisionID r) (tx_decisions s') = Some row" "scanDecision msg row = Inr r"
    by (rule appended_row [OF assms(1-3)])
  obtain rs where "tx_decisions (tx_run msg ops s') = tx_decisions s' @ rs" using tx_run_decisions by blast
  with find_prefix [OF row(1), of rs] row(2) assms(4) show ?thesis by (simp add: Text_GetDecision_def QueryRow_def)
qed

theorem text_record_for_ever_witness:
  "Text_GetDecision (\<lambda>_. '''') sample_quiet ''d1'' (tx_run (\<lambda>_. '''')
     [TxDecision sample_tenv (sample_decision_row\<lparr>dr_Verdict := VerdictDeny\<rparr>),
      TxClaim sample_tenv ''d1'' (ec_Owner sample_claim_row) 5000000000, TxAudit sample_tenv 0 sample_audit_row]
     (texts (migrate\<lparr>db_decisions := [sample_decision_row]\<rparr>))) = Inr sample_decision_row"
proof -
  have "Validate sample_decision_row = None"
    by (simp add: Validate_None_iff sample_decision_row_def IsZero_def zero_time_def)
  then have "Text_AppendDecision (\<lambda>_. '''') sample_tenv sample_decision_row (texts migrate) =
      (None, texts (migrate\<lparr>db_decisions := [sample_decision_row]\<rparr>))"
    by (simp add: Text_AppendDecision_def ExecContext_def insert_decision_text_def sample_tenv_def sample_quiet_def texts_def migrate_def)
  moreover have "tv_later sample_tenv = tx_run (\<lambda>_. '''') []" by (simp add: sample_tenv_def tx_run_def fun_eq_iff)
  moreover have "dr_DecisionID sample_decision_row = ''d1''" by (simp add: sample_decision_row_def)
  ultimately show ?thesis
    using text_record_for_ever [of "\<lambda>_. ''''" sample_tenv sample_decision_row "texts migrate" _ "[]" sample_quiet] sample_rows_storable(1)
    by (simp add: sample_quiet_def)
qed

end
