(* ===== verification/Claim_Suite.thy ===== *)
theory Claim_Suite
  imports Activities Memory_Store Sqlite_Store
begin

text \<open>
  \<^verbatim>\<open>internal/decision/decisiontest/claims.go\<close>: the tests every claim store of the program has to
  pass. A subtest is a script of calls with the result each call must have, run on a fresh store;
  the text of a failure message is left out, so a script just passes or fails. Goroutines that race
  on the store are scheduled in an arbitrary order, since each call of a store is atomic.

  The locale \<open>stores\<close> is what the suite needs of a store, both contracts over one state. It is
  shown that a script behaves on every such store as it does on the abstract records and claims,
  so running the suite on the abstract state decides it for both implementations.
\<close>

section \<open>Stores and scripts\<close>

record ('f, 's) Stores =
  sx_Store :: "('f, 's) Store"
  sx_Claims :: "('f, 's) ClaimStore"

definition suite_at :: time where
  "suite_at = 1767323045 * 1000000000"

definition seed_record :: "string \<Rightarrow> DecisionRecord" where
  "seed_record i = \<lparr>dr_DecisionID = i, dr_Stage = StageIngress, dr_ProposalID = ''p-'' @ i, dr_AgentID = ''agent-a'',
     dr_RequestHash = ''hash-'' @ i, dr_Command = '''', dr_TargetID = '''', dr_Environment = '''',
     dr_Verdict = VerdictAllow, dr_Reasons = [], dr_PolicyVersion = '''', dr_PolicyDigest = '''',
     dr_WorkflowID = ''saga-p-'' @ i, dr_TraceID = '''', dr_RecordedAt = suite_at\<rparr>"

definition owner :: "string \<Rightarrow> ClaimOwner" where
  "owner run = \<lparr>o_WorkflowID = ''saga-p-dec_1'', o_RunID = run, o_Token = ''exe_'' @ run\<rparr>"

datatype expected = Succeeds | Fails | FailsWith sentinel

definition as_expected :: "expected \<Rightarrow> sentinel option \<Rightarrow> bool" where
  "as_expected x e = (case x of Succeeds \<Rightarrow> e = None | Fails \<Rightarrow> e \<noteq> None | FailsWith k \<Rightarrow> e = Some k)"

datatype call = Claim string ClaimOwner | Advance string ClaimOwner ClaimState

datatype suite_step =
    SeedIngress string
  | Call call expected
  | RequireState string ClaimState ClaimOwner
  | RequireNoClaim string
  | Race "nat list" "call list" sentinel

text \<open>
  \<^verbatim>\<open>RequireOneWinner\<close>: no error but the expected one, and exactly one success. The goroutine of
  call \<open>i\<close> stores its error in \<^verbatim>\<open>errs[i]\<close>; \<open>order\<close> is the order in which the calls reach the store.
\<close>

fun winners :: "sentinel \<Rightarrow> sentinel option list \<Rightarrow> nat \<Rightarrow> nat option" where
  "winners k [] n = Some n"
| "winners k (None # es) n = winners k es (n + 1)"
| "winners k (Some e # es) n = (if e \<noteq> k then None else winners k es n)"

definition RequireOneWinner :: "sentinel \<Rightarrow> sentinel option list \<Rightarrow> bool" where
  "RequireOneWinner k errs \<longleftrightarrow> winners k errs 0 = Some 1"

fun race :: "('s \<Rightarrow> sentinel option \<times> 's) list \<Rightarrow> nat list \<Rightarrow> sentinel option list \<Rightarrow> 's \<Rightarrow> sentinel option list \<times> 's" where
  "race calls [] errs s = (errs, s)"
| "race calls (i # order) errs s = (case (calls ! i) s of (e, s') \<Rightarrow> race calls order (errs[i := e]) s')"

text \<open>One call on a store, with the sentinel \<^verbatim>\<open>errors.Is\<close> finds in its error.\<close>

fun call_on :: "('f, 's) Stores \<Rightarrow> 'f \<Rightarrow> call \<Rightarrow> 's \<Rightarrow> sentinel option \<times> 's" where
  "call_on S bg (Claim d w) s =
     (case cs_ClaimExecution (sx_Claims S) bg d w suite_at s of (e, s') \<Rightarrow> (map_option err_is e, s'))"
| "call_on S bg (Advance d w to) s =
     (case cs_AdvanceClaim (sx_Claims S) bg d w to suite_at s of (e, s') \<Rightarrow> (map_option err_is e, s'))"

definition requireState :: "('f, 's) Stores \<Rightarrow> 'f \<Rightarrow> string \<Rightarrow> ClaimState \<Rightarrow> ClaimOwner \<Rightarrow> 's \<Rightarrow> bool" where
  "requireState S bg d want wantOwner s = (case cs_GetClaim (sx_Claims S) bg d s of
       Inl e \<Rightarrow> False
     | Inr c \<Rightarrow> ec_State c = want \<and> ec_Owner c = wantOwner \<and> ec_DecisionID c = d)"

fun step_on :: "('f, 's) Stores \<Rightarrow> 'f \<Rightarrow> suite_step \<Rightarrow> 's \<Rightarrow> bool \<times> 's" where
  "step_on S bg (SeedIngress i) s =
     (case st_AppendDecision (sx_Store S) bg (seed_record i) s of (e, s') \<Rightarrow> (e = None, s'))"
| "step_on S bg (Call c x) s = (case call_on S bg c s of (e, s') \<Rightarrow> (as_expected x e, s'))"
| "step_on S bg (RequireState d want w) s = (requireState S bg d want w s, s)"
| "step_on S bg (RequireNoClaim d) s =
     ((case cs_GetClaim (sx_Claims S) bg d s of Inl e \<Rightarrow> err_is e = ErrClaimNotFound | Inr _ \<Rightarrow> False), s)"
| "step_on S bg (Race order calls k) s =
     (case race (map (call_on S bg) calls) order (replicate (length calls) None) s of
        (errs, s') \<Rightarrow> (RequireOneWinner k errs, s'))"

text \<open>A subtest stops at its first failure.\<close>

fun subtest :: "('s \<Rightarrow> bool \<times> 's) list \<Rightarrow> 's \<Rightarrow> bool" where
  "subtest [] s = True"
| "subtest (st # sts) s = (case st s of (ok, s') \<Rightarrow> ok \<and> subtest sts s')"

section \<open>The subtests\<close>

abbreviation own_a :: ClaimOwner where "own_a \<equiv> owner ''run-1''"
abbreviation own_b :: ClaimOwner where "own_b \<equiv> owner ''run-2''"
abbreviation refused :: expected where "refused \<equiv> FailsWith ErrClaimNotHeld"
abbreviation held :: expected where "held \<equiv> FailsWith ErrClaimHeld"

definition mustTransition :: "ClaimOwner \<Rightarrow> ClaimState \<Rightarrow> suite_step" where
  "mustTransition w to = Call (Advance ''dec_1'' w to) Succeeds"

definition mustAdvance :: "ClaimOwner \<Rightarrow> ClaimState list \<Rightarrow> suite_step list" where
  "mustAdvance w states = Call (Claim ''dec_1'' w) Succeeds # map (mustTransition w) states"

definition unknown_decision :: "suite_step list" where
  "unknown_decision = [Call (Claim ''dec_missing'' own_a) (FailsWith ErrDecisionNotFound), RequireNoClaim ''dec_missing'']"

definition incomplete_owner :: "suite_step list" where
  "incomplete_owner = [SeedIngress ''dec_1'', Call (Claim ''dec_1'' (own_a\<lparr>o_Token := ''''\<rparr>)) Fails]"

definition full_lifecycle :: "suite_step list" where
  "full_lifecycle =
     [SeedIngress ''dec_1'',
      Call (Claim ''dec_1'' own_a) Succeeds,
      Call (Claim ''dec_1'' own_a) Succeeds,
      RequireState ''dec_1'' ClaimStateClaimed own_a,
      Call (Advance ''dec_1'' own_a ClaimStateCompleted) refused,
      Call (Advance ''dec_1'' own_a ClaimStateExecuting) Succeeds,
      Call (Advance ''dec_1'' own_a ClaimStateExecuting) refused,
      Call (Advance ''dec_1'' own_a ClaimStateReleased) refused,
      Call (Claim ''dec_1'' own_a) held] @
     replicate 2 (Call (Advance ''dec_1'' own_a ClaimStateCompleted) Succeeds) @
     [Call (Advance ''dec_1'' own_a ClaimStateFailed) refused,
      RequireState ''dec_1'' ClaimStateCompleted own_a,
      Call (Claim ''dec_1'' own_b) held]"

definition failed_terminal :: "suite_step list" where
  "failed_terminal = SeedIngress ''dec_1'' # mustAdvance own_a [ClaimStateExecuting, ClaimStateFailed] @
     [Call (Claim ''dec_1'' own_b) held, RequireState ''dec_1'' ClaimStateFailed own_a]"

definition held_until_reconciled :: "ClaimState \<Rightarrow> suite_step list" where
  "held_until_reconciled fin =
     [SeedIngress ''dec_1'',
      Call (Claim ''dec_1'' own_a) Succeeds,
      Call (Advance ''dec_1'' own_a ClaimStateReconciliationRequired) refused,
      mustTransition own_a ClaimStateExecuting] @
     replicate 2 (mustTransition own_a ClaimStateReconciliationRequired) @
     [Call (Advance ''dec_1'' own_a ClaimStateReleased) refused] @
     map (\<lambda>w. Call (Claim ''dec_1'' w) held) [own_a, own_b] @
     [Call (Advance ''dec_1'' own_b fin) refused,
      RequireState ''dec_1'' ClaimStateReconciliationRequired own_a] @
     replicate 2 (mustTransition own_a fin) @
     [Call (Advance ''dec_1'' own_a ClaimStateReconciliationRequired) refused,
      RequireState ''dec_1'' fin own_a]"

definition fence_paths :: "ClaimState list list" where
  "fence_paths = [[ClaimStateReleased], [ClaimStateExecuting],
     [ClaimStateExecuting, ClaimStateReconciliationRequired], [ClaimStateExecuting, ClaimStateCompleted],
     [ClaimStateExecuting, ClaimStateFailed]]"

definition fence_only_from_claimed :: "ClaimState list \<Rightarrow> suite_step list" where
  "fence_only_from_claimed path = SeedIngress ''dec_1'' # mustAdvance own_a path @
     [Call (Advance ''dec_1'' own_a ClaimStateExecuting) refused, RequireState ''dec_1'' (last path) own_a]"

definition concurrent_fences :: "nat list \<Rightarrow> suite_step list" where
  "concurrent_fences order =
     [SeedIngress ''dec_1'', Call (Claim ''dec_1'' own_a) Succeeds,
      Race order (replicate 16 (Advance ''dec_1'' own_a ClaimStateExecuting)) ErrClaimNotHeld,
      RequireState ''dec_1'' ClaimStateExecuting own_a]"

text \<open>Go ranges over the map of other executions in any order.\<close>

definition other_owners :: "ClaimOwner list" where
  "other_owners = [own_b, own_a\<lparr>o_Token := ''exe_other''\<rparr>, own_a\<lparr>o_RunID := ''run-reset''\<rparr>]"

definition other_executions :: "nat list \<Rightarrow> suite_step list" where
  "other_executions order =
     [SeedIngress ''dec_1'', Call (Claim ''dec_1'' own_a) Succeeds] @
     concat (map (\<lambda>w. [Call (Claim ''dec_1'' w) held,
        Call (Advance ''dec_1'' w ClaimStateExecuting) refused,
        Call (Advance ''dec_1'' w ClaimStateReleased) refused]) (map (nth other_owners) order)) @
     [RequireState ''dec_1'' ClaimStateClaimed own_a]"

definition released_retaken :: "suite_step list" where
  "released_retaken =
     [SeedIngress ''dec_1'', Call (Claim ''dec_1'' own_a) Succeeds] @
     replicate 2 (Call (Advance ''dec_1'' own_a ClaimStateReleased) Succeeds) @
     [Call (Claim ''dec_1'' own_b) Succeeds,
      RequireState ''dec_1'' ClaimStateClaimed own_b,
      Call (Advance ''dec_1'' own_a ClaimStateExecuting) refused,
      Call (Advance ''dec_1'' own_a ClaimStateReleased) refused]"

definition invalid_targets :: "suite_step list" where
  "invalid_targets = [SeedIngress ''dec_1'', Call (Claim ''dec_1'' own_a) Succeeds] @
     map (\<lambda>to. Call (Advance ''dec_1'' own_a to) refused) [ClaimStateClaimed, ClaimState_other ''BOGUS'']"

definition independent_decisions :: "suite_step list" where
  "independent_decisions = [SeedIngress ''dec_1'', SeedIngress ''dec_2'',
     Call (Claim ''dec_1'' own_a) Succeeds, Call (Claim ''dec_2'' own_b) Succeeds]"

definition concurrent_claims :: "nat list \<Rightarrow> suite_step list" where
  "concurrent_claims order = [SeedIngress ''dec_1'',
     Race order (map (\<lambda>i. Claim ''dec_1'' (owner (''run-'' @ fmt_d i))) [0..<32]) ErrClaimHeld]"

text \<open>The scripts of the suite, for the three orders the runtime chooses.\<close>

definition suite_scripts :: "nat list \<Rightarrow> nat list \<Rightarrow> nat list \<Rightarrow> suite_step list list" where
  "suite_scripts forder oorder corder =
     [unknown_decision, incomplete_owner, full_lifecycle, failed_terminal] @
     map held_until_reconciled [ClaimStateCompleted, ClaimStateFailed] @
     map fence_only_from_claimed fence_paths @
     [concurrent_fences forder, other_executions oorder, released_retaken, invalid_targets,
      independent_decisions, concurrent_claims corder]"

definition RunClaimStoreTests ::
  "('f, 's) Stores \<Rightarrow> 'f \<Rightarrow> 's \<Rightarrow> nat list \<Rightarrow> nat list \<Rightarrow> nat list \<Rightarrow> bool list" where
  "RunClaimStoreTests S bg new forder oorder corder =
     map (\<lambda>script. subtest (map (step_on S bg) script) new) (suite_scripts forder oorder corder)"

section \<open>Every store behaves like the abstract one\<close>

text \<open>The specifications of both contracts as a store of their own.\<close>

definition spec_stores :: "(unit, DecisionRecord list \<times> claim_map) Stores" where
  "spec_stores = \<lparr>sx_Store = \<lparr>
       st_AppendDecision = (\<lambda>_ r (rs, m). case spec_append r rs of (e, rs') \<Rightarrow> (map_option (\<lambda>k. sentinel_error k '''') e, rs', m)),
       st_GetDecision = (\<lambda>_ d (rs, m). case lookup_decision rs d of None \<Rightarrow> Inl decision_not_found | Some r \<Rightarrow> Inr r)\<rparr>,
     sx_Claims = \<lparr>
       cs_ClaimExecution = (\<lambda>_ d w t (rs, m). case spec_claim (dr_DecisionID ` set rs) d w t m of (e, m') \<Rightarrow>
          (map_option (\<lambda>k. sentinel_error k '''') e, rs, m')),
       cs_AdvanceClaim = (\<lambda>_ d w to t (rs, m). case spec_advance d w to t m of (e, m') \<Rightarrow>
          (map_option (\<lambda>k. sentinel_error k '''') e, rs, m')),
       cs_GetClaim = (\<lambda>_ d (rs, m). case m d of None \<Rightarrow> Inl claim_not_found | Some c \<Rightarrow> Inr c)\<rparr>\<rparr>"

text \<open>A race schedules only the calls it has.\<close>

fun wf_step :: "suite_step \<Rightarrow> bool" where
  "wf_step (Race order qs k) \<longleftrightarrow> set order \<subseteq> {..<length qs}"
| "wf_step _ \<longleftrightarrow> True"

locale stores =
  c: claim_store claim advance getc claims known quiet invar +
  r: record_store append getd listd records sound quiet invar
  for claim :: "'f \<Rightarrow> string \<Rightarrow> ClaimOwner \<Rightarrow> time \<Rightarrow> 's \<Rightarrow> go_error option \<times> 's"
    and advance :: "'f \<Rightarrow> string \<Rightarrow> ClaimOwner \<Rightarrow> ClaimState \<Rightarrow> time \<Rightarrow> 's \<Rightarrow> go_error option \<times> 's"
    and getc :: "'f \<Rightarrow> string \<Rightarrow> 's \<Rightarrow> go_error + ExecutionClaim"
    and claims :: "'s \<Rightarrow> claim_map"
    and known :: "'s \<Rightarrow> string set"
    and quiet :: "'f \<Rightarrow> bool"
    and invar :: "'s \<Rightarrow> bool"
    and append :: "'f \<Rightarrow> DecisionRecord \<Rightarrow> 's \<Rightarrow> go_error option \<times> 's"
    and getd :: "'f \<Rightarrow> string \<Rightarrow> 's \<Rightarrow> go_error + DecisionRecord"
    and listd :: "'f \<Rightarrow> string \<Rightarrow> 's \<Rightarrow> go_error + DecisionRecord list"
    and records :: "'s \<Rightarrow> DecisionRecord list"
    and sound :: "'f \<Rightarrow> bool" +
  assumes known_records: "invar s \<Longrightarrow> known s = dr_DecisionID ` set (records s)"
    and append_claims: "invar s \<Longrightarrow> append f rec s = (e, s') \<Longrightarrow> claims s' = claims s"
    and claim_records: "invar s \<Longrightarrow> claim f d w t s = (e, s') \<Longrightarrow> records s' = records s"
    and advance_records: "invar s \<Longrightarrow> advance f d w to t s = (e, s') \<Longrightarrow> records s' = records s"
begin

abbreviation stores_of :: "('f, 's) Stores" where
  "stores_of \<equiv> \<lparr>sx_Store = \<lparr>st_AppendDecision = append, st_GetDecision = getd\<rparr>,
     sx_Claims = \<lparr>cs_ClaimExecution = claim, cs_AdvanceClaim = advance, cs_GetClaim = getc\<rparr>\<rparr>"

abbreviation abs_of :: "'s \<Rightarrow> DecisionRecord list \<times> claim_map" where
  "abs_of s \<equiv> (records s, claims s)"

lemma call_sim:
  assumes "invar s" "quiet f" "call_on stores_of f q s = (e, s')"
  shows "invar s' \<and> call_on spec_stores () q (abs_of s) = (e, abs_of s')"
proof (cases q)
  case (Claim d w)
  then obtain er where c: "claim f d w suite_at s = (er, s')" "e = map_option err_is er"
    using assms(3) by (auto split: prod.splits)
  with Claim c.claim_quiet [OF assms(1,2) c(1)] c.claim_safe [OF assms(1) c(1)] claim_records [OF assms(1) c(1)]
  show ?thesis
    by (auto simp: spec_stores_def known_records [OF assms(1)] option.map_comp comp_def split: prod.splits)
next
  case (Advance d w to)
  then obtain er where c: "advance f d w to suite_at s = (er, s')" "e = map_option err_is er"
    using assms(3) by (auto split: prod.splits)
  with Advance c.advance_quiet [OF assms(1,2) c(1)] c.advance_safe [OF assms(1) c(1)] advance_records [OF assms(1) c(1)]
  show ?thesis by (auto simp: spec_stores_def option.map_comp comp_def split: prod.splits)
qed

lemma race_sim:
  assumes "quiet f"
  shows "invar s \<Longrightarrow> set order \<subseteq> {..<length qs} \<Longrightarrow>
    race (map (call_on stores_of f) qs) order errs s = (errs', s') \<Longrightarrow>
    invar s' \<and> race (map (call_on spec_stores ()) qs) order errs (abs_of s) = (errs', abs_of s')"
proof (induction order arbitrary: errs s)
  case (Cons i order)
  obtain e s1 where c: "call_on stores_of f (qs ! i) s = (e, s1)" by fastforce
  note call_sim [OF Cons.prems(1) assms c]
  with Cons.IH [of s1 "errs[i := e]"] Cons.prems(2,3) c show ?case by simp
qed simp

lemma step_sim:
  assumes "invar s" "quiet f" "wf_step st" "step_on stores_of f st s = (b, s')"
  shows "invar s' \<and> step_on spec_stores () st (abs_of s) = (b, abs_of s')"
  using assms
proof (cases st)
  case (SeedIngress i)
  then obtain er where a: "append f (seed_record i) s = (er, s')" "b = (er = None)"
    using assms(4) by (auto split: prod.splits)
  with SeedIngress r.append_quiet [OF assms(1,2) a(1)] r.append_safe [OF assms(1) a(1)] append_claims [OF assms(1) a(1)]
  show ?thesis by (auto simp: spec_stores_def split: prod.splits)
next
  case (Call q x)
  then obtain e where c: "call_on stores_of f q s = (e, s')" "b = as_expected x e"
    using assms(4) by (auto split: prod.splits)
  with Call call_sim [OF assms(1,2) c(1)] show ?thesis by simp
next
  case (Race order qs k)
  then obtain errs where c: "race (map (call_on stores_of f) qs) order (replicate (length qs) None) s = (errs, s')"
      "b = RequireOneWinner k errs"
    using assms(4) by (auto split: prod.splits)
  with Race race_sim [OF assms(2,1) _ c(1)] assms(3) show ?thesis by simp
qed (auto simp: requireState_def spec_stores_def c.get_quiet split: option.splits)

lemma subtest_sim:
  assumes "quiet f"
  shows "invar s \<Longrightarrow> list_all wf_step sts \<Longrightarrow>
    subtest (map (step_on stores_of f) sts) s = subtest (map (step_on spec_stores ()) sts) (abs_of s)"
proof (induction sts arbitrary: s)
  case (Cons st sts)
  obtain b s1 where st: "step_on stores_of f st s = (b, s1)" by fastforce
  with step_sim [OF Cons.prems(1) assms _ st] Cons show ?case by simp
qed simp

end

section \<open>The suite on the abstract store\<close>

lemma race_losers:
  "\<forall>j \<in> set order. (calls ! j) t = (Some k, t) \<Longrightarrow>
    race calls order errs t = (fold (\<lambda>j es. es[j := Some k]) order errs, t)"
  by (induction order arbitrary: errs) simp_all

lemma nth_fold_update:
  "i < length errs \<Longrightarrow> fold (\<lambda>j es. es[j := v]) js errs ! i = (if i \<in> set js then v else errs ! i)"
  by (induction js arbitrary: errs) (auto simp: nth_list_update)

lemma length_fold_update [simp]: "length (fold (\<lambda>j es. es[j := v]) js errs) = length errs"
  by (induction js arbitrary: errs) simp_all

lemma winners_count: "set errs \<subseteq> {None, Some k} \<Longrightarrow> winners k errs n = Some (n + count_list errs None)"
  by (induction k errs n rule: winners.induct) auto

lemma count_list_single:
  "i < n \<Longrightarrow> (\<And>j. j < n \<Longrightarrow> f j = x \<longleftrightarrow> j = i) \<Longrightarrow> count_list (map f [0..<n]) x = 1"
proof (induction n)
  case (Suc n)
  show ?case
  proof (cases "i = n")
    case True
    then have "\<forall>j<n. f j \<noteq> x" using Suc.prems(2) by (simp add: less_Suc_eq)
    then have "x \<notin> set (map f [0..<n])" by fastforce
    then show ?thesis using Suc.prems(2) [of n] True by (simp add: count_list_0_iff)
  next
    case False
    then show ?thesis using Suc by simp
  qed
qed simp

text \<open>An order in which each of \<open>n\<close> goroutines runs once.\<close>

definition schedule :: "nat \<Rightarrow> nat list \<Rightarrow> bool" where
  "schedule n order \<longleftrightarrow> distinct order \<and> set order = {..<n}"

text \<open>If whoever comes first wins and nobody wins after that, the race has one winner.\<close>

lemma race_one_winner:
  assumes "schedule (length calls) order" "calls \<noteq> []"
    and first: "\<And>i. i < length calls \<Longrightarrow> (calls ! i) s = (None, S i)"
    and later: "\<And>i j. i < length calls \<Longrightarrow> j < length calls \<Longrightarrow> j \<noteq> i \<Longrightarrow> (calls ! j) (S i) = (Some k, S i)"
  obtains i errs where "i < length calls" "race calls order (replicate (length calls) None) s = (errs, S i)"
    "RequireOneWinner k errs"
proof -
  have so: "set order = {..<length calls}" "distinct order"
    using assms(1) by (simp_all add: schedule_def)
  then obtain i rest where o: "order = i # rest" using assms(2) by (cases order) auto
  have i: "i < length calls" "i \<notin> set rest" "set rest = {..<length calls} - {i}" using so o by auto
  let ?e0 = "(replicate (length calls) None)[i := None]"
  let ?es = "fold (\<lambda>j es. es[j := Some k]) rest ?e0"
  have "race calls rest ?e0 (S i) = (?es, S i)" by (rule race_losers) (use i later in auto)
  then have r: "race calls order (replicate (length calls) None) s = (?es, S i)" using first [OF i(1)] by (simp add: o)
  have es: "?es = map (\<lambda>j. if j = i then None else Some k) [0..<length calls]"
    by (rule nth_equalityI) (use i in \<open>auto simp: nth_fold_update nth_list_update\<close>)
  have "count_list ?es None = 1" unfolding es using i(1) by (intro count_list_single) auto
  moreover have "set ?es \<subseteq> {None, Some k}" unfolding es by auto
  ultimately have "RequireOneWinner k ?es" by (simp add: RequireOneWinner_def winners_count)
  with that i(1) r show thesis by blast
qed

text \<open>Steps that pass and change nothing.\<close>

lemma subtest_stable: "\<forall>st \<in> set sts. st t = (True, t) \<Longrightarrow> subtest (sts @ rest) t = subtest rest t"
  by (induction sts) simp_all

definition seeded :: "DecisionRecord list \<times> claim_map" where
  "seeded = ([seed_record ''dec_1''], Map.empty)"

definition claimed_by :: "ClaimOwner \<Rightarrow> DecisionRecord list \<times> claim_map" where
  "claimed_by w = ([seed_record ''dec_1''], [''dec_1'' \<mapsto> new_claim ''dec_1'' w suite_at])"

lemma seed_step: "step_on spec_stores () (SeedIngress ''dec_1'') ([], Map.empty) = (True, seeded)"
  by (simp add: spec_stores_def spec_append_def seed_record_def Validate_None_iff suite_at_def IsZero_def zero_time_def
      lookup_decision_def seeded_def)

lemma claim_first: "Valid w \<Longrightarrow> call_on spec_stores () (Claim ''dec_1'' w) seeded = (None, claimed_by w)"
  by (simp add: spec_stores_def spec_claim_def seeded_def seed_record_def claimable_def claimed_by_def)

lemma claim_later:
  "Valid w \<Longrightarrow> w \<noteq> v \<Longrightarrow> call_on spec_stores () (Claim ''dec_1'' w) (claimed_by v) = (Some ErrClaimHeld, claimed_by v)"
  by (simp add: spec_stores_def spec_claim_def seed_record_def claimable_def claimed_by_def new_claim_def)

lemma advance_other:
  "w \<noteq> v \<Longrightarrow> call_on spec_stores () (Advance ''dec_1'' w to) (claimed_by v) = (Some ErrClaimNotHeld, claimed_by v)"
  by (simp add: spec_stores_def spec_advance_def may_advance_def claimed_by_def new_claim_def)

declare call_on.simps [simp del]

lemma owner_Valid [simp]: "Valid (owner run) \<longleftrightarrow> run \<noteq> ''''"
  by (simp add: owner_def Valid_def)

lemma owner_eq_iff [simp]: "owner x = owner y \<longleftrightarrow> x = y"
  by (simp add: owner_def)

lemma subtest_claim:
  "subtest (map (step_on spec_stores ()) (SeedIngress ''dec_1'' # Call (Claim ''dec_1'' own_a) Succeeds # sts)) ([], Map.empty) =
   subtest (map (step_on spec_stores ()) sts) (claimed_by own_a)"
  using seed_step claim_first [of own_a] by (simp add: as_expected_def)

lemma fixed_scripts:
  "list_all (\<lambda>script. subtest (map (step_on spec_stores ()) script) ([], Map.empty))
     ([unknown_decision, incomplete_owner, full_lifecycle, failed_terminal, released_retaken, invalid_targets,
       independent_decisions] @
      map held_until_reconciled [ClaimStateCompleted, ClaimStateFailed] @ map fence_only_from_claimed fence_paths)"
  by code_simp

lemma script_fences:
  assumes "schedule 16 order"
  shows "subtest (map (step_on spec_stores ()) (concurrent_fences order)) ([], Map.empty)"
proof -
  let ?q = "Advance ''dec_1'' own_a ClaimStateExecuting"
  let ?calls = "map (call_on spec_stores ()) (replicate 16 ?q)"
  define x where "x = snd (call_on spec_stores () ?q (claimed_by own_a))"
  have q: "call_on spec_stores () ?q (claimed_by own_a) = (None, x)" "call_on spec_stores () ?q x = (Some ErrClaimNotHeld, x)"
    and x: "requireState spec_stores () ''dec_1'' ClaimStateExecuting own_a x"
    unfolding x_def
    by (simp_all add: call_on.simps spec_stores_def spec_advance_def may_advance_def claimed_by_def new_claim_def
        claim_simps requireState_def)
  obtain errs i where "race ?calls order (replicate 16 None) (claimed_by own_a) = (errs, x)" "RequireOneWinner ErrClaimNotHeld errs"
    by (rule race_one_winner [of ?calls order "claimed_by own_a" "\<lambda>_. x" ErrClaimNotHeld]) (use assms q in simp_all)
  with x show ?thesis unfolding concurrent_fences_def subtest_claim by (simp del: map_replicate)
qed

lemma other_owners_nth:
  assumes "i < 3"
  shows "Valid (other_owners ! i) \<and> other_owners ! i \<noteq> own_a"
proof -
  have "other_owners ! i \<in> set other_owners" using assms by (intro nth_mem) (simp add: other_owners_def)
  then show ?thesis by (auto simp: other_owners_def owner_def Valid_def)
qed

lemma script_others:
  assumes "schedule 3 order"
  shows "subtest (map (step_on spec_stores ()) (other_executions order)) ([], Map.empty)"
proof -
  let ?blocks = "concat (map (\<lambda>w. [Call (Claim ''dec_1'' w) held, Call (Advance ''dec_1'' w ClaimStateExecuting) refused,
        Call (Advance ''dec_1'' w ClaimStateReleased) refused]) (map (nth other_owners) order))"
  have "\<forall>i \<in> set order. Valid (other_owners ! i) \<and> other_owners ! i \<noteq> own_a"
    using assms other_owners_nth by (simp add: schedule_def)
  then have "\<forall>st \<in> set (map (step_on spec_stores ()) ?blocks). st (claimed_by own_a) = (True, claimed_by own_a)"
    by (auto simp: claim_later advance_other as_expected_def)
  note stable = subtest_stable [OF this]
  show ?thesis
    unfolding other_executions_def append_Cons append_Nil subtest_claim map_append stable
    by (simp add: requireState_def spec_stores_def claimed_by_def new_claim_def)
qed

lemma fmt_d_eq_iff: "fmt_d m = fmt_d n \<longleftrightarrow> m = n"
  using fmt_d_inj by blast

lemma script_claims:
  assumes "schedule 32 order"
  shows "subtest (map (step_on spec_stores ()) (concurrent_claims order)) ([], Map.empty)"
proof -
  let ?qs = "map (\<lambda>i. Claim ''dec_1'' (owner (''run-'' @ fmt_d i))) [0..<32]"
  let ?calls = "map (call_on spec_stores ()) ?qs"
  obtain errs i where "race ?calls order (replicate (length ?calls) None) seeded = (errs, claimed_by (owner (''run-'' @ fmt_d i)))"
      "RequireOneWinner ErrClaimHeld errs"
    by (rule race_one_winner [of ?calls order seeded "\<lambda>i. claimed_by (owner (''run-'' @ fmt_d i))" ErrClaimHeld])
      (use assms fmt_d_eq_iff in \<open>auto simp: claim_first claim_later\<close>)
  with seed_step show ?thesis unfolding concurrent_claims_def by simp
qed

lemma suite_abstract:
  assumes "schedule 16 forder" "schedule 3 oorder" "schedule 32 corder"
  shows "list_all (\<lambda>script. subtest (map (step_on spec_stores ()) script) ([], Map.empty)) (suite_scripts forder oorder corder)"
  using fixed_scripts script_fences [OF assms(1)] script_others [OF assms(2)] script_claims [OF assms(3)]
  by (simp add: suite_scripts_def)

lemma scripts_wf:
  assumes "schedule 16 forder" "schedule 32 corder"
  shows "list_all (list_all wf_step) (suite_scripts forder oorder corder)"
  using assms
  by (auto simp: suite_scripts_def unknown_decision_def incomplete_owner_def full_lifecycle_def failed_terminal_def
      held_until_reconciled_def fence_only_from_claimed_def fence_paths_def concurrent_fences_def other_executions_def
      released_retaken_def invalid_targets_def independent_decisions_def concurrent_claims_def mustAdvance_def
      mustTransition_def list_all_iff schedule_def)

section \<open>The suite on the stores of the program\<close>

context stores
begin

lemma suite_passes:
  assumes "invar s" "quiet f" "records s = []" "claims s = Map.empty"
    and "schedule 16 forder" "schedule 3 oorder" "schedule 32 corder"
  shows "list_all (\<lambda>ok. ok) (RunClaimStoreTests stores_of f s forder oorder corder)"
  using suite_abstract [OF assms(5-7)] scripts_wf [OF assms(5,7)] subtest_sim [OF assms(2,1)]
  by (auto simp: RunClaimStoreTests_def list_all_iff assms(3,4))

end

definition mem_stores :: "(string option, MemoryStore) Stores" where
  "mem_stores = \<lparr>sx_Store = \<lparr>st_AppendDecision = Mem_AppendDecision, st_GetDecision = Mem_GetDecision\<rparr>,
     sx_Claims = \<lparr>cs_ClaimExecution = Mem_ClaimExecution, cs_AdvanceClaim = Mem_AdvanceClaim, cs_GetClaim = Mem_GetClaim\<rparr>\<rparr>"

definition sql_stores :: "(sql_env, database) Stores" where
  "sql_stores = \<lparr>sx_Store = \<lparr>st_AppendDecision = Sql_AppendDecision, st_GetDecision = Sql_GetDecision\<rparr>,
     sx_Claims = \<lparr>cs_ClaimExecution = Sql_ClaimExecution, cs_AdvanceClaim = Sql_AdvanceClaim, cs_GetClaim = Sql_GetClaim\<rparr>\<rparr>"

interpretation mems: stores Mem_ClaimExecution Mem_AdvanceClaim Mem_GetClaim ms_claims mem_known "\<lambda>ctx. ctx = None" mem_inv
  Mem_AppendDecision Mem_GetDecision Mem_ListDecisionsByProposal ms_records "\<lambda>_. True"
  by unfold_locales
    (metis mem_known_records, metis Mem_AppendDecision_claims snd_conv, metis Mem_ClaimExecution_records snd_conv,
     metis Mem_AdvanceClaim_records snd_conv)

interpretation sqls: stores Sql_ClaimExecution Sql_AdvanceClaim Sql_GetClaim sql_claims sql_known sql_quiet sql_inv
  Sql_AppendDecision Sql_GetDecision Sql_ListDecisionsByProposal db_decisions sql_sound
proof unfold_locales
  fix s f d w to t e s'
  assume inv: "sql_inv s" and c: "Sql_AdvanceClaim f d w to t s = (e, s')"
  show "db_decisions s' = db_decisions s"
  proof (cases "ClaimSources to")
    case None
    then show ?thesis using c by (auto simp: Sql_AdvanceClaim_def)
  next
    case (Some src)
    obtain n s1 where "update_claim d w to src t s = Inr (n, s1)" "db_decisions s1 = db_decisions s"
      using update_claim_ok [OF inv Some, of d w t] by blast
    with c Some show ?thesis
      by (auto simp: Sql_AdvanceClaim_def ExecContext_def split: exec_fault.splits if_splits)
  qed
next
  fix s f d w t e s'
  assume "sql_inv s" "Sql_ClaimExecution f d w t s = (e, s')"
  then show "db_decisions s' = db_decisions s"
    using Sql_ClaimExecution_cases by (cases "Valid w \<and> d \<noteq> ''''") (blast, auto simp: Sql_ClaimExecution_def)
next
  fix s f r e s'
  assume "sql_inv s" "Sql_AppendDecision f r s = (e, s')"
  then show "sql_claims s' = sql_claims s" using Sql_AppendDecision_cases by blast
qed (simp add: sql_known_def)

lemma fresh_stores:
  "ms_records NewMemoryStore = []" "ms_claims NewMemoryStore d = None" "db_decisions migrate = []" "sql_claims migrate d = None"
  by (simp_all add: NewMemoryStore_def migrate_def sql_claims_def claim_row_def)

text \<open>
  C19. Both stores pass every subtest of the shared suite, whatever order the goroutines of its two
  races run in and in whatever order the other executions are tried.
\<close>

theorem stores_pass_suite:
  assumes "schedule 16 forder" "schedule 3 oorder" "schedule 32 corder"
  shows "list_all (\<lambda>ok. ok) (RunClaimStoreTests mem_stores None NewMemoryStore forder oorder corder) \<and>
    list_all (\<lambda>ok. ok) (RunClaimStoreTests sql_stores ok_env migrate forder oorder corder)"
  unfolding mem_stores_def sql_stores_def
  using mems.suite_passes [OF _ _ _ _ assms, of NewMemoryStore None] sqls.suite_passes [OF _ _ _ _ assms, of migrate ok_env]
  by (simp add: fun_eq_iff NewMemoryStore_inv fresh_stores)

theorem stores_pass_suite_witness:
  "length (RunClaimStoreTests sql_stores ok_env migrate (rev [0..<16]) [2, 0, 1] [0..<32]) = 17 \<and>
   list_all (\<lambda>ok. ok) (RunClaimStoreTests sql_stores ok_env migrate (rev [0..<16]) [2, 0, 1] [0..<32])"
proof
  show "length (RunClaimStoreTests sql_stores ok_env migrate (rev [0..<16]) [2, 0, 1] [0..<32]) = 17"
    by (simp add: RunClaimStoreTests_def suite_scripts_def fence_paths_def)
  show "list_all (\<lambda>ok. ok) (RunClaimStoreTests sql_stores ok_env migrate (rev [0..<16]) [2, 0, 1] [0..<32])"
    by (rule stores_pass_suite [THEN conjunct2]) (auto simp: schedule_def)
qed

end
