(* ===== verification/Sha256_Test.thy ===== *)
theory Sha256_Test
  imports Sha256
begin

text \<open>
  The one-block test vector of FIPS 180-4, evaluated by the simplifier on the definitions of
  \<open>Sha256\<close>: the model computes the published digest of the three bytes \<^verbatim>\<open>abc\<close>.
\<close>

lemma Sum256_abc:
  "map of_char (Sum256 ''abc'') =
     [186, 120, 22, 191, 143, 1, 207, 234, 65, 65, 64, 222, 93, 174, 34, 35,
      176, 3, 97, 163, 150, 23, 122, 156, 180, 16, 255, 97, 242, 0, 21, 173 :: int]"
  by code_simp

end
