(* ===== verification/Spec2Isabelle.thy ===== *)
theory Spec2Isabelle
  imports Startup Deployment Memory_Store Row_Codec Claim_Suite Sha256_Test
begin

text \<open>
  \<^bold>\<open>SentryGate: a verification library\<close>

  SentryGate stands between AI agents and network infrastructure. An agent submits a proposal to the
  gateway (\<^verbatim>\<open>cmd/sentrygate\<close>), which authenticates it, judges it by a policy file, records the decision and, if the
  verdict is ALLOW, starts a Temporal workflow. The worker (\<^verbatim>\<open>cmd/worker\<close>) runs the workflow: it verifies the
  recorded decision, takes a claim on it, judges the request again by its own copy of the policy,
  acquires an execution fence, calls the infrastructure adapter once, asks the adapter again when
  the outcome is unknown, compensates a partial change, and keeps an audit trail. Gateway and worker
  share one SQLite file. \<^verbatim>\<open>cmd/agent-sim\<close> plays an agent and checks the whole.

  The model is a translation of the Go sources below \<^verbatim>\<open>src/\<close> into executable definitions that keep the
  names of the code: structs are records, enumerations are datatypes with an \<open>_other\<close> constructor for any
  other text, an \<^verbatim>\<open>error\<close> is a value of \<open>go_error\<close> in an option or a sum, state is passed explicitly, and byte strings are
  lists of characters. A failing or slow outside (contexts, clocks, driver faults, lost responses) is
  an argument of the operation it disturbs.

  \<^bold>\<open>Theories and what they model\<close>

  \<^item> \<open>Prelude\<close>, \<open>Contracts\<close>: errors, times and formatting; the records of \<^verbatim>\<open>shared/contracts\<close>.
  \<^item> \<open>Sha256\<close>, \<open>Sha256_Test\<close>: SHA-256 as used for digests of policies, keys and requests, on the standard's test vectors.
  \<^item> \<open>Policy\<close>: \<^verbatim>\<open>internal/policy\<close>, the strict schema, snapshots, and the loader that keeps the last good policy.
  \<^item> \<open>Decision\<close>: \<^verbatim>\<open>internal/decision\<close>'s \<^verbatim>\<open>Evaluate\<close>, \<^verbatim>\<open>Revalidate\<close>, \<^verbatim>\<open>VerifyIngress\<close> and the request hash.
  \<^item> \<open>Claim_Store\<close>, \<open>Record_Store\<close>: the abstract claim machine and the abstract decision log, with the locales \<open>claim_store\<close> and
    \<open>record_store\<close> that state what a store promises. \<open>Memory_Store\<close> (\<^verbatim>\<open>internal/decision/store.go\<close>, \<^verbatim>\<open>claim.go\<close>) and \<open>Sqlite_Store\<close>
    (\<^verbatim>\<open>internal/audit\<close>) implement and interpret them; \<open>Claim_Suite\<close> is the shared test suite of \<^verbatim>\<open>decisiontest/claims.go\<close>.
  \<^item> \<open>Time_Text\<close>, \<open>Time_Parse\<close>, \<open>Json\<close>, \<open>Row_Codec\<close>: what the SQLite store writes into its columns and reads back: RFC 3339
    times, the JSON of the reasons, and every method of the store again on tables of texts.
  \<^item> \<open>Auth\<close>, \<open>Proxy\<close>, \<open>Decode_Proposal\<close>, \<open>Handler\<close>, \<open>Gateway\<close>: the gateway. Keys and middleware (\<^verbatim>\<open>internal/auth\<close>), the
    throttled evaluation with its pool as an explicit heap and concurrent requests as a step relation, labelled with
    the request that takes the step (\<^verbatim>\<open>proxy/proxy.go\<close>), the strict JSON body, every route of \<^verbatim>\<open>handler.go\<close>, and their connection to the store.
  \<^item> \<open>Adapter\<close>, \<open>Audit_Trail\<close>, \<open>Activities\<close>: \<^verbatim>\<open>workflows/simulated.go\<close>, \<^verbatim>\<open>audit.go\<close>, \<^verbatim>\<open>decisions.go\<close> and \<^verbatim>\<open>activities.go\<close>. The
    locale \<open>adapter_contract\<close> is what the workflow may rely on; the simulated adapter interprets it.
  \<^item> \<open>Saga\<close>: \<^verbatim>\<open>workflows/saga.go\<close>, phase by phase, over a parameter \<open>'w temporal\<close> that answers every activity, timer and side
    effect. Each answer is recorded, so a run is its result and its history. \<open>Saga_Protocol\<close> specifies
    the legal histories; \<open>Saga_Trace\<close> relates histories to the states of the world they pass through.
  \<^item> \<open>Worker\<close>, \<open>System\<close>, \<open>Direct_Run\<close>: the worker's registered activities on the shared database, the adapter and the
    policy; all of them in any order and interleaving, with restarts and faults (\<open>Worker\<close>); runs of the
    workflow in the middle of that (\<open>System\<close>); and runs on a healthy system (\<open>Direct_Run\<close>).
  \<^item> \<open>Config\<close>, \<open>Startup\<close>: \<^verbatim>\<open>internal/config\<close> and the \<^verbatim>\<open>main\<close> functions, from the environment to the running process.
  \<^item> \<open>Agent_Sim\<close>, \<open>Deployment\<close>: \<^verbatim>\<open>cmd/agent-sim\<close> against any server, and against the models of gateway and worker with
    the shipped policy, where a run of the worker may be over any number of polls later. \<open>Clients\<close>: the mock clients of \<^verbatim>\<open>proxy/clients.go\<close>.

  \<^bold>\<open>What is shown\<close>

  \<^item> \<^emph>\<open>One decision, at most one change.\<close> However claim operations, runs, restarts and faults interleave, the fence of a
    decision is acquired once (\<open>sqlite_fence_once\<close>) and the adapter asked once (\<open>system_dispatch_once\<close>); a key takes
    effect at most once (\<open>adapter_at_most_once\<close>), and what the adapter confirms stays true (\<open>adapter_confirmed\<close>).
  \<^item> \<^emph>\<open>Nothing without authority.\<close> A dispatch is scheduled only after verification, claim, re-validation and both
    records (\<open>saga_dispatch_guarded\<close>, \<open>saga_history_legal\<close>); the gateway's ALLOW for exactly this request is then on
    record for ever and the worker's policy allowed it again (\<open>system_authorised\<close>, \<open>gateway_binds\<close>); requests act only
    as the agent of their key (\<open>handler_authenticated\<close>, \<open>auth_resolves\<close>, \<open>start_warning\<close>).
  \<^item> \<^emph>\<open>The result is the truth.\<close> What the workflow returns agrees with its history (\<open>saga_result\<close>) and with the
    infrastructure (\<open>system_result\<close>); a claim that was taken in vain is given back (\<open>saga_claim_given_back\<close>);
    reconciliation keeps its schedule and ends (\<open>reconcile_schedule\<close>). On a healthy system every run ends as its target calls for, with
    the exact audit trail (\<open>direct_outcomes\<close>), and the acceptance check of the repository passes, for all scenarios in sequence (\<open>agent_sim_passes\<close>).
  \<^item> \<^emph>\<open>The stores keep what they promise.\<close> Refinement of the abstract machine, invariants, records for ever, agreement
    of both stores, the suite (\<open>sqlite_refines_claims\<close>, \<open>sqlite_invariant\<close>, \<open>stores_agree\<close>, \<open>stores_pass_suite\<close> and others), down to the
    texts of the columns (\<open>text_queries_refine\<close>, \<open>text_methods_refine\<close>, \<open>text_record_for_ever\<close>).
  \<^item> \<^emph>\<open>Decisions and policy.\<close> Verdict and reasons on every branch, the exact ingress condition, injectivity of the hashed
    encoding, validation exactly as the declarative schema, the last good policy (\<open>evaluate_complete\<close>, \<open>ingress_checked\<close>,
    \<open>request_hash_binds\<close>, \<open>policy_accepted_iff\<close>, \<open>policy_last_good\<close>, \<open>start_policy\<close>); decoding of bodies and settings
    (\<open>decode_roundtrip\<close>, \<open>decode_strict\<close>, \<open>config_durations\<close>); isolation, bound and progress of the proxy (\<open>proxy_isolation\<close>,
    \<open>proxy_bounded\<close>, \<open>proxy_live\<close>).

  The development also shows three places where code and comment differ or an edge is missed: the
  order of \<^verbatim>\<open>ListByProposal\<close> (\<open>later_row_first\<close>), the retried write of the in-memory audit store, and the
  unchecked multiplication of a bare number of seconds (\<open>config_durations\<close>).

  \<^bold>\<open>Loops and bounds\<close>

  No definition uses fuel. The reconciliation loop, the waiting loop of the simulator and the loop of
  \<^verbatim>\<open>time.ParseDuration\<close> terminate by a measure (the window left on the clock, the time left, the length of the rest); tickers
  and goroutines are lists of events or interleavings. Integers are mathematical where no overflow is
  possible and have their width written out elsewhere: SHA-256, revision counters, durations, lengths
  in the hashed encoding.

  \<^bold>\<open>Parameters and hypotheses\<close>

  Code outside \<^verbatim>\<open>src/\<close> is an argument. The YAML decoder is a record of two functions. The SQL engine is modelled by the
  effect of each statement of the code on tables, with every call allowed to fail before or after its
  effect. Temporal is the record \<open>'w temporal\<close>; properties of the workflow alone hold for every such record, and those of the
  system assume that a result which is delivered comes from an attempt of the worker (\<open>worker_temporal\<close>), which the
  record \<open>direct_te\<close> satisfies. The number of questions in \<open>reconcile_schedule\<close> assumes that Temporal keeps to the
  \<^verbatim>\<open>MaximumAttempts\<close> it is given (\<open>retries_bounded\<close>). The simulated adapter forgets its keys when the worker restarts, as its source
  says; \<open>system_dispatch_once\<close> allows restarts, \<open>system_result\<close> speaks of one life of the adapter.

  \<^bold>\<open>Not modelled\<close>

  Log lines, traces and printed output; the listeners, signal handling and shutdown of the processes, which
  only call the standard library; parsing of command-line flags; the texts of JSON syntax errors (a
  parameter); the suffix with type and cause that Temporal adds when it prints an application error, and
  what \<^verbatim>\<open>%q\<close> makes of unprintable text beyond ASCII, both of which appear in messages only; the JSON encoding of responses, which are compared as the values that are encoded;
  random identifiers (parameters). The interfaces that Go declares only to name a subset of methods
  (\<^verbatim>\<open>pinger\<close>, \<^verbatim>\<open>scanner\<close>, \<^verbatim>\<open>auditReader\<close>) have no counterpart of their own.
\<close>

section \<open>The two stores\<close>

definition sample_mem :: MemoryStore where
  "sample_mem = snd (Mem_AppendDecision None sample_record NewMemoryStore)"

lemma sample_mem_eq: "sample_mem = NewMemoryStore\<lparr>ms_byID := [''d'' \<mapsto> 0], ms_records := [sample_record]\<rparr>"
  by (simp add: sample_mem_def Mem_AppendDecision_def NewMemoryStore_def)

lemma sample_mem_inv: "mem_inv sample_mem"
  using Mem_AppendDecision_inv [OF NewMemoryStore_inv surjective_pairing] by (simp add: sample_mem_def)

lemma same_fault: "op \<in> set (map (map_claim_op (\<lambda>_. f)) ops) \<Longrightarrow> P f \<Longrightarrow> pred_claim_op P op"
  by (auto simp: claim_op.pred_set claim_op.set_map)

text \<open>
  C16. The in-memory store and the SQLite store are interchangeable: started with the same claims and
  the same recorded decisions, any sequence of claim calls reports the same errors and leaves the same
  claims in both, as long as no call fails.
\<close>

theorem stores_agree:
  assumes "mem_inv m" "sql_inv db" "ms_claims m = sql_claims db" "mem_known m = sql_known db" "sql_quiet env"
  shows "map (map_option err_is) (fst (run_ops Mem_ClaimExecution Mem_AdvanceClaim (map (map_claim_op (\<lambda>_. None)) ops) m)) =
      map (map_option err_is) (fst (run_ops Sql_ClaimExecution Sql_AdvanceClaim (map (map_claim_op (\<lambda>_. env)) ops) db)) \<and>
    ms_claims (snd (run_ops Mem_ClaimExecution Mem_AdvanceClaim (map (map_claim_op (\<lambda>_. None)) ops) m)) =
      sql_claims (snd (run_ops Sql_ClaimExecution Sql_AdvanceClaim (map (map_claim_op (\<lambda>_. env)) ops) db))"
proof -
  let ?m = "run_ops Mem_ClaimExecution Mem_AdvanceClaim (map (map_claim_op (\<lambda>_. None)) ops) m"
  let ?db = "run_ops Sql_ClaimExecution Sql_AdvanceClaim (map (map_claim_op (\<lambda>_. env)) ops) db"
  have q: "\<And>op. op \<in> set (map (map_claim_op (\<lambda>_. None)) ops) \<Longrightarrow> pred_claim_op (\<lambda>ctx. ctx = None) op"
    "\<And>op. op \<in> set (map (map_claim_op (\<lambda>_. env)) ops) \<Longrightarrow> pred_claim_op sql_quiet op"
    using assms(5) by (auto intro!: same_fault)
  have "(map (map_option err_is) (fst ?m), ms_claims (snd ?m)) = spec_ops (sql_known db) ops (sql_claims db)"
    using mem.ops_refine [where ops = "map (map_claim_op (\<lambda>_. None)) ops", OF assms(1) surjective_pairing q(1)] assms(3,4) by (simp add: spec_ops_map)
  moreover have "(map (map_option err_is) (fst ?db), sql_claims (snd ?db)) = spec_ops (sql_known db) ops (sql_claims db)"
    using sql.ops_refine [where ops = "map (map_claim_op (\<lambda>_. env)) ops", OF assms(2) surjective_pairing q(2)] by (simp add: spec_ops_map)
  ultimately show ?thesis by (metis prod.inject)
qed

theorem stores_agree_witness:
  "map (map_option err_is) (fst (run_ops Mem_ClaimExecution Mem_AdvanceClaim
       [OpClaim None ''d'' (sample_owner ''T'') 1, OpClaim None ''d'' (sample_owner ''U'') 2] sample_mem)) =
   map (map_option err_is) (fst (run_ops Sql_ClaimExecution Sql_AdvanceClaim
       [OpClaim ok_env ''d'' (sample_owner ''T'') 1, OpClaim ok_env ''d'' (sample_owner ''U'') 2] sample_db))"
proof -
  have "ms_claims sample_mem = sql_claims sample_db" "mem_known sample_mem = sql_known sample_db"
    by (simp_all add: sample_mem_eq NewMemoryStore_def mem_known_def fun_eq_iff)
  from stores_agree [OF sample_mem_inv sample_db_inv this ok_env_quiet,
      of "[OpClaim () ''d'' (sample_owner ''T'') 1, OpClaim () ''d'' (sample_owner ''U'') 2]"]
  show ?thesis by simp
qed

end
